(* ===== verification/Rust_Prelude.thy ===== *)
theory Rust_Prelude
  imports Main "HOL-Library.Sublist" "HOL-Library.List_Lexorder" "HOL-Library.Char_ord"
begin

text \<open>
  Shared vocabulary of the development: results and the \<open>?\<close> operator, byte strings, and
  the operations of Rust's \<open>str\<close> that the code uses.

  A Rust \<open>str\<close> is a sequence of bytes that is valid UTF-8; here it is the HOL list of
  those bytes (\<open>char\<close> has exactly 256 values), so \<open>as_bytes\<close> is the identity, \<open>len\<close>
  counts bytes and string comparison is the lexicographic order of bytes, as in Rust.  Whatever
  Rust does per Unicode character (\<open>trim\<close>, \<open>chars\<close>) decodes the bytes first.
\<close>

section \<open>Results and effects\<close>

type_synonym bytes = string
type_synonym str = string

text \<open>A fallible effect over a world: Rust's \<open>Result\<close> paired with the world it leaves.\<close>

type_synonym ('w, 'e, 'a) eff = "'w \<Rightarrow> ('e + 'a) \<times> 'w"

named_theorems res_simps \<open>evaluation of results, of the question-mark operator and of \<open>map_err\<close>\<close>

definition map_err :: "('e \<Rightarrow> 'f) \<Rightarrow> 'e + 'a \<Rightarrow> 'f + 'a" where
  "map_err f r = (case r of Inl e \<Rightarrow> Inl (f e) | Inr a \<Rightarrow> Inr a)"

text \<open>\<open>op()?\<close> on a plain result, then the rest of the function body.\<close>

definition and_then :: "'e + 'a \<Rightarrow> ('a \<Rightarrow> 'e + 'b) \<Rightarrow> 'e + 'b" where
  "and_then r k = (case r of Inl e \<Rightarrow> Inl e | Inr a \<Rightarrow> k a)"

text \<open>\<open>op()?\<close> on an effect: an error returns at once, with the world as the call left it.\<close>

definition then_eff :: "('e + 'a) \<times> 'w \<Rightarrow> ('a \<Rightarrow> 'w \<Rightarrow> ('e + 'b) \<times> 'w) \<Rightarrow> ('e + 'b) \<times> 'w" where
  "then_eff r k = (case r of (Inl e, w) \<Rightarrow> (Inl e, w) | (Inr a, w) \<Rightarrow> k a w)"

text \<open>\<open>if let Err(e) = op() { .. }\<close>: a handler that sees the error and the world it left.\<close>

definition catch_eff :: "('e + 'a) \<times> 'w \<Rightarrow> ('e \<Rightarrow> 'w \<Rightarrow> ('f + 'a) \<times> 'w) \<Rightarrow> ('f + 'a) \<times> 'w" where
  "catch_eff r h = (case r of (Inl e, w) \<Rightarrow> h e w | (Inr a, w) \<Rightarrow> (Inr a, w))"

definition map_err_st :: "('e \<Rightarrow> 'f) \<Rightarrow> ('e + 'a) \<times> 'w \<Rightarrow> ('f + 'a) \<times> 'w" where
  "map_err_st f r = (map_err f (fst r), snd r)"

text \<open>
  \<open>expect\<close> of a result that is always \<open>Ok\<close>: on \<open>Err\<close> the code panics, which is no
  value at all, so nothing can be derived about that branch.
\<close>

definition expect :: "'e + 'a \<Rightarrow> 'a" where
  "expect r = (case r of Inr a \<Rightarrow> a | Inl _ \<Rightarrow> undefined)"

lemma map_err_simps [simp, res_simps]:
  "map_err f (Inl e) = Inl (f e)" "map_err f (Inr a) = Inr a"
  by (simp_all add: map_err_def)

lemma map_err_Inr_iff [simp]: "map_err f r = Inr a \<longleftrightarrow> r = Inr a"
  by (cases r) simp_all

lemma and_then_simps [simp, res_simps]: "and_then (Inl e) k = Inl e" "and_then (Inr a) k = k a"
  by (simp_all add: and_then_def)

lemma and_then_Inr_iff: "and_then r k = Inr b \<longleftrightarrow> (\<exists>a. r = Inr a \<and> k a = Inr b)"
  by (cases r) simp_all

lemma then_eff_simps [simp, res_simps]:
  "then_eff (Inl e, w) k = (Inl e, w)" "then_eff (Inr a, w) k = k a w"
  by (simp_all add: then_eff_def)

lemma then_eff_Inr_iff: "then_eff r k = (Inr b, w') \<longleftrightarrow> (\<exists>a w. r = (Inr a, w) \<and> k a w = (Inr b, w'))"
  by (cases r; cases "fst r") auto

lemma then_eff_cases:
  assumes "then_eff r k = (res, w')"
  obtains (err) e where "r = (Inl e, w')" "res = Inl e"
  | (ok) a w where "r = (Inr a, w)" "k a w = (res, w')"
  using assms by (cases r; cases "fst r") auto

lemma map_err_st_simps [simp, res_simps]:
  "map_err_st f (Inl e, w) = (Inl (f e), w)" "map_err_st f (Inr a, w) = (Inr a, w)"
  by (simp_all add: map_err_st_def)

lemma map_err_st_Inr_iff [simp]: "map_err_st f r = (Inr a, w) \<longleftrightarrow> r = (Inr a, w)"
  by (cases r; cases "fst r") auto

lemma map_err_st_Inl_iff: "map_err_st f r = (Inl e, w) \<longleftrightarrow> (\<exists>e'. r = (Inl e', w) \<and> e = f e')"
  by (cases r; cases "fst r") auto

lemma expect_Inr [simp, res_simps]: "expect (Inr a) = a"
  by (simp add: expect_def)

lemma and_then_cong [fundef_cong]:
  "r = r' \<Longrightarrow> (\<And>a. r' = Inr a \<Longrightarrow> k a = k' a) \<Longrightarrow> and_then r k = and_then r' k'"
  by (cases r') simp_all

lemma then_eff_cong [fundef_cong]:
  "r = r' \<Longrightarrow> (\<And>a w. r' = (Inr a, w) \<Longrightarrow> k a w = k' a w) \<Longrightarrow> then_eff r k = then_eff r' k'"
  by (cases r'; cases "fst r'") auto

text \<open>
  Postconditions of an effect: \<open>Q\<close> of the value and the final world on \<open>Ok\<close>, \<open>E\<close> of the error and
  the final world on \<open>Err\<close>.  The equations push a postcondition through a function body.
\<close>

definition eff_post :: "('e + 'a) \<times> 'w \<Rightarrow> ('a \<Rightarrow> 'w \<Rightarrow> bool) \<Rightarrow> ('e \<Rightarrow> 'w \<Rightarrow> bool) \<Rightarrow> bool" where
  "eff_post r Q E = (case fst r of Inr a \<Rightarrow> Q a (snd r) | Inl e \<Rightarrow> E e (snd r))"

named_theorems post_simps \<open>pushing a postcondition through an effect\<close>

lemma eff_exhaust:
  obtains (Ok) a w where "r = (Inr a, w)" | (Err) e w where "r = (Inl e, w)"
proof -
  obtain x w where "r = (x, w)" by (cases r)
  then show thesis by (cases x) (auto intro: Ok Err)
qed

lemma eff_post_simps: "eff_post (Inr a, w) Q E = Q a w" "eff_post (Inl e, w) Q E = E e w"
  by (simp_all add: eff_post_def)

lemma eff_post_result [post_simps]:
  "eff_post (r, w) Q E \<longleftrightarrow> (\<forall>a. r = Inr a \<longrightarrow> Q a w) \<and> (\<forall>e. r = Inl e \<longrightarrow> E e w)"
  by (cases r) (auto simp: eff_post_def)

lemma eff_post_then [post_simps]:
  "eff_post (then_eff r k) Q E \<longleftrightarrow> eff_post r (\<lambda>a w. eff_post (k a w) Q E) E"
  by (cases r rule: eff_exhaust) (auto simp: eff_post_simps map_err_st_def)

lemma eff_post_map_err [post_simps]:
  "eff_post (map_err_st f r) Q E \<longleftrightarrow> eff_post r Q (\<lambda>e. E (f e))"
  by (cases r rule: eff_exhaust) (auto simp: eff_post_simps map_err_st_def)

lemma eff_post_catch [post_simps]:
  "eff_post (catch_eff r h) Q E \<longleftrightarrow> eff_post r Q (\<lambda>e w. eff_post (h e w) Q E)"
  by (cases r rule: eff_exhaust) (auto simp: eff_post_simps catch_eff_def)

lemma eff_postI:
  "(\<And>a w. r = (Inr a, w) \<Longrightarrow> Q a w) \<Longrightarrow> (\<And>e w. r = (Inl e, w) \<Longrightarrow> E e w) \<Longrightarrow> eff_post r Q E"
  by (cases r rule: eff_exhaust) (auto simp: eff_post_simps map_err_st_def)

lemma eff_postD: "eff_post r Q E \<Longrightarrow> r = (Inr a, w) \<Longrightarrow> Q a w"
  and eff_postD_err: "eff_post r Q E \<Longrightarrow> r = (Inl e, w) \<Longrightarrow> E e w"
  by (simp_all add: eff_post_def)

lemma eff_post_mono:
  "eff_post r Q E \<Longrightarrow> (\<And>a w. Q a w \<Longrightarrow> Q' a w) \<Longrightarrow> (\<And>e w. E e w \<Longrightarrow> E' e w) \<Longrightarrow> eff_post r Q' E'"
  by (cases r rule: eff_exhaust) (auto simp: eff_post_simps map_err_st_def)

lemma run_eq: "fst r = x \<Longrightarrow> r = (x, snd r)"
  by (cases r) simp

lemma eff_post_thenI:
  assumes "eff_post r P E" "\<And>a v. r = (Inr a, v) \<Longrightarrow> P a v \<Longrightarrow> eff_post (k a v) Q E"
  shows "eff_post (then_eff r k) Q E"
  using assms by (cases r rule: eff_exhaust) (auto simp: eff_post_simps)

text \<open>Evaluating an effect on a concrete world: the continuation waits for its argument.\<close>

lemma then_eff_weak: "r = r' \<Longrightarrow> then_eff r k = then_eff r' k"
  and and_then_weak: "q = q' \<Longrightarrow> and_then q l = and_then q' l"
  and catch_eff_weak: "r = r' \<Longrightarrow> catch_eff r h = catch_eff r' h"
  by simp_all

lemmas eff_weak = then_eff_weak and_then_weak catch_eff_weak

section \<open>Characters of the source\<close>

abbreviation NL :: char where "NL \<equiv> CHR 0x0A"
abbreviation CR :: char where "CR \<equiv> CHR 0x0D"
abbreviation NUL :: char where "NUL \<equiv> CHR 0x00"
abbreviation BACKSLASH :: char where "BACKSLASH \<equiv> CHR 0x5C"
abbreviation SLASH :: char where "SLASH \<equiv> CHR ''/''"
abbreviation DASH :: char where "DASH \<equiv> CHR ''-''"

definition byte :: "char \<Rightarrow> nat" where
  "byte c = of_char c"

definition is_ascii_str :: "str \<Rightarrow> bool" where
  "is_ascii_str s \<longleftrightarrow> list_all (\<lambda>c. byte c < 128) s"

definition is_ascii_digit :: "char \<Rightarrow> bool" where
  "is_ascii_digit c \<longleftrightarrow> 48 \<le> byte c \<and> byte c \<le> 57"

definition is_ascii_upper :: "char \<Rightarrow> bool" where
  "is_ascii_upper c \<longleftrightarrow> 65 \<le> byte c \<and> byte c \<le> 90"

definition is_ascii_lower :: "char \<Rightarrow> bool" where
  "is_ascii_lower c \<longleftrightarrow> 97 \<le> byte c \<and> byte c \<le> 122"

definition is_ascii_alnum :: "char \<Rightarrow> bool" where
  "is_ascii_alnum c \<longleftrightarrow> is_ascii_digit c \<or> is_ascii_upper c \<or> is_ascii_lower c"

definition to_ascii_lower :: "char \<Rightarrow> char" where
  "to_ascii_lower c = (if is_ascii_upper c then char_of (byte c + 32) else c)"

lemmas ascii_defs = is_ascii_digit_def is_ascii_upper_def is_ascii_lower_def is_ascii_alnum_def

lemma byte_lt [simp]: "byte c < 256"
  using nat_of_char_less_256 [of c] by (simp add: byte_def)

lemma byte_inj [simp]: "byte a = byte b \<longleftrightarrow> a = b"
  by (simp add: byte_def)

lemma byte_char_of [simp]: "byte (char_of n) = n mod 256"
  by (simp add: byte_def)

lemma byte_to_ascii_lower: "byte (to_ascii_lower c) = (if is_ascii_upper c then byte c + 32 else byte c)"
  by (auto simp: to_ascii_lower_def is_ascii_upper_def)

lemma to_ascii_lower_not_upper [simp]: "\<not> is_ascii_upper (to_ascii_lower c)"
  by (auto simp: is_ascii_upper_def byte_to_ascii_lower)

lemma to_ascii_lower_idem [simp]: "to_ascii_lower (to_ascii_lower c) = to_ascii_lower c"
  by (simp add: to_ascii_lower_def [of "to_ascii_lower c"])

section \<open>Splitting, joining, stripping\<close>

fun split_char :: "char \<Rightarrow> str \<Rightarrow> str list" where
  "split_char c [] = [[]]"
| "split_char c (x # xs) =
     (if x = c then [] # split_char c xs
      else (case split_char c xs of [] \<Rightarrow> [[x]] | p # ps \<Rightarrow> (x # p) # ps))"

text \<open>\<open>[..].join(sep)\<close> on a slice of strings.\<close>

fun join_with :: "str \<Rightarrow> str list \<Rightarrow> str" where
  "join_with sep [] = []"
| "join_with sep [s] = s"
| "join_with sep (s # t # ss) = s @ sep @ join_with sep (t # ss)"

text \<open>\<open>split_inclusive\<close>: every piece keeps its terminator; no empty last piece.\<close>

fun split_inclusive :: "char \<Rightarrow> str \<Rightarrow> str list" where
  "split_inclusive c [] = []"
| "split_inclusive c (x # xs) =
     (if x = c then [x] # split_inclusive c xs
      else (case split_inclusive c xs of [] \<Rightarrow> [[x]] | p # ps \<Rightarrow> (x # p) # ps))"

definition strip_prefix :: "str \<Rightarrow> str \<Rightarrow> str option" where
  "strip_prefix p s = (if prefix p s then Some (drop (length p) s) else None)"

definition strip_suffix :: "str \<Rightarrow> str \<Rightarrow> str option" where
  "strip_suffix p s = (if suffix p s then Some (take (length s - length p) s) else None)"

definition unwrap_or :: "'a \<Rightarrow> 'a option \<Rightarrow> 'a" where
  "unwrap_or d x = (case x of None \<Rightarrow> d | Some a \<Rightarrow> a)"

text \<open>\<open>str::lines\<close>: split after each newline, drop the newline and then one carriage return.\<close>

definition chomp_line :: "str \<Rightarrow> str" where
  "chomp_line l = (case strip_suffix [NL] l of None \<Rightarrow> l
     | Some l1 \<Rightarrow> (case strip_suffix [CR] l1 of None \<Rightarrow> l1 | Some l2 \<Rightarrow> l2))"

definition lines :: "str \<Rightarrow> str list" where
  "lines s = map chomp_line (split_inclusive NL s)"

text \<open>\<open>split_once(c)\<close> and \<open>rsplit_once(c)\<close>.\<close>

definition split_once :: "char \<Rightarrow> str \<Rightarrow> (str \<times> str) option" where
  "split_once c s = (if c \<in> set s then Some (takeWhile (\<lambda>x. x \<noteq> c) s, tl (dropWhile (\<lambda>x. x \<noteq> c) s)) else None)"

definition rsplit_once :: "char \<Rightarrow> str \<Rightarrow> (str \<times> str) option" where
  "rsplit_once c s = (case split_once c (rev s) of None \<Rightarrow> None | Some (a, b) \<Rightarrow> Some (rev b, rev a))"

text \<open>\<open>replace\<close> of a one-byte pattern.\<close>

definition replace_char :: "char \<Rightarrow> str \<Rightarrow> str \<Rightarrow> str" where
  "replace_char c r s = concat (map (\<lambda>x. if x = c then r else [x]) s)"

lemma split_char_not_Nil [simp]: "split_char c s \<noteq> []"
  by (induction s) (auto split: list.splits)

lemma split_char_unsplit: "c \<notin> set s \<Longrightarrow> split_char c s = [s]"
  by (induction s) auto

lemma split_char_append:
  "c \<notin> set a \<Longrightarrow> split_char c (a @ c # b) = a # split_char c b"
  by (induction a) auto

lemma join_split: "join_with [c] (split_char c s) = s"
proof (induction s)
  case (Cons x xs)
  obtain p ps where "split_char c xs = p # ps"
    using split_char_not_Nil by (metis neq_Nil_conv)
  with Cons show ?case by (cases ps) auto
qed simp

lemma split_char_no_sep: "p \<in> set (split_char c s) \<Longrightarrow> c \<notin> set p"
proof (induction s arbitrary: p)
  case (Cons x xs)
  then show ?case
    by (cases "split_char c xs") (auto split: if_splits)
qed simp

lemma split_join:
  "ss \<noteq> [] \<Longrightarrow> \<forall>p \<in> set ss. c \<notin> set p \<Longrightarrow> split_char c (join_with [c] ss) = ss"
  by (induction "[c]" ss rule: join_with.induct) (auto simp: split_char_unsplit split_char_append)

lemma split_char_append_nosep:
  "c \<notin> set t \<Longrightarrow> split_char c (s @ t) = butlast (split_char c s) @ [last (split_char c s) @ t]"
proof (induction s)
  case (Cons x xs)
  obtain q qs where "split_char c xs = q # qs"
    using split_char_not_Nil by (metis neq_Nil_conv)
  with Cons show ?case by (auto split: list.splits)
qed (simp add: split_char_unsplit)

lemma list_all_last: "list_all P xs \<Longrightarrow> xs \<noteq> [] \<Longrightarrow> list_all P (butlast xs) \<and> P (last xs)"
  by (auto simp: list_all_iff dest: in_set_butlastD)

lemma split_char_set: "p \<in> set (split_char c s) \<Longrightarrow> set p \<subseteq> set s"
proof (induction s arbitrary: p)
  case (Cons x xs)
  obtain q qs where "split_char c xs = q # qs"
    using split_char_not_Nil by (metis neq_Nil_conv)
  with Cons.IH [of q] Cons.IH Cons.prems show ?case
    by (fastforce split: if_splits)
qed simp

lemma join_with_set: "set (join_with sep ss) \<subseteq> set sep \<union> (\<Union>p \<in> set ss. set p)"
  by (induction sep ss rule: join_with.induct) auto

lemma split_char_append_any:
  "split_char c (a @ c # b) = split_char c a @ split_char c b"
proof (induction a)
  case (Cons x xs)
  then show ?case
    by (cases "split_char c xs") (auto split: list.splits)
qed simp

lemma join_with_append:
  "xs \<noteq> [] \<Longrightarrow> ys \<noteq> [] \<Longrightarrow> join_with sep (xs @ ys) = join_with sep xs @ sep @ join_with sep ys"
proof (induction sep xs rule: join_with.induct)
  case (2 sep s)
  then show ?case by (cases ys) auto
next
  case (3 sep s t ss)
  then show ?case by (cases "ss @ ys") auto
qed simp

lemma split_inclusive_concat [simp]: "concat (split_inclusive c s) = s"
  by (induction s) (auto split: list.splits)

lemma strip_suffix_Some_iff: "strip_suffix p s = Some t \<longleftrightarrow> s = t @ p"
  by (auto simp: strip_suffix_def suffix_def)

lemma strip_suffix_append [simp]: "strip_suffix p (t @ p) = Some t"
  by (simp add: strip_suffix_Some_iff)

lemma strip_prefix_Some_iff: "strip_prefix p s = Some t \<longleftrightarrow> s = p @ t"
  by (auto simp: strip_prefix_def prefix_def)

lemma strip_prefix_append [simp]: "strip_prefix p (p @ t) = Some t"
  by (simp add: strip_prefix_Some_iff)

lemma takeWhile_tail_c: "c \<notin> set a \<Longrightarrow> takeWhile (\<lambda>x. x \<noteq> c) (a @ c # b) = a"
  by (induction a) auto

lemma dropWhile_tail_c: "c \<notin> set a \<Longrightarrow> dropWhile (\<lambda>x. x \<noteq> c) (a @ c # b) = c # b"
  by (induction a) auto

lemma split_once_Some_iff:
  "split_once c s = Some (a, b) \<longleftrightarrow> s = a @ c # b \<and> c \<notin> set a"
proof
  assume h: "split_once c s = Some (a, b)"
  then have c: "c \<in> set s" and ab: "a = takeWhile (\<lambda>x. x \<noteq> c) s" "b = tl (dropWhile (\<lambda>x. x \<noteq> c) s)"
    by (auto simp: split_once_def split: if_splits)
  from c have "dropWhile (\<lambda>x. x \<noteq> c) s \<noteq> []" by (auto simp: dropWhile_eq_Nil_conv)
  then have "dropWhile (\<lambda>x. x \<noteq> c) s = c # b"
    using hd_dropWhile [of "\<lambda>x. x \<noteq> c" s] ab by (metis list.collapse)
  then show "s = a @ c # b \<and> c \<notin> set a"
    using ab by (metis (mono_tags, lifting) set_takeWhileD takeWhile_dropWhile_id)
next
  assume "s = a @ c # b \<and> c \<notin> set a"
  then show "split_once c s = Some (a, b)"
    by (simp add: split_once_def takeWhile_tail_c dropWhile_tail_c)
qed

lemma split_once_None_iff [simp]: "split_once c s = None \<longleftrightarrow> c \<notin> set s"
  by (simp add: split_once_def)

lemma rsplit_once_Some_iff:
  "rsplit_once c s = Some (a, b) \<longleftrightarrow> s = a @ c # b \<and> c \<notin> set b"
proof
  assume "rsplit_once c s = Some (a, b)"
  then have "split_once c (rev s) = Some (rev b, rev a)"
    by (auto simp: rsplit_once_def split: option.splits)
  then have "rev s = rev b @ c # rev a" "c \<notin> set b"
    by (auto simp: split_once_Some_iff)
  then show "s = a @ c # b \<and> c \<notin> set b"
    by (metis append.assoc append_Cons append_Nil rev.simps(2) rev_append rev_swap)
next
  assume "s = a @ c # b \<and> c \<notin> set b"
  then have "split_once c (rev s) = Some (rev b, rev a)"
    by (auto simp: split_once_Some_iff)
  then show "rsplit_once c s = Some (a, b)"
    by (simp add: rsplit_once_def)
qed

lemma rsplit_once_None_iff [simp]: "rsplit_once c s = None \<longleftrightarrow> c \<notin> set s"
  by (simp add: rsplit_once_def split_once_def)

lemma replace_char_no [simp]: "c \<notin> set r \<Longrightarrow> c \<notin> set (replace_char c r s)"
  by (auto simp: replace_char_def split: if_splits)

lemma replace_char_id: "c \<notin> set s \<Longrightarrow> replace_char c r s = s"
  by (induction s) (auto simp: replace_char_def)

lemma replace_char_set: "set (replace_char c r s) \<subseteq> set s \<union> set r"
  by (auto simp: replace_char_def split: if_splits)

end
