(* ===== verification/Rust_Text.thy ===== *)
theory Rust_Text
  imports Rust_Prelude
begin

text \<open>
  UTF-8 and the Unicode-aware part of Rust's \<open>str\<close>: validation (\<open>from_utf8\<close>), lossy decoding
  (\<open>from_utf8_lossy\<close>), \<open>chars\<close>, \<open>trim\<close>, \<open>split_whitespace\<close>, lower-casing, and decimal
  formatting.  The byte tables are those of the standard library's decoder.
\<close>

section \<open>Decoding\<close>

definition is_cont :: "char \<Rightarrow> bool" where
  "is_cont c \<longleftrightarrow> 128 \<le> byte c \<and> byte c \<le> 191"

text \<open>Width announced by a lead byte; 0 for a byte that cannot start a character.\<close>

definition utf8_width :: "char \<Rightarrow> nat" where
  "utf8_width c =
     (if byte c < 128 then 1
      else if 194 \<le> byte c \<and> byte c \<le> 223 then 2
      else if 224 \<le> byte c \<and> byte c \<le> 239 then 3
      else if 240 \<le> byte c \<and> byte c \<le> 244 then 4
      else 0)"

text \<open>The second byte: overlong forms, surrogates and values above U+10FFFF are excluded.\<close>

definition second_ok :: "char \<Rightarrow> char \<Rightarrow> bool" where
  "second_ok a b \<longleftrightarrow>
     (if byte a = 224 then 160 \<le> byte b \<and> byte b \<le> 191
      else if byte a = 237 then 128 \<le> byte b \<and> byte b \<le> 159
      else if byte a = 240 then 144 \<le> byte b \<and> byte b \<le> 191
      else if byte a = 244 then 128 \<le> byte b \<and> byte b \<le> 143
      else is_cont b)"

text \<open>
  One step of the decoder at lead byte \<open>a\<close> with rest \<open>r\<close>: \<open>Inr n\<close> when a well-formed
  character of \<open>n + 1\<close> bytes starts here, \<open>Inl n\<close> when the input is ill-formed and its
  maximal invalid prefix has \<open>n + 1\<close> bytes.
\<close>

definition utf8_scan :: "char \<Rightarrow> bytes \<Rightarrow> nat + nat" where
  "utf8_scan a r =
     (let w = utf8_width a in
      if w = 1 then Inr 0 else if w = 0 then Inl 0
      else (case r of [] \<Rightarrow> Inl 0
        | b # r2 \<Rightarrow>
          if \<not> second_ok a b then Inl 0 else if w = 2 then Inr 1
          else (case r2 of [] \<Rightarrow> Inl 1
            | c # r3 \<Rightarrow>
              if \<not> is_cont c then Inl 1 else if w = 3 then Inr 2
              else (case r3 of [] \<Rightarrow> Inl 2
                | d # _ \<Rightarrow> if is_cont d then Inr 3 else Inl 2))))"

text \<open>The characters of a byte string, each as its bytes; an ill-formed prefix is one piece.\<close>

definition scan_len :: "char \<Rightarrow> bytes \<Rightarrow> nat" where
  "scan_len a r = (case utf8_scan a r of Inl n \<Rightarrow> n | Inr n \<Rightarrow> n)"

fun chars :: "bytes \<Rightarrow> str list" where
  "chars [] = []"
| "chars (a # r) = (a # take (scan_len a r) r) # chars (drop (scan_len a r) r)"

fun valid_utf8 :: "bytes \<Rightarrow> bool" where
  "valid_utf8 [] = True"
| "valid_utf8 (a # r) =
     (case utf8_scan a r of Inl n \<Rightarrow> False | Inr n \<Rightarrow> valid_utf8 (drop n r))"

definition from_utf8 :: "bytes \<Rightarrow> str option" where
  "from_utf8 b = (if valid_utf8 b then Some b else None)"

text \<open>U+FFFD, the replacement character.\<close>

definition replacement :: str where
  "replacement = [CHR 0xEF, CHR 0xBF, CHR 0xBD]"

fun from_utf8_lossy :: "bytes \<Rightarrow> str" where
  "from_utf8_lossy [] = []"
| "from_utf8_lossy (a # r) =
     (case utf8_scan a r of
        Inl n \<Rightarrow> replacement @ from_utf8_lossy (drop n r)
      | Inr n \<Rightarrow> (a # take n r) @ from_utf8_lossy (drop n r))"

lemma concat_chars [simp]: "concat (chars s) = s"
  by (induction s rule: chars.induct) auto

lemma chars_not_Nil: "c \<in> set (chars s) \<Longrightarrow> c \<noteq> []"
  by (induction s rule: chars.induct) auto

lemma from_utf8_Some_iff [simp]: "from_utf8 b = Some s \<longleftrightarrow> valid_utf8 b \<and> s = b"
  by (auto simp: from_utf8_def)

lemma from_utf8_lossy_valid [simp]: "valid_utf8 b \<Longrightarrow> from_utf8_lossy b = b"
proof (induction b rule: valid_utf8.induct)
  case (2 a r)
  then show ?case by (auto split: sum.splits)
qed simp

lemma ascii_width: "byte a < 128 \<Longrightarrow> utf8_scan a r = Inr 0"
  by (simp add: utf8_scan_def utf8_width_def)

lemma ascii_chars: "is_ascii_str s \<Longrightarrow> chars s = map (\<lambda>c. [c]) s"
  by (induction s) (auto simp: is_ascii_str_def scan_len_def ascii_width)

lemma ascii_valid: "is_ascii_str s \<Longrightarrow> valid_utf8 s"
  by (induction s) (auto simp: is_ascii_str_def ascii_width)

lemma ascii_Nil [simp]: "is_ascii_str []"
  and ascii_Cons [simp]: "is_ascii_str (c # s) \<longleftrightarrow> byte c < 128 \<and> is_ascii_str s"
  and ascii_append [simp]: "is_ascii_str (s @ t) \<longleftrightarrow> is_ascii_str s \<and> is_ascii_str t"
  by (auto simp: is_ascii_str_def)

text \<open>A character that is one ASCII byte, at the front.\<close>

lemma chars_ascii_Cons [simp]: "byte a < 128 \<Longrightarrow> chars (a # r) = [a] # chars r"
  by (simp add: scan_len_def ascii_width)

lemma valid_ascii_Cons [simp]: "byte a < 128 \<Longrightarrow> valid_utf8 (a # r) = valid_utf8 r"
  by (simp add: ascii_width)

section \<open>UTF-8 of parts of a string\<close>

lemma scan_take: "utf8_scan a r = Inr n \<Longrightarrow> n \<le> length r \<and> n \<le> 3"
  by (auto simp: utf8_scan_def Let_def split: if_splits list.splits)

lemma scan_append: "utf8_scan a r = Inr n \<Longrightarrow> utf8_scan a (r @ b) = Inr n"
  by (auto simp: utf8_scan_def Let_def split: if_splits list.splits)

lemma valid_append: "valid_utf8 a \<Longrightarrow> valid_utf8 b \<Longrightarrow> valid_utf8 (a @ b)"
proof (induction a rule: valid_utf8.induct)
  case (2 x r)
  then obtain n where n: "utf8_scan x r = Inr n" "valid_utf8 (drop n r)"
    by (auto split: sum.splits)
  with 2 scan_take [OF n(1)] show ?case by (simp add: scan_append)
qed simp

lemma scan_ascii_end: "byte c < 128 \<Longrightarrow> utf8_scan a (r @ c # b) = Inr n \<Longrightarrow> utf8_scan a r = Inr n"
  by (cases r rule: list.exhaust; cases "tl r"; cases "tl (tl r)")
    (auto simp: utf8_scan_def Let_def second_ok_def is_cont_def split: if_splits list.splits)

lemma valid_split: "byte c < 128 \<Longrightarrow> valid_utf8 (a @ c # b) \<Longrightarrow> valid_utf8 a \<and> valid_utf8 b"
proof (induction a rule: valid_utf8.induct)
  case (2 x r)
  then obtain n where n: "utf8_scan x (r @ c # b) = Inr n" "valid_utf8 (drop n (r @ c # b))"
    by (auto split: sum.splits)
  have m: "utf8_scan x r = Inr n" by (rule scan_ascii_end [OF "2.prems"(1) n(1)])
  with scan_take [OF m] n(2) have "valid_utf8 (drop n r @ c # b)" by simp
  with "2.IH" [OF m "2.prems"(1)] m show ?case by simp
qed (simp add: ascii_width)

lemma valid_join_dir:
  "\<forall>s \<in> set ss. valid_utf8 s \<Longrightarrow> valid_utf8 (join_with ''/'' ss)"
proof (induction "''/''" ss rule: join_with.induct)
  case (3 s t ss)
  have "byte SLASH < 128" by (simp add: byte_def)
  with 3 show ?case by (simp add: valid_append del: valid_utf8.simps)
qed simp_all

section \<open>White space and case\<close>

text \<open>The characters with the Unicode property \<open>White_Space\<close>.\<close>

definition is_whitespace :: "str \<Rightarrow> bool" where
  "is_whitespace c =
     (case c of
        [a] \<Rightarrow> (9 \<le> byte a \<and> byte a \<le> 13) \<or> byte a = 32
      | [a, b] \<Rightarrow> byte a = 194 \<and> (byte b = 133 \<or> byte b = 160)
      | [a, b, d] \<Rightarrow>
          (byte a = 225 \<and> byte b = 154 \<and> byte d = 128) \<or>
          (byte a = 226 \<and> byte b = 128 \<and>
             ((128 \<le> byte d \<and> byte d \<le> 138) \<or> byte d = 168 \<or> byte d = 169 \<or> byte d = 175)) \<or>
          (byte a = 226 \<and> byte b = 129 \<and> byte d = 159) \<or>
          (byte a = 227 \<and> byte b = 128 \<and> byte d = 128)
      | _ \<Rightarrow> False)"

definition trim_chars :: "str list \<Rightarrow> str list" where
  "trim_chars cs = rev (dropWhile is_whitespace (rev (dropWhile is_whitespace cs)))"

definition trim :: "str \<Rightarrow> str" where
  "trim s = concat (trim_chars (chars s))"

text \<open>\<open>split_whitespace\<close>: the maximal runs of non-white-space characters.\<close>

fun split_ws_chars :: "str list \<Rightarrow> str \<Rightarrow> str list" where
  "split_ws_chars [] acc = (if acc = [] then [] else [acc])"
| "split_ws_chars (c # cs) acc =
     (if is_whitespace c then (if acc = [] then [] else [acc]) @ split_ws_chars cs []
      else split_ws_chars cs (acc @ c))"

definition split_whitespace :: "str \<Rightarrow> str list" where
  "split_whitespace s = split_ws_chars (chars s) []"

text \<open>
  \<open>to_lowercase\<close>: exact on ASCII strings.  On other strings Rust consults the Unicode tables of
  its standard library; they are the parameter \<open>uni\<close>.
\<close>

definition to_lowercase :: "(str \<Rightarrow> str) \<Rightarrow> str \<Rightarrow> str" where
  "to_lowercase uni s = (if is_ascii_str s then map to_ascii_lower s else uni s)"

definition to_ascii_lowercase :: "str \<Rightarrow> str" where
  "to_ascii_lowercase s = map to_ascii_lower s"

lemma trim_chars_split:
  obtains a b where "cs = a @ trim_chars cs @ b" "\<forall>c \<in> set a \<union> set b. is_whitespace c"
proof -
  let ?d = "dropWhile is_whitespace cs"
  let ?t = "takeWhile is_whitespace cs"
  let ?e = "rev (takeWhile is_whitespace (rev ?d))"
  have "?d = trim_chars cs @ ?e"
    unfolding trim_chars_def by (metis rev_append rev_rev_ident takeWhile_dropWhile_id)
  then have 1: "cs = ?t @ trim_chars cs @ ?e"
    by (metis takeWhile_dropWhile_id)
  have 2: "\<forall>c \<in> set ?t \<union> set ?e. is_whitespace c"
    by (auto dest: set_takeWhileD)
  show thesis by (rule that [OF 1 2])
qed

lemma trim_split:
  obtains a b where "s = a @ trim s @ b"
proof -
  obtain a b where "chars s = a @ trim_chars (chars s) @ b"
    by (rule trim_chars_split)
  then have "concat (chars s) = concat a @ trim s @ concat b"
    unfolding trim_def by (metis concat_append)
  then show thesis by (metis that concat_chars)
qed

lemma set_trim: "set (trim s) \<subseteq> set s"
proof -
  obtain a b where "s = a @ trim s @ b" by (rule trim_split)
  then have "set s = set a \<union> set (trim s) \<union> set b" by (metis set_append sup_assoc)
  then show ?thesis by blast
qed

lemma trim_chars_eq: "cs \<noteq> [] \<Longrightarrow> \<not> is_whitespace (hd cs) \<Longrightarrow> \<not> is_whitespace (last cs) \<Longrightarrow> trim_chars cs = cs"
proof -
  assume h: "cs \<noteq> []" "\<not> is_whitespace (hd cs)" "\<not> is_whitespace (last cs)"
  have 1: "dropWhile is_whitespace cs = cs" using h by (cases cs) auto
  have "rev cs \<noteq> []" "\<not> is_whitespace (hd (rev cs))" using h by (auto simp: hd_rev)
  then have 2: "dropWhile is_whitespace (rev cs) = rev cs" by (cases "rev cs") auto
  show "trim_chars cs = cs" by (simp add: trim_chars_def 1 2)
qed

lemma trim_Nil [simp]: "trim [] = []"
  by (simp add: trim_def trim_chars_def)

lemma ascii_ws: "is_whitespace [c] \<longleftrightarrow> (9 \<le> byte c \<and> byte c \<le> 13) \<or> byte c = 32"
  by (simp add: is_whitespace_def)

lemma trim_ascii_eq:
  "is_ascii_str s \<Longrightarrow> s \<noteq> [] \<Longrightarrow> \<not> is_whitespace [hd s] \<Longrightarrow> \<not> is_whitespace [last s] \<Longrightarrow> trim s = s"
proof -
  assume h: "is_ascii_str s" "s \<noteq> []" "\<not> is_whitespace [hd s]" "\<not> is_whitespace [last s]"
  have "chars s = map (\<lambda>c. [c]) s" using h(1) by (rule ascii_chars)
  then have "trim_chars (chars s) = chars s"
    using h by (intro trim_chars_eq) (auto simp: hd_map last_map)
  then show "trim s = s" by (simp add: trim_def)
qed

lemma to_lowercase_ascii: "is_ascii_str s \<Longrightarrow> to_lowercase uni s = map to_ascii_lower s"
  by (simp add: to_lowercase_def)

lemma is_ascii_map_lower [simp]: "is_ascii_str (map to_ascii_lower s) = is_ascii_str s"
  by (induction s) (auto simp: byte_to_ascii_lower is_ascii_upper_def)

lemma to_lowercase_idem_ascii:
  "is_ascii_str s \<Longrightarrow> to_lowercase uni (to_lowercase uni s) = to_lowercase uni s"
  by (simp add: to_lowercase_def)

section \<open>Decimal output\<close>

definition digit_char :: "nat \<Rightarrow> char" where
  "digit_char d = char_of (48 + d mod 10)"

fun show_nat :: "nat \<Rightarrow> str" where
  "show_nat n = (if n < 10 then [digit_char n] else show_nat (n div 10) @ [digit_char (n mod 10)])"

declare show_nat.simps [simp del]

text \<open>\<open>format!("{n:0width$}")\<close>.\<close>

definition pad0 :: "nat \<Rightarrow> nat \<Rightarrow> str" where
  "pad0 w n = (let s = show_nat n in replicate (w - length s) (CHR ''0'') @ s)"

lemma byte_digit_char [simp]: "byte (digit_char d) = 48 + d mod 10"
proof -
  have "48 + d mod 10 < (256::nat)" using mod_less_divisor [of 10 d] by linarith
  then show ?thesis by (simp add: digit_char_def)
qed

lemma digit_char_digit [simp]: "is_ascii_digit (digit_char d)"
  using mod_less_divisor [of 10 d] by (simp add: is_ascii_digit_def)

lemma show_nat_digits: "c \<in> set (show_nat n) \<Longrightarrow> is_ascii_digit c"
proof (induction n rule: show_nat.induct)
  case (1 n)
  from 1 show ?case
    by (subst (asm) (2) show_nat.simps) (auto split: if_splits)
qed

lemma show_nat_not_Nil [simp]: "show_nat n \<noteq> []"
  by (subst show_nat.simps) simp

lemma Nil_show_nat [simp]: "[] = show_nat n \<longleftrightarrow> False"
  by (metis show_nat_not_Nil)

lemma show_nat_inj: "show_nat m = show_nat n \<Longrightarrow> m = n"
proof (induction m arbitrary: n rule: show_nat.induct)
  case (1 m)
  have dc: "digit_char a = digit_char b \<Longrightarrow> a mod 10 = b mod 10" for a b
    by (metis byte_digit_char add_left_cancel)
  have lo: "k < 10 \<Longrightarrow> show_nat k = [digit_char k]" for k by (subst show_nat.simps) simp
  have hi: "\<not> k < 10 \<Longrightarrow> show_nat k = show_nat (k div 10) @ [digit_char (k mod 10)]" for k
    by (subst show_nat.simps) simp
  show ?case
  proof (cases "m < 10")
    case True
    then have "n < 10" using "1.prems" lo hi [of n] by (cases "n < 10") auto
    with True "1.prems" show ?thesis by (auto simp: lo dest: dc)
  next
    case False
    then have n: "\<not> n < 10" using "1.prems" lo hi [of m] by (cases "n < 10") auto
    from "1.prems" False n have "show_nat (m div 10) = show_nat (n div 10)" "m mod 10 = n mod 10"
      by (auto simp: hi dest: dc)
    with "1.IH" [OF False] have "m div 10 = n div 10" "m mod 10 = n mod 10" by auto
    then show ?thesis by (metis div_mult_mod_eq)
  qed
qed

lemma show_nat_length: "n < 10 ^ k \<Longrightarrow> 0 < k \<Longrightarrow> length (show_nat n) \<le> k"
proof (induction n arbitrary: k rule: show_nat.induct)
  case (1 n)
  show ?case
  proof (cases "n < 10")
    case True
    then show ?thesis using "1.prems" by (subst show_nat.simps) simp
  next
    case False
    with "1.prems" obtain j where k: "k = Suc j" "0 < j"
      by (cases k; cases "k - 1") auto
    then have "n div 10 < 10 ^ j" using "1.prems" by (simp add: less_mult_imp_div_less mult.commute)
    with "1.IH" [OF False] k have "length (show_nat (n div 10)) \<le> j" by blast
    then show ?thesis using False k by (subst show_nat.simps) simp
  qed
qed

lemma pad0_length: "n < 10 ^ w \<Longrightarrow> 0 < w \<Longrightarrow> length (pad0 w n) = w"
  using show_nat_length [of n w] by (simp add: pad0_def Let_def)

lemma pad0_digits: "c \<in> set (pad0 w n) \<Longrightarrow> is_ascii_digit c"
  using show_nat_digits [of c n]
  by (auto simp: pad0_def Let_def is_ascii_digit_def byte_def)

section \<open>A self-delimiting code for the examples\<close>

text \<open>Each byte of a string is preceded by a mark.\<close>

fun put_str :: "str \<Rightarrow> bytes" where
  "put_str [] = [CHR ''.'']"
| "put_str (c # s) = CHR ''x'' # c # put_str s"

fun get_str :: "bytes \<Rightarrow> str \<times> bytes" where
  "get_str (m # c # r) = (if m = CHR ''x'' then (case get_str r of (s, r') \<Rightarrow> (c # s, r')) else ([], c # r))"
| "get_str [m] = ([], [])"
| "get_str [] = ([], [])"

lemma get_put: "get_str (put_str s @ r) = (s, r)"
  by (induction s) (cases r; auto)+

end
