(* ===== verification/Rel_Path.thy ===== *)
theory Rel_Path
  imports Rust_Text
begin

text \<open>
  Traversal-safe relative paths (\<open>bypass-core/src/path.rs\<close>): construction with validation, the
  accessors \<open>segments\<close>, \<open>parent\<close>, \<open>file_name\<close>, \<open>join\<close>, and the invariant that every
  constructed path satisfies.  The text of an \<open>InvalidPath\<close> error is represented by the reason and
  the values the message interpolates.
\<close>

section \<open>Data and operations\<close>

datatype path_error =
    PathEmpty
  | PathAbsolute str
  | PathTrailingSlash str
  | PathNul str
  | PathBackslash str
  | PathEmptySegment str
  | PathDotSegment str str
  | PathJoinSlash str

datatype relpath = RelPath (as_str: str)

fun check_segments :: "str \<Rightarrow> str list \<Rightarrow> path_error + unit" where
  "check_segments s [] = Inr ()"
| "check_segments s (segment # rest) =
     (if segment = [] then Inl (PathEmptySegment s)
      else if segment = ''.'' \<or> segment = ''..'' then Inl (PathDotSegment segment s)
      else check_segments s rest)"

definition validate :: "str \<Rightarrow> path_error + unit" where
  "validate s =
     (if s = [] then Inl PathEmpty
      else if prefix ''/'' s then Inl (PathAbsolute s)
      else if suffix ''/'' s then Inl (PathTrailingSlash s)
      else if NUL \<in> set s then Inl (PathNul s)
      else if BACKSLASH \<in> set s then Inl (PathBackslash s)
      else check_segments s (split_char SLASH s))"

definition relpath_new :: "str \<Rightarrow> path_error + relpath" where
  "relpath_new s = and_then (validate s) (\<lambda>_. Inr (RelPath s))"

definition segments :: "relpath \<Rightarrow> str list" where
  "segments p = split_char SLASH (as_str p)"

definition parent :: "relpath \<Rightarrow> relpath option" where
  "parent p = (case rsplit_once SLASH (as_str p) of None \<Rightarrow> None | Some (head, _) \<Rightarrow> Some (RelPath head))"

definition file_name :: "relpath \<Rightarrow> str" where
  "file_name p = (case rsplit_once SLASH (as_str p) of Some (_, tail) \<Rightarrow> tail | None \<Rightarrow> as_str p)"

definition path_join :: "relpath \<Rightarrow> str \<Rightarrow> path_error + relpath" where
  "path_join p segment =
     (if SLASH \<in> set segment then Inl (PathJoinSlash segment)
      else relpath_new (as_str p @ ''/'' @ segment))"

section \<open>The invariant\<close>

text \<open>A segment that may be appended to a directory: not empty, not \<open>.\<close> or \<open>..\<close>, no separator,
  no NUL, no backslash.\<close>

definition seg_ok :: "str \<Rightarrow> bool" where
  "seg_ok s \<longleftrightarrow> s \<noteq> [] \<and> s \<noteq> ''.'' \<and> s \<noteq> ''..'' \<and> SLASH \<notin> set s \<and> NUL \<notin> set s \<and> BACKSLASH \<notin> set s"

definition relpath_ok :: "relpath \<Rightarrow> bool" where
  "relpath_ok p \<longleftrightarrow> list_all seg_ok (segments p)"

lemma check_segments_ok: "check_segments s ss = Inr () \<longleftrightarrow> (\<forall>x \<in> set ss. x \<noteq> [] \<and> x \<noteq> ''.'' \<and> x \<noteq> ''..'')"
  by (induction ss) auto

lemma in_segment: "c \<in> set s \<Longrightarrow> c \<noteq> d \<Longrightarrow> \<exists>p \<in> set (split_char d s). c \<in> set p"
proof (induction s)
  case (Cons x xs)
  obtain q qs where "split_char d xs = q # qs"
    using split_char_not_Nil by (metis neq_Nil_conv)
  with Cons show ?case by fastforce
qed simp

lemma leading_slash: "prefix ''/'' s \<Longrightarrow> [] \<in> set (split_char SLASH s)"
  by (auto simp: prefix_def)

lemma trailing_slash: "suffix ''/'' s \<Longrightarrow> [] \<in> set (split_char SLASH s)"
  by (auto simp: suffix_def split_char_append_any)

lemma validate_ok_iff: "validate s = Inr () \<longleftrightarrow> list_all seg_ok (split_char SLASH s)"
proof
  assume h: "validate s = Inr ()"
  then have c: "check_segments s (split_char SLASH s) = Inr ()" "NUL \<notin> set s" "BACKSLASH \<notin> set s"
    by (auto simp: validate_def split: if_splits)
  show "list_all seg_ok (split_char SLASH s)"
    unfolding list_all_iff seg_ok_def
    using c split_char_set [of _ SLASH s] split_char_no_sep [of _ SLASH s]
    by (auto simp: check_segments_ok)
next
  assume h: "list_all seg_ok (split_char SLASH s)"
  then have ne: "[] \<notin> set (split_char SLASH s)" by (auto simp: list_all_iff seg_ok_def)
  then have "s \<noteq> []" "\<not> prefix ''/'' s" "\<not> suffix ''/'' s"
    using leading_slash trailing_slash by auto
  moreover have "NUL \<notin> set s"
    using h in_segment [of NUL s SLASH] by (auto simp: list_all_iff seg_ok_def)
  moreover have "BACKSLASH \<notin> set s"
    using h in_segment [of BACKSLASH s SLASH] by (auto simp: list_all_iff seg_ok_def)
  moreover have "check_segments s (split_char SLASH s) = Inr ()"
    using h by (auto simp: check_segments_ok list_all_iff seg_ok_def)
  ultimately show "validate s = Inr ()" by (simp add: validate_def)
qed

lemma relpath_new_Inr_iff: "relpath_new s = Inr p \<longleftrightarrow> p = RelPath s \<and> relpath_ok p"
proof -
  have "relpath_new s = Inr p \<longleftrightarrow> validate s = Inr () \<and> p = RelPath s"
    by (auto simp: relpath_new_def and_then_Inr_iff)
  also have "\<dots> \<longleftrightarrow> p = RelPath s \<and> relpath_ok p"
    by (auto simp: relpath_ok_def segments_def validate_ok_iff simp del: split_char.simps)
  finally show ?thesis .
qed

lemma relpath_new_ok: "relpath_ok (RelPath s) \<Longrightarrow> relpath_new s = Inr (RelPath s)"
  by (simp add: relpath_new_Inr_iff)

lemma relpath_new_Inr_ok: "relpath_new s = Inr p \<Longrightarrow> relpath_ok p"
  by (auto simp: relpath_new_Inr_iff)

lemma segments_not_Nil [simp]: "segments p \<noteq> []"
  by (simp add: segments_def)

lemma join_segments: "join_with ''/'' (segments p) = as_str p"
  by (simp add: segments_def join_split)

lemma segments_inj: "segments p = segments q \<Longrightarrow> p = q"
  by (metis join_segments relpath.expand)

lemma segments_seg_ok: "relpath_ok p \<Longrightarrow> s \<in> set (segments p) \<Longrightarrow> seg_ok s"
  by (simp add: relpath_ok_def list_all_iff)

section \<open>Accessors\<close>

lemma rsplit_segments:
  "rsplit_once SLASH s = Some (a, b) \<Longrightarrow> split_char SLASH s = split_char SLASH a @ [b]"
  by (auto simp: rsplit_once_Some_iff split_char_append_any split_char_unsplit)

lemma parent_Some: "parent p = Some q \<Longrightarrow> segments p = segments q @ [file_name p]"
  by (cases "rsplit_once SLASH (as_str p)") (auto simp: parent_def file_name_def segments_def rsplit_segments)

lemma parent_None: "parent p = None \<Longrightarrow> segments p = [file_name p]"
  by (cases "rsplit_once SLASH (as_str p)") (auto simp: parent_def file_name_def segments_def split_char_unsplit
        dest: rsplit_once_None_iff [THEN iffD1] simp del: rsplit_once_None_iff)

lemma parent_butlast: "parent p = Some q \<Longrightarrow> segments q = butlast (segments p)"
  by (simp add: parent_Some)

lemma file_name_last: "file_name p = last (segments p)"
  using parent_Some parent_None by (cases "parent p") fastforce+

lemma parent_ok: "relpath_ok p \<Longrightarrow> parent p = Some q \<Longrightarrow> relpath_ok q"
  by (simp add: relpath_ok_def parent_Some)

lemma parent_shorter: "parent p = Some q \<Longrightarrow> length (segments q) < length (segments p)"
  by (simp add: parent_Some)

lemma parent_str_shorter: "parent p = Some q \<Longrightarrow> length (as_str q) < length (as_str p)"
  by (auto simp: parent_def rsplit_once_Some_iff split: option.splits)

lemma parent_is_None_iff: "parent p = None \<longleftrightarrow> length (segments p) = 1"
proof -
  have "parent p = Some q \<Longrightarrow> length (segments p) \<noteq> 1" for q
    using parent_Some [of p q] segments_not_Nil [of q] by auto
  then show ?thesis by (cases "parent p") (auto simp: parent_None)
qed

lemma join_segments_append:
  "SLASH \<notin> set x \<Longrightarrow> segments (RelPath (as_str p @ SLASH # x)) = segments p @ [x]"
  by (simp add: segments_def split_char_append_any split_char_unsplit)

lemma path_join_Inr_iff:
  "relpath_ok p \<Longrightarrow> path_join p x = Inr q \<longleftrightarrow> seg_ok x \<and> segments q = segments p @ [x]"
proof -
  assume p: "relpath_ok p"
  show ?thesis
  proof (cases "SLASH \<in> set x")
    case True
    then show ?thesis by (simp add: path_join_def seg_ok_def)
  next
    case False
    have "path_join p x = Inr q \<longleftrightarrow> q = RelPath (as_str p @ SLASH # x) \<and> relpath_ok q"
      using False by (simp add: path_join_def relpath_new_Inr_iff)
    also have "\<dots> \<longleftrightarrow> q = RelPath (as_str p @ SLASH # x) \<and> seg_ok x"
      using p False by (auto simp: relpath_ok_def join_segments_append)
    also have "\<dots> \<longleftrightarrow> seg_ok x \<and> segments q = segments p @ [x]"
      using False join_segments_append [OF False, of p] segments_inj by metis
    finally show ?thesis .
  qed
qed

lemma path_join_ok: "relpath_ok p \<Longrightarrow> seg_ok x \<Longrightarrow> path_join p x = Inr (RelPath (as_str p @ ''/'' @ x))"
  using path_join_Inr_iff [of p x "RelPath (as_str p @ SLASH # x)"] join_segments_append [of x p]
  by (simp add: seg_ok_def)

section \<open>Containment\<close>

text \<open>
  What a POSIX kernel does with the components of a path, lexically: \<open>.\<close> and the empty component
  stay, \<open>..\<close> goes up (and stays at the top).
\<close>

fun resolve_from :: "str list \<Rightarrow> str list \<Rightarrow> str list" where
  "resolve_from here [] = here"
| "resolve_from here (c # cs) =
     (if c = [] \<or> c = ''.'' then resolve_from here cs
      else if c = ''..'' then resolve_from (butlast here) cs
      else resolve_from (here @ [c]) cs)"

lemma resolve_ok: "list_all seg_ok cs \<Longrightarrow> resolve_from here cs = here @ cs"
  by (induction cs arbitrary: here) (auto simp: seg_ok_def)

text \<open>Paths can be compared and sorted: the order of their strings.\<close>

instantiation relpath :: linorder
begin

definition less_eq_relpath :: "relpath \<Rightarrow> relpath \<Rightarrow> bool" where
  "less_eq_relpath p q \<longleftrightarrow> as_str p \<le> as_str q"

definition less_relpath :: "relpath \<Rightarrow> relpath \<Rightarrow> bool" where
  "less_relpath p q \<longleftrightarrow> as_str p < as_str q"

instance
  by standard (auto simp: less_eq_relpath_def less_relpath_def relpath.expand)

end

section \<open>Properties\<close>

text \<open>\<open>RelPath::new\<close> accepts a string exactly when each of its \<open>/\<close>-separated segments is
  safe to append to a directory (not empty, not \<open>.\<close> or \<open>..\<close>, no separator, NUL or backslash), and
  then stores the string unchanged.\<close>

lemma relpath_new_accepts:
  "relpath_new s = Inr p \<longleftrightarrow> as_str p = s \<and> list_all seg_ok (split_char SLASH s)"
proof -
  have "relpath_new s = Inr p \<longleftrightarrow> p = RelPath s \<and> relpath_ok p" by (rule relpath_new_Inr_iff)
  then show ?thesis by (cases p) (auto simp: relpath_ok_def segments_def)
qed

text \<open>C12. Paths stay well formed, and a well-formed path cannot escape: what \<open>new\<close> accepts has only proper
  segments, its parent and everything \<open>join\<close> makes of it could have been made by \<open>new\<close> from their
  texts, and resolving it from any directory, the way a kernel treats \<open>.\<close> and \<open>..\<close>, ends strictly
  below that directory, at exactly its segments.\<close>

theorem relpath_contained:
  assumes "relpath_new s = Inr p"
  shows "relpath_ok p \<and> (\<forall>q. parent p = Some q \<longrightarrow> relpath_new (as_str q) = Inr q) \<and>
    (\<forall>x q. path_join p x = Inr q \<longrightarrow> relpath_new (as_str q) = Inr q) \<and>
    resolve_from root (segments p) = root @ segments p \<and> segments p \<noteq> []"
proof -
  have ok: "relpath_ok p" using relpath_new_Inr_ok [OF assms] by simp
  have "relpath_new (as_str q) = Inr q" if "relpath_ok q" for q
    using that relpath_new_Inr_iff [of "as_str q" q] by simp
  moreover have "path_join p x = Inr q \<Longrightarrow> relpath_ok q" for x q
    using ok by (simp add: path_join_Inr_iff relpath_ok_def)
  ultimately show ?thesis using ok parent_ok by (simp add: resolve_ok relpath_ok_def)
qed

theorem relpath_contained_witness:
  "resolve_from [''home'', ''store''] (segments (RelPath ''email/work'')) = [''home'', ''store'', ''email'', ''work''] \<and>
   parent (RelPath ''email/work'') = Some (RelPath ''email'') \<and> relpath_new ''email'' = Inr (RelPath ''email'')"
proof -
  have n: "relpath_new ''email/work'' = Inr (RelPath ''email/work'')" "parent (RelPath ''email/work'') = Some (RelPath ''email'')"
    "segments (RelPath ''email/work'') = [''email'', ''work'']" by code_simp+
  from relpath_contained [OF n(1), of "[''home'', ''store'']"] n(2,3) show ?thesis by simp
qed

end
