(* ===== verification/Gpg_Ids.thy ===== *)
theory Gpg_Ids
  imports Rel_Path
begin

text \<open>
  Recipient resolution (\<open>bypass-core/src/gpg_id.rs\<close>): walk from the entry's parent to the store root
  and use the first \<open>.gpg-id\<close> found.  The \<open>Storage\<close> argument appears as its \<open>read\<close> method.
\<close>

section \<open>Operations\<close>

datatype keyid = KeyId (keyid_str: str)

datatype 'e gpg_id_error = GpgIdMissing | GpgIdEmpty | GpgIdNotUtf8 | GpgIdStorage 'e

definition gpg_id_lines :: "str \<Rightarrow> str list" where
  "gpg_id_lines text = filter (\<lambda>line. line \<noteq> [] \<and> \<not> prefix ''#'' line) (map trim (lines text))"

definition parse_gpg_id :: "bytes \<Rightarrow> 'e gpg_id_error + keyid list" where
  "parse_gpg_id b =
     (case from_utf8 b of None \<Rightarrow> Inl GpgIdNotUtf8
      | Some text \<Rightarrow>
          (let recipients = map KeyId (gpg_id_lines text) in
           if recipients = [] then Inl GpgIdEmpty else Inr recipients))"

text \<open>One round of the loop looks at \<open>current\<close>; \<open>None\<close> is the store root, the last round.\<close>

definition gpg_id_path_in :: "relpath option \<Rightarrow> relpath" where
  "gpg_id_path_in current =
     (case current of Some p \<Rightarrow> expect (path_join p ''.gpg-id'') | None \<Rightarrow> expect (relpath_new ''.gpg-id''))"

function resolve_loop ::
  "(relpath \<Rightarrow> 'e + bytes option) \<Rightarrow> relpath option \<Rightarrow> 'e gpg_id_error + keyid list" where
  "resolve_loop rd current =
     (case rd (gpg_id_path_in current) of
        Inl e \<Rightarrow> Inl (GpgIdStorage e)
      | Inr (Some b) \<Rightarrow> parse_gpg_id b
      | Inr None \<Rightarrow>
          (case current of None \<Rightarrow> Inl GpgIdMissing | Some p \<Rightarrow> resolve_loop rd (parent p)))"
  by pat_completeness auto
termination
proof (relation "measure (\<lambda>(rd, c). case c of None \<Rightarrow> 0 | Some p \<Rightarrow> Suc (length (as_str p)))", goal_cases)
  case 1
  then show ?case by simp
next
  case (2 rd current x2 p)
  then show ?case by (cases "parent p") (auto dest: parent_str_shorter)
qed

declare resolve_loop.simps [simp del]

definition resolve_recipients ::
  "(relpath \<Rightarrow> 'e + bytes option) \<Rightarrow> relpath \<Rightarrow> 'e gpg_id_error + keyid list" where
  "resolve_recipients rd entry_path = resolve_loop rd (parent entry_path)"

section \<open>Specification\<close>

text \<open>The \<open>.gpg-id\<close> path of a directory given by its segments, and the directories above an entry,
  nearest first.\<close>

definition gpg_id_of_dir :: "str list \<Rightarrow> relpath" where
  "gpg_id_of_dir dir = RelPath (join_with ''/'' (dir @ [''.gpg-id'']))"

definition dirs_above :: "str list \<Rightarrow> str list list" where
  "dirs_above segs = map (\<lambda>n. take n segs) (rev [0..<length segs])"

fun first_present :: "(relpath \<Rightarrow> bytes option) \<Rightarrow> str list list \<Rightarrow> bytes option" where
  "first_present view [] = None"
| "first_present view (d # ds) =
     (case view (gpg_id_of_dir d) of Some b \<Rightarrow> Some b | None \<Rightarrow> first_present view ds)"

definition recipients_spec :: "(relpath \<Rightarrow> bytes option) \<Rightarrow> relpath \<Rightarrow> 'e gpg_id_error + keyid list" where
  "recipients_spec view p =
     (case first_present view (dirs_above (segments p)) of
        None \<Rightarrow> Inl GpgIdMissing | Some b \<Rightarrow> parse_gpg_id b)"

section \<open>Lemmas\<close>

lemma gpg_id_seg_ok: "seg_ok ''.gpg-id''"
  by (simp add: seg_ok_def)

lemma gpg_id_path_root: "gpg_id_path_in None = RelPath ''.gpg-id''"
proof -
  have "relpath_new ''.gpg-id'' = Inr (RelPath ''.gpg-id'')" by code_simp
  then show ?thesis by (simp add: gpg_id_path_in_def)
qed

lemma gpg_id_path_root_dir: "gpg_id_path_in None = gpg_id_of_dir []"
  by (simp add: gpg_id_path_root gpg_id_of_dir_def)

lemma gpg_id_path_dir: "relpath_ok p \<Longrightarrow> gpg_id_path_in (Some p) = gpg_id_of_dir (segments p)"
proof -
  assume p: "relpath_ok p"
  have "path_join p ''.gpg-id'' = Inr (RelPath (as_str p @ ''/'' @ ''.gpg-id''))"
    using p gpg_id_seg_ok by (rule path_join_ok)
  moreover have "join_with ''/'' (segments p @ [''.gpg-id'']) = as_str p @ ''/'' @ ''.gpg-id''"
    by (subst join_with_append) (simp_all add: join_segments)
  ultimately show ?thesis by (simp add: gpg_id_path_in_def gpg_id_of_dir_def)
qed

lemma gpg_id_of_dir_ok: "list_all seg_ok d \<Longrightarrow> relpath_ok (gpg_id_of_dir d)"
proof -
  assume d: "list_all seg_ok d"
  have "\<forall>x \<in> set (d @ [''.gpg-id'']). SLASH \<notin> set x"
    using d by (auto simp: list_all_iff seg_ok_def)
  then have "segments (gpg_id_of_dir d) = d @ [''.gpg-id'']"
    using split_join [of "d @ [''.gpg-id'']" SLASH] by (simp add: segments_def gpg_id_of_dir_def)
  then show ?thesis using d gpg_id_seg_ok by (simp add: relpath_ok_def)
qed

lemma dirs_above_snoc: "dirs_above (ss @ [x]) = ss # dirs_above ss"
  by (simp add: dirs_above_def)

lemma resolve_loop_spec:
  assumes "case current of None \<Rightarrow> True | Some p \<Rightarrow> relpath_ok p"
    and "\<And>q. relpath_ok q \<Longrightarrow> rd q = Inr (view q)"
  shows "resolve_loop rd current =
    (case first_present view (case current of None \<Rightarrow> [[]] | Some p \<Rightarrow> segments p # dirs_above (segments p)) of
       None \<Rightarrow> Inl GpgIdMissing | Some b \<Rightarrow> parse_gpg_id b)"
  using assms
proof (induction rd current rule: resolve_loop.induct)
  case (1 rd current)
  show ?case
  proof (cases current)
    case None
    have "rd (gpg_id_of_dir []) = Inr (view (gpg_id_of_dir []))"
      by (rule "1.prems"(2)) (rule gpg_id_of_dir_ok, simp)
    then show ?thesis
      using None by (simp add: resolve_loop.simps [of rd None] gpg_id_path_root_dir split: option.splits)
  next
    case (Some p)
    then have p: "relpath_ok p" using "1.prems"(1) by simp
    let ?d = "gpg_id_of_dir (segments p)"
    have r: "rd (gpg_id_path_in current) = Inr (view ?d)"
      using p Some "1.prems"(2) [of ?d] gpg_id_of_dir_ok [of "segments p"]
      by (simp add: gpg_id_path_dir relpath_ok_def)
    show ?thesis
    proof (cases "view ?d")
      case (Some b)
      then show ?thesis using r \<open>current = Some p\<close> by (simp add: resolve_loop.simps [of rd "Some p"])
    next
      case None
      have "dirs_above (segments p) = (case parent p of None \<Rightarrow> [[]] | Some q \<Rightarrow> segments q # dirs_above (segments q))"
        using parent_Some [of p] parent_None [of p]
        by (cases "parent p") (auto simp: dirs_above_snoc dirs_above_def)
      moreover have "case parent p of None \<Rightarrow> True | Some q \<Rightarrow> relpath_ok q"
        using p parent_ok by (cases "parent p") auto
      ultimately show ?thesis
        using None r Some "1.IH" [OF _ _ Some] "1.prems"(2)
        by (simp add: resolve_loop.simps [of rd "Some p"])
    qed
  qed
qed

lemma resolve_recipients_spec:
  assumes "relpath_ok p" "\<And>q. relpath_ok q \<Longrightarrow> rd q = Inr (view q)"
  shows "resolve_recipients rd p = recipients_spec view p"
proof -
  have "case parent p of None \<Rightarrow> True | Some q \<Rightarrow> relpath_ok q"
    using assms(1) parent_ok by (cases "parent p") auto
  moreover have "dirs_above (segments p) = (case parent p of None \<Rightarrow> [[]] | Some q \<Rightarrow> segments q # dirs_above (segments q))"
    using parent_Some [of p] parent_None [of p]
    by (cases "parent p") (auto simp: dirs_above_snoc dirs_above_def)
  ultimately show ?thesis
    using resolve_loop_spec [of "parent p" rd view] assms(2)
    by (simp add: resolve_recipients_def recipients_spec_def)
qed

lemma parse_gpg_id_nonempty: "parse_gpg_id b = Inr rs \<Longrightarrow> rs \<noteq> []"
  by (auto simp: parse_gpg_id_def Let_def split: option.splits if_splits)

lemma resolve_loop_nonempty: "resolve_loop rd c = Inr rs \<Longrightarrow> rs \<noteq> []"
proof (induction rd c rule: resolve_loop.induct)
  case (1 rd c)
  from "1.prems" "1.IH" show ?case
    by (auto simp: resolve_loop.simps [of rd c] dest: parse_gpg_id_nonempty split: sum.splits option.splits)
qed

lemma resolve_nonempty: "resolve_recipients rd p = Inr rs \<Longrightarrow> rs \<noteq> []"
  by (simp add: resolve_recipients_def resolve_loop_nonempty)

section \<open>Properties\<close>

text \<open>C13. The walk finds the nearest \<open>.gpg-id\<close>: on a storage whose reads succeed, the result is the
  parse of the first \<open>.gpg-id\<close> among the directories above the entry, from its own directory outward,
  and \<open>Missing\<close> exactly when none of them has one.\<close>

theorem nearest_gpg_id_wins:
  assumes "relpath_ok p" "\<And>q. relpath_ok q \<Longrightarrow> rd q = Inr (view q)"
  shows "resolve_recipients rd p =
     (case first_present view (dirs_above (segments p)) of
        None \<Rightarrow> Inl GpgIdMissing | Some b \<Rightarrow> parse_gpg_id b)"
  using resolve_recipients_spec [OF assms] by (simp add: recipients_spec_def)

definition two_gpg_ids :: "relpath \<Rightarrow> bytes option" where
  "two_gpg_ids q = map_of [(''.gpg-id'', ''ROOT'' @ [NL]), (''email/.gpg-id'', ''# team'' @ [NL] @ ''MAIL'' @ [NL])] (as_str q)"

theorem nearest_gpg_id_wins_witness:
  "resolve_recipients (\<lambda>q. Inr (two_gpg_ids q) :: unit + bytes option) (RelPath ''email/work/github'') = Inr [KeyId ''MAIL'']"
proof -
  have "relpath_ok (RelPath ''email/work/github'')" by code_simp
  from nearest_gpg_id_wins [OF this, of "\<lambda>q. Inr (two_gpg_ids q) :: unit + bytes option" two_gpg_ids]
  have "resolve_recipients (\<lambda>q. Inr (two_gpg_ids q) :: unit + bytes option) (RelPath ''email/work/github'') =
     (case first_present two_gpg_ids (dirs_above (segments (RelPath ''email/work/github''))) of
        None \<Rightarrow> Inl GpgIdMissing | Some b \<Rightarrow> parse_gpg_id b)" by simp
  also have "\<dots> = Inr [KeyId ''MAIL'']" by code_simp
  finally show ?thesis .
qed

end
