(* ===== verification/Store_Traits.thy ===== *)
theory Store_Traits
  imports Gpg_Ids
begin

text \<open>
  The three platform traits of \<open>bypass-core\<close> (\<open>crypto.rs\<close>, \<open>storage.rs\<close>, \<open>vcs.rs\<close>) as records of
  their methods.  All methods act on one world \<open>'w\<close> (file system, keyring, repository), because a
  storage backend and a version-control backend address the same directory.  A \<open>&self\<close> method that
  only observes takes the world; one that changes it is an effect.  The locale \<open>storage_laws\<close> is the
  contract the documentation of \<open>storage.rs\<close> states.
\<close>

section \<open>Traits\<close>

record ('w, 'e) crypto_impl =
  cr_encrypt :: "bytes \<Rightarrow> keyid list \<Rightarrow> ('w, 'e, bytes) eff"
  cr_decrypt :: "'w \<Rightarrow> bytes \<Rightarrow> 'e + bytes"

record ('w, 'e) storage_impl =
  st_read :: "'w \<Rightarrow> relpath \<Rightarrow> 'e + bytes option"
  st_write :: "relpath \<Rightarrow> bytes \<Rightarrow> ('w, 'e, unit) eff"
  st_remove :: "relpath \<Rightarrow> ('w, 'e, unit) eff"
  st_exists :: "'w \<Rightarrow> relpath \<Rightarrow> 'e + bool"
  st_list :: "'w \<Rightarrow> relpath option \<Rightarrow> 'e + relpath list"

record commit =
  c_id :: str
  c_summary :: str
  c_author :: "str option"
  c_time_unix :: int

record ('w, 'e) vcs_impl =
  vc_init :: "('w, 'e, unit) eff"
  vc_is_initialized :: "'w \<Rightarrow> 'e + bool"
  vc_commit :: "relpath list \<Rightarrow> str \<Rightarrow> ('w, 'e, unit) eff"
  vc_log :: "'w \<Rightarrow> relpath option \<Rightarrow> 'e + commit list"

text \<open>\<open>NoVcs\<close>: every method succeeds and does nothing.\<close>

definition no_vcs :: "('w, 'e) vcs_impl" where
  "no_vcs = \<lparr>vc_init = (\<lambda>w. (Inr (), w)), vc_is_initialized = (\<lambda>w. Inr False),
             vc_commit = (\<lambda>paths message w. (Inr (), w)), vc_log = (\<lambda>w path. Inr [])\<rparr>"

section \<open>The blob namespace\<close>

definition relpath_wf :: "relpath \<Rightarrow> bool" where
  "relpath_wf p \<longleftrightarrow> relpath_ok p \<and> valid_utf8 (as_str p)"

text \<open>Paths of blobs: anything but git's own directory.\<close>

definition addr :: "relpath \<Rightarrow> bool" where
  "addr p \<longleftrightarrow> relpath_wf p \<and> ''.git'' \<notin> set (segments p)"

definition under :: "relpath option \<Rightarrow> relpath \<Rightarrow> bool" where
  "under pre p = (case pre of None \<Rightarrow> True | Some d \<Rightarrow> strict_prefix (segments d) (segments p))"

definition pre_addr :: "relpath option \<Rightarrow> bool" where
  "pre_addr pre = (case pre of None \<Rightarrow> True | Some d \<Rightarrow> addr d)"

text \<open>An effect that touches neither the blobs nor the well-formedness of the world: what the crypto
  and the version-control backends are expected to be for the storage.\<close>

definition quiet :: "('w \<Rightarrow> relpath \<Rightarrow> bytes option) \<Rightarrow> ('w \<Rightarrow> bool) \<Rightarrow> ('w, 'e, 'a) eff \<Rightarrow> bool" where
  "quiet view ok f \<longleftrightarrow> (\<forall>w r w'. ok w \<longrightarrow> f w = (r, w') \<longrightarrow> ok w' \<and> view w' = view w)"

definition crypto_quiet :: "('w \<Rightarrow> relpath \<Rightarrow> bytes option) \<Rightarrow> ('w \<Rightarrow> bool) \<Rightarrow> ('w, 'e) crypto_impl \<Rightarrow> bool" where
  "crypto_quiet view ok C \<longleftrightarrow> (\<forall>pt rs. quiet view ok (cr_encrypt C pt rs))"

definition vcs_quiet :: "('w \<Rightarrow> relpath \<Rightarrow> bytes option) \<Rightarrow> ('w \<Rightarrow> bool) \<Rightarrow> ('w, 'e) vcs_impl \<Rightarrow> bool" where
  "vcs_quiet view ok V \<longleftrightarrow> quiet view ok (vc_init V) \<and> (\<forall>ps m. quiet view ok (vc_commit V ps m))"

text \<open>What OpenPGP promises: a ciphertext made for some recipients decrypts to its plaintext in every
  world whose keyring can read for these recipients.\<close>

definition crypto_sound :: "('w, 'e) crypto_impl \<Rightarrow> ('w \<Rightarrow> keyid list \<Rightarrow> bool) \<Rightarrow> bool" where
  "crypto_sound C can_read \<longleftrightarrow>
     (\<forall>pt rs w ct w1 w2. cr_encrypt C pt rs w = (Inr ct, w1) \<longrightarrow> can_read w2 rs \<longrightarrow> cr_decrypt C w2 ct = Inr pt)"

section \<open>The storage contract\<close>

locale storage_laws =
  fixes S :: "('w, 'e) storage_impl"
    and view :: "'w \<Rightarrow> relpath \<Rightarrow> bytes option"
    and ok :: "'w \<Rightarrow> bool"
    and scratch :: "relpath \<Rightarrow> bool"
  assumes view_addr: "view w p = Some b \<Longrightarrow> addr p"
    and read_law: "ok w \<Longrightarrow> addr p \<Longrightarrow> st_read S w p = Inr r \<Longrightarrow> r = view w p"
    and write_law: "ok w \<Longrightarrow> addr p \<Longrightarrow> st_write S p d w = (Inr u, w') \<Longrightarrow> ok w' \<and> view w' = (view w)(p \<mapsto> d)"
    and write_err_law: "ok w \<Longrightarrow> addr p \<Longrightarrow> st_write S p d w = (Inl e, w') \<Longrightarrow>
          ok w' \<and> (\<forall>q. \<not> scratch q \<longrightarrow> view w' q = view w q)"
    and remove_law: "ok w \<Longrightarrow> addr p \<Longrightarrow> st_remove S p w = (Inr u, w') \<Longrightarrow> ok w' \<and> view w' = (view w)(p := None)"
    and remove_err_law: "ok w \<Longrightarrow> addr p \<Longrightarrow> st_remove S p w = (Inl e, w') \<Longrightarrow>
          ok w' \<and> (\<forall>q. q \<noteq> p \<longrightarrow> view w' q = view w q)"
    and exists_law: "ok w \<Longrightarrow> addr p \<Longrightarrow> st_exists S w p = Inr found \<Longrightarrow> view w p \<noteq> None \<Longrightarrow> found"
    and list_law: "ok w \<Longrightarrow> pre_addr pre \<Longrightarrow> st_list S w pre = Inr ps \<Longrightarrow>
          set ps = {p. view w p \<noteq> None \<and> under pre p}"
begin

lemma exists_False: "ok w \<Longrightarrow> addr p \<Longrightarrow> st_exists S w p = Inr False \<Longrightarrow> view w p = None"
  using exists_law [of w p False] by (cases "view w p") auto

end

section \<open>UTF-8 of parts of a path\<close>

lemma segments_valid: "valid_utf8 (as_str p) \<Longrightarrow> s \<in> set (segments p) \<Longrightarrow> valid_utf8 s"
proof -
  have b: "byte SLASH < 128" by (simp add: byte_def)
  have "valid_utf8 (join_with ''/'' ss) \<Longrightarrow> s \<in> set ss \<Longrightarrow> valid_utf8 s" for ss
  proof (induction "''/''" ss rule: join_with.induct)
    case (3 u t ss)
    then have "valid_utf8 (u @ SLASH # join_with ''/'' (t # ss))" by simp
    from valid_split [OF b this] 3 show ?case by auto
  qed simp_all
  then show "valid_utf8 (as_str p) \<Longrightarrow> s \<in> set (segments p) \<Longrightarrow> valid_utf8 s"
    by (metis join_segments)
qed

text \<open>A path is addressable exactly when its segments are, one by one.\<close>

definition seg_addr :: "str \<Rightarrow> bool" where
  "seg_addr s \<longleftrightarrow> seg_ok s \<and> valid_utf8 s \<and> s \<noteq> ''.git''"

lemma addr_iff: "addr p \<longleftrightarrow> list_all seg_addr (segments p)"
proof
  assume "addr p"
  then show "list_all seg_addr (segments p)"
    by (auto simp: addr_def relpath_wf_def relpath_ok_def seg_addr_def list_all_iff segments_valid)
next
  assume h: "list_all seg_addr (segments p)"
  then have "valid_utf8 (join_with ''/'' (segments p))"
    by (intro valid_join_dir) (auto simp: list_all_iff seg_addr_def)
  then show "addr p"
    using h by (auto simp: addr_def relpath_wf_def relpath_ok_def seg_addr_def list_all_iff join_segments)
qed

lemma addr_relpath_ok: "addr p \<Longrightarrow> relpath_ok p"
  by (simp add: addr_def relpath_wf_def)

lemma gpg_id_of_dir_segments: "list_all seg_ok d \<Longrightarrow> segments (gpg_id_of_dir d) = d @ [''.gpg-id'']"
proof -
  assume "list_all seg_ok d"
  then have "\<forall>x \<in> set (d @ [''.gpg-id'']). SLASH \<notin> set x"
    by (auto simp: list_all_iff seg_ok_def)
  then show ?thesis
    using split_join [of "d @ [''.gpg-id'']" SLASH] by (simp add: segments_def gpg_id_of_dir_def)
qed

lemma gpg_id_seg_addr: "seg_addr ''.gpg-id''"
  by code_simp

lemma gpg_id_of_dir_addr: "list_all seg_addr d \<Longrightarrow> addr (gpg_id_of_dir d)"
  using gpg_id_seg_addr
  by (simp add: addr_iff gpg_id_of_dir_segments list_all_iff seg_addr_def)

lemma parent_addr: "addr p \<Longrightarrow> parent p = Some q \<Longrightarrow> addr q"
  by (simp add: addr_iff parent_Some)

end
