(* ===== verification/Pass_Store.thy ===== *)
theory Pass_Store
  imports Store_Traits "HOL-Library.Multiset"
begin

text \<open>
  The password-store orchestrator (\<open>bypass-core/src/store.rs\<close>): every operation of
  \<open>Store<C, S, V>\<close> as an effect on the world, in the order of the code's calls, with each \<open>?\<close> and
  early return.  \<open>Store\<close> itself is the record of its three backends.
\<close>

section \<open>State and errors\<close>

datatype ('ce, 'se, 've) store_error =
    StoreNotFound str
  | StoreAlreadyExists str
  | NotInitialized
  | GpgIdMalformed str
  | CryptoErr 'ce
  | StorageErr 'se
  | VcsErr 've

record ('w, 'ce, 'se, 've) store =
  crypto :: "('w, 'ce) crypto_impl"
  storage :: "('w, 'se) storage_impl"
  vcs :: "('w, 've) vcs_impl"

definition from_gpg_id :: "'se gpg_id_error \<Rightarrow> ('ce, 'se, 've) store_error" where
  "from_gpg_id e = (case e of
      GpgIdMissing \<Rightarrow> NotInitialized
    | GpgIdEmpty \<Rightarrow> GpgIdMalformed ''no recipients''
    | GpgIdNotUtf8 \<Rightarrow> GpgIdMalformed ''not UTF-8''
    | GpgIdStorage se \<Rightarrow> StorageErr se)"

section \<open>Paths and rules\<close>

definition entry_to_blob :: "relpath \<Rightarrow> relpath" where
  "entry_to_blob e = expect (relpath_new (as_str e @ ''.gpg''))"

definition blob_to_entry :: "relpath \<Rightarrow> relpath option" where
  "blob_to_entry blob =
     (case strip_suffix ''.gpg'' (as_str blob) of None \<Rightarrow> None
      | Some stem \<Rightarrow> (case relpath_new stem of Inr p \<Rightarrow> Some p | Inl _ \<Rightarrow> None))"

definition recipients_equal :: "keyid list \<Rightarrow> keyid list \<Rightarrow> bool" where
  "recipients_equal a b =
     (if length a \<noteq> length b then False
      else sort (map keyid_str a) = sort (map keyid_str b))"

definition gpg_id_path :: relpath where
  "gpg_id_path = expect (relpath_new ''.gpg-id'')"

definition gitattributes_path :: relpath where
  "gitattributes_path = expect (relpath_new ''.gitattributes'')"

definition GITATTRIBUTES_RULE :: str where
  "GITATTRIBUTES_RULE = ''*.gpg binary merge=bypass-take-theirs'' @ [NL]"

definition gpg_binary_line :: "str \<Rightarrow> bool" where
  "gpg_binary_line raw =
     (let line = trim raw in
      if line = [] \<or> prefix ''#'' line then False
      else (case split_whitespace line of
          [] \<Rightarrow> False
        | pattern # parts \<Rightarrow> pattern = ''*.gpg'' \<and> list_ex (\<lambda>tok. tok = ''binary'') parts))"

definition has_gpg_binary_rule :: "bytes \<Rightarrow> bool" where
  "has_gpg_binary_rule body =
     (case from_utf8 body of None \<Rightarrow> False | Some text \<Rightarrow> list_ex gpg_binary_line (lines text))"

section \<open>Commit messages\<close>

definition init_message :: str where
  "init_message = ''bypass: initialise store''"

definition insert_message :: "bool \<Rightarrow> relpath \<Rightarrow> str" where
  "insert_message overwrite e =
     (let verb = (if overwrite then ''Update'' else ''Add'') in
      ''bypass: '' @ verb @ '' password for '' @ as_str e)"

definition remove_message :: "relpath \<Rightarrow> str" where
  "remove_message e = ''bypass: Remove '' @ as_str e"

definition copy_message :: "relpath \<Rightarrow> relpath \<Rightarrow> str" where
  "copy_message from to = ''bypass: Copy '' @ as_str from @ '' to '' @ as_str to"

definition rename_message :: "relpath \<Rightarrow> relpath \<Rightarrow> str" where
  "rename_message from to = ''bypass: Rename '' @ as_str from @ '' to '' @ as_str to"

definition remove_all_message :: "relpath \<Rightarrow> str" where
  "remove_all_message pre = ''bypass: Remove '' @ as_str pre @ ''/''"

section \<open>Operations\<close>

type_synonym ('w, 'ce, 'se, 've, 'a) store_op = "('w, ('ce, 'se, 've) store_error, 'a) eff"

definition read_default :: "('w, 'ce, 'se, 've) store \<Rightarrow> relpath \<Rightarrow> 'w \<Rightarrow> ('ce, 'se, 've) store_error + bytes" where
  "read_default st path w = and_then (map_err StorageErr (st_read (storage st) w path)) (\<lambda>b. Inr (unwrap_or [] b))"

definition install_gitattributes :: "('w, 'ce, 'se, 've) store \<Rightarrow> ('w, 'ce, 'se, 've, bool) store_op" where
  "install_gitattributes st w =
     then_eff (read_default st gitattributes_path w, w) (\<lambda>existing w.
       if has_gpg_binary_rule existing then (Inr False, w)
       else
         (let new_body = (if existing \<noteq> [] \<and> last existing \<noteq> NL then existing @ [NL] else existing);
              new_body = new_body @ GITATTRIBUTES_RULE in
          then_eff (map_err_st StorageErr (st_write (storage st) gitattributes_path new_body w)) (\<lambda>_ w.
            (Inr True, w))))"

definition gitattributes_has_gpg_binary_rule ::
  "('w, 'ce, 'se, 've) store \<Rightarrow> 'w \<Rightarrow> ('ce, 'se, 've) store_error + bool" where
  "gitattributes_has_gpg_binary_rule st w =
     and_then (read_default st gitattributes_path w) (\<lambda>body. Inr (has_gpg_binary_rule body))"

definition gpg_id_body :: "keyid list \<Rightarrow> str" where
  "gpg_id_body recipients = concat (map (\<lambda>r. keyid_str r @ [NL]) recipients)"

definition store_init :: "('w, 'ce, 'se, 've) store \<Rightarrow> keyid list \<Rightarrow> ('w, 'ce, 'se, 've, unit) store_op" where
  "store_init st recipients w =
     (if recipients = [] then (Inl (GpgIdMalformed ''no recipients''), w)
      else
        then_eff (map_err_st StorageErr (st_write (storage st) gpg_id_path (gpg_id_body recipients) w)) (\<lambda>_ w.
        then_eff (install_gitattributes st w) (\<lambda>attrs_changed w.
        then_eff (map_err_st VcsErr (vc_init (vcs st) w)) (\<lambda>_ w.
          (let paths = [gpg_id_path] @ (if attrs_changed then [gitattributes_path] else []) in
           then_eff (map_err_st VcsErr (vc_commit (vcs st) paths init_message w)) (\<lambda>_ w.
             (Inr (), w)))))))"

definition resolve_for :: "('w, 'ce, 'se, 've) store \<Rightarrow> relpath \<Rightarrow> 'w \<Rightarrow> ('ce, 'se, 've) store_error + keyid list" where
  "resolve_for st e w = map_err from_gpg_id (resolve_recipients (st_read (storage st) w) e)"

definition exists_unless :: "('w, 'ce, 'se, 've) store \<Rightarrow> bool \<Rightarrow> relpath \<Rightarrow> 'w \<Rightarrow> ('ce, 'se, 've) store_error + bool" where
  \<comment> \<open>\<open>!overwrite && self.storage.exists(&blob)?\<close>\<close>
  "exists_unless st overwrite blob w =
     (if overwrite then Inr False else map_err StorageErr (st_exists (storage st) w blob))"

definition store_insert ::
  "('w, 'ce, 'se, 've) store \<Rightarrow> relpath \<Rightarrow> bytes \<Rightarrow> bool \<Rightarrow> ('w, 'ce, 'se, 've, unit) store_op" where
  "store_insert st e plaintext overwrite w =
     (let blob = entry_to_blob e in
      then_eff (exists_unless st overwrite blob w, w) (\<lambda>taken w.
      if taken then (Inl (StoreAlreadyExists (as_str e)), w)
      else
        then_eff (resolve_for st e w, w) (\<lambda>recipients w.
        then_eff (map_err_st CryptoErr (cr_encrypt (crypto st) plaintext recipients w)) (\<lambda>ciphertext w.
        then_eff (map_err_st StorageErr (st_write (storage st) blob ciphertext w)) (\<lambda>_ w.
        then_eff (map_err_st VcsErr (vc_commit (vcs st) [blob] (insert_message overwrite e) w)) (\<lambda>_ w.
          (Inr (), w)))))))"

definition insert_no_commit ::
  "('w, 'ce, 'se, 've) store \<Rightarrow> relpath \<Rightarrow> bytes \<Rightarrow> ('w, 'ce, 'se, 've, relpath) store_op" where
  "insert_no_commit st e plaintext w =
     (let blob = entry_to_blob e in
      then_eff (resolve_for st e w, w) (\<lambda>recipients w.
      then_eff (map_err_st CryptoErr (cr_encrypt (crypto st) plaintext recipients w)) (\<lambda>ciphertext w.
      then_eff (map_err_st StorageErr (st_remove (storage st) blob w)) (\<lambda>_ w.
      then_eff (map_err_st StorageErr (st_write (storage st) blob ciphertext w)) (\<lambda>_ w.
        (Inr blob, w))))))"

definition commit_changes ::
  "('w, 'ce, 'se, 've) store \<Rightarrow> relpath list \<Rightarrow> str \<Rightarrow> ('w, 'ce, 'se, 've, unit) store_op" where
  "commit_changes st paths message w = map_err_st VcsErr (vc_commit (vcs st) paths message w)"

definition store_show :: "('w, 'ce, 'se, 've) store \<Rightarrow> relpath \<Rightarrow> 'w \<Rightarrow> ('ce, 'se, 've) store_error + bytes" where
  "store_show st e w =
     (let blob = entry_to_blob e in
      and_then (map_err StorageErr (st_read (storage st) w blob)) (\<lambda>found.
        case found of None \<Rightarrow> Inl (StoreNotFound (as_str e))
        | Some ciphertext \<Rightarrow> map_err CryptoErr (cr_decrypt (crypto st) w ciphertext)))"

definition store_list ::
  "('w, 'ce, 'se, 've) store \<Rightarrow> relpath option \<Rightarrow> 'w \<Rightarrow> ('ce, 'se, 've) store_error + relpath list" where
  "store_list st subpath w =
     and_then (map_err StorageErr (st_list (storage st) w subpath)) (\<lambda>blobs.
       Inr (sort_key as_str (List.map_filter blob_to_entry blobs)))"

definition store_find :: "('w, 'ce, 'se, 've) store \<Rightarrow> str \<Rightarrow> 'w \<Rightarrow> ('ce, 'se, 've) store_error + relpath list" where
  "store_find st pattern w =
     and_then (store_list st None w) (\<lambda>entries. Inr (filter (\<lambda>e. sublist pattern (as_str e)) entries))"

definition store_remove :: "('w, 'ce, 'se, 've) store \<Rightarrow> relpath \<Rightarrow> ('w, 'ce, 'se, 've, unit) store_op" where
  "store_remove st e w =
     (let blob = entry_to_blob e in
      then_eff (map_err StorageErr (st_exists (storage st) w blob), w) (\<lambda>found w.
      if \<not> found then (Inl (StoreNotFound (as_str e)), w)
      else
        then_eff (map_err_st StorageErr (st_remove (storage st) blob w)) (\<lambda>_ w.
        then_eff (map_err_st VcsErr (vc_commit (vcs st) [blob] (remove_message e) w)) (\<lambda>_ w.
          (Inr (), w)))))"

definition transfer_blob ::
  "('w, 'ce, 'se, 've) store \<Rightarrow> relpath \<Rightarrow> relpath \<Rightarrow> bool \<Rightarrow> ('w, 'ce, 'se, 've, relpath) store_op" where
  "transfer_blob st from to overwrite w =
     (let from_blob = entry_to_blob from; to_blob = entry_to_blob to in
      then_eff (exists_unless st overwrite to_blob w, w) (\<lambda>taken w.
      if taken then (Inl (StoreAlreadyExists (as_str to)), w)
      else
        then_eff (map_err StorageErr (st_read (storage st) w from_blob), w) (\<lambda>found w.
        case found of None \<Rightarrow> (Inl (StoreNotFound (as_str from)), w)
        | Some ciphertext \<Rightarrow>
          then_eff (resolve_for st from w, w) (\<lambda>src w.
          then_eff (resolve_for st to w, w) (\<lambda>dst w.
          then_eff
            (if recipients_equal src dst then (Inr ciphertext, w)
             else then_eff (map_err CryptoErr (cr_decrypt (crypto st) w ciphertext), w) (\<lambda>plain w.
                    map_err_st CryptoErr (cr_encrypt (crypto st) plain dst w)))
            (\<lambda>new_ciphertext w.
          then_eff (map_err_st StorageErr (st_write (storage st) to_blob new_ciphertext w)) (\<lambda>_ w.
            (Inr to_blob, w))))))))"

definition store_copy ::
  "('w, 'ce, 'se, 've) store \<Rightarrow> relpath \<Rightarrow> relpath \<Rightarrow> bool \<Rightarrow> ('w, 'ce, 'se, 've, unit) store_op" where
  "store_copy st from to overwrite w =
     then_eff (transfer_blob st from to overwrite w) (\<lambda>to_blob w.
     then_eff (map_err_st VcsErr (vc_commit (vcs st) [to_blob] (copy_message from to) w)) (\<lambda>_ w. (Inr (), w)))"

definition store_rename ::
  "('w, 'ce, 'se, 've) store \<Rightarrow> relpath \<Rightarrow> relpath \<Rightarrow> bool \<Rightarrow> ('w, 'ce, 'se, 've, unit) store_op" where
  "store_rename st from to overwrite w =
     (if as_str from = as_str to then (Inr (), w)
      else
        then_eff (transfer_blob st from to overwrite w) (\<lambda>to_blob w.
        (let from_blob = entry_to_blob from in
         then_eff (map_err_st StorageErr (st_remove (storage st) from_blob w)) (\<lambda>_ w.
         then_eff (map_err_st VcsErr (vc_commit (vcs st) [from_blob, to_blob] (rename_message from to) w)) (\<lambda>_ w. (Inr (), w))))))"

definition store_log ::
  "('w, 'ce, 'se, 've) store \<Rightarrow> relpath option \<Rightarrow> 'w \<Rightarrow> ('ce, 'se, 've) store_error + commit list" where
  "store_log st e w = map_err VcsErr (vc_log (vcs st) w (map_option entry_to_blob e))"

text \<open>The loop of \<open>remove_recursive\<close>: remove each blob in turn, stop at the first error.\<close>

fun remove_blobs ::
  "('w, 'ce, 'se, 've) store \<Rightarrow> relpath list \<Rightarrow> relpath list \<Rightarrow> ('w, 'ce, 'se, 've, relpath list) store_op" where
  "remove_blobs st [] blobs w = (Inr blobs, w)"
| "remove_blobs st (e # es) blobs w =
     (let blob = entry_to_blob e in
      then_eff (map_err_st StorageErr (st_remove (storage st) blob w)) (\<lambda>_ w.
        remove_blobs st es (blobs @ [blob]) w))"

definition remove_recursive ::
  "('w, 'ce, 'se, 've) store \<Rightarrow> relpath \<Rightarrow> ('w, 'ce, 'se, 've, relpath list) store_op" where
  "remove_recursive st pre w =
     then_eff (store_list st (Some pre) w, w) (\<lambda>entries w.
     if entries = [] then (Inl (StoreNotFound (as_str pre)), w)
     else
       then_eff (remove_blobs st entries [] w) (\<lambda>blobs w.
       then_eff (map_err_st VcsErr (vc_commit (vcs st) blobs (remove_all_message pre) w)) (\<lambda>_ w.
         (Inr entries, w))))"

end
