(* ===== verification/Generate.thy ===== *)
theory Generate
  imports Rust_Prelude
begin

text \<open>
  Password generation (\<open>bypass-core/src/generate.rs\<close>).  The random source is the list of the values
  \<open>random_range(0..n)\<close> returns, as a function from the draw's number and the range's end.
\<close>

definition ALPHANUMERIC :: bytes where
  "ALPHANUMERIC = ''ABCDEFGHIJKLMNOPQRSTUVWXYZabcdefghijklmnopqrstuvwxyz0123456789''"

definition SYMBOLS :: bytes where
  "SYMBOLS = ''!@#$%^&*()-_=+[]{}|;:,.<>?/~''"

definition DEFAULT_LENGTH :: nat where "DEFAULT_LENGTH = 25"

definition alphabet :: "bool \<Rightarrow> bytes" where
  "alphabet with_symbols = (if with_symbols then ALPHANUMERIC @ SYMBOLS else ALPHANUMERIC)"

definition generate :: "(nat \<Rightarrow> nat \<Rightarrow> nat) \<Rightarrow> nat \<Rightarrow> bool \<Rightarrow> str" where
  "generate random_range len with_symbols =
     (if len = 0 then []
      else map (\<lambda>k. alphabet with_symbols ! random_range k (length (alphabet with_symbols))) [0..<len])"

lemma alphabets: "distinct (alphabet True)" "distinct (alphabet False)" "length (alphabet True) = 90" "length (alphabet False) = 62"
  by code_simp+

lemma alphabet_distinct: "distinct (alphabet b)"
  using alphabets by (cases b) simp_all

lemma alphabet_length: "length (alphabet b) = (if b then 90 else 62)"
  using alphabets by (cases b) simp_all

lemma alphabet_alnum: "list_all is_ascii_alnum (alphabet False)"
  by code_simp

lemma index_map:
  assumes "set s \<subseteq> set al"
  shows "\<exists>g. \<forall>i < length s. g i < length al \<and> al ! g i = s ! i"
proof -
  have "\<forall>i. \<exists>j. i < length s \<longrightarrow> j < length al \<and> al ! j = s ! i"
    using assms by (meson in_set_conv_nth nth_mem subsetD)
  then show ?thesis by (rule choice [THEN exE]) blast
qed

lemma generate_onto:
  assumes "length s = len" "set s \<subseteq> set (alphabet sy)"
  shows "\<exists>!g. (\<forall>k. g k < length (alphabet sy) \<and> (len \<le> k \<longrightarrow> g k = 0)) \<and> generate (\<lambda>k _. g k) len sy = s"
proof -
  let ?al = "alphabet sy"
  obtain h where h: "\<forall>i < length s. h i < length ?al \<and> ?al ! h i = s ! i"
    using index_map [OF assms(2)] by blast
  let ?g = "\<lambda>i. if i < len then h i else 0"
  have pos: "0 < length ?al" by (simp add: alphabet_length)
  have run: "generate (\<lambda>k _. g k) len sy = map (\<lambda>k. ?al ! g k) [0..<len]" for g
    by (simp add: generate_def)
  show ?thesis
  proof (rule ex1I [of _ ?g])
    have "map (\<lambda>k. ?al ! ?g k) [0..<len] = s"
      using h assms(1) by (intro nth_equalityI) auto
    then show "(\<forall>k. ?g k < length ?al \<and> (len \<le> k \<longrightarrow> ?g k = 0)) \<and> generate (\<lambda>k _. ?g k) len sy = s"
      using h assms(1) pos run by auto
  next
    fix g assume g: "(\<forall>k. g k < length ?al \<and> (len \<le> k \<longrightarrow> g k = 0)) \<and> generate (\<lambda>k _. g k) len sy = s"
    have "g i = ?g i" for i
    proof (cases "i < len")
      case True
      have "s ! i = map (\<lambda>k. ?al ! g k) [0..<len] ! i" using g run [of g] by metis
      then have "?al ! g i = s ! i" using True by simp
      also have "\<dots> = ?al ! h i" using h True assms(1) by simp
      finally have eq: "?al ! g i = ?al ! h i" .
      have lt: "g i < length ?al" "h i < length ?al" using True g h assms(1) by auto
      have "g i = h i" using eq by (simp only: nth_eq_iff_index_eq [OF alphabet_distinct lt])
      then show ?thesis using True by simp
    qed (use g in simp)
    then show "g = ?g" by blast
  qed
qed

lemma generate_chars: "\<forall>k n. 0 < n \<longrightarrow> rr k n < n \<Longrightarrow> set (generate rr len sy) \<subseteq> set (alphabet sy)"
  by (auto simp: generate_def alphabet_length)

lemma generate_length [simp]: "length (generate rr len sy) = len"
  by (simp add: generate_def)

text \<open>The generator is correct and unbiased in shape: for every random source that respects its range
  the password has the requested length and only characters of the advertised alphabet (letters and
  digits alone when symbols are off), and, conversely, every such password is the result for exactly
  one sequence of draws, so uniform draws give uniform passwords.\<close>

lemma generate_exact:
  assumes "\<forall>k n. 0 < n \<longrightarrow> rr k n < n" "length s = len" "set s \<subseteq> set (alphabet sy)"
  shows "length (generate rr len sy) = len \<and> set (generate rr len sy) \<subseteq> set (alphabet sy) \<and> list_all is_ascii_alnum (generate rr len False) \<and>
    (\<exists>!g. (\<forall>k. g k < length (alphabet sy) \<and> (len \<le> k \<longrightarrow> g k = 0)) \<and> generate (\<lambda>k _. g k) len sy = s)"
proof (intro conjI)
  have p: "0 < length (alphabet b)" for b by (simp add: alphabet_length)
  show "length (generate rr len sy) = len" by simp
  show "set (generate rr len sy) \<subseteq> set (alphabet sy)" by (rule generate_chars [OF assms(1)])
  show "list_all is_ascii_alnum (generate rr len False)"
    using assms(1) p alphabet_alnum by (auto simp: generate_def list_all_iff)
next
  show "\<exists>!g. (\<forall>k. g k < length (alphabet sy) \<and> (len \<le> k \<longrightarrow> g k = 0)) \<and> generate (\<lambda>k _. g k) len sy = s"
    by (rule generate_onto [OF assms(2,3)])
qed

end
