(* ===== verification/Entry_Format.thy ===== *)
theory Entry_Format
  imports Rust_Text
begin

text \<open>
  The multi-line entry format (\<open>bypass-core/src/entry.rs\<close>): first line the password, then
  \<open>key: value\<close> fields; and the search for the \<open>otpauth://\<close> line (\<open>bypass-core/src/otp.rs\<close>).
  \<open>uni\<close> is the standard library's lower-casing of non-ASCII strings; the TOTP crate
  (\<open>from_url_unchecked\<close>, \<open>generate_current\<close>) is a pair of parameters.
\<close>

section \<open>Entries\<close>

datatype entry_error = EntryNotUtf8

record entry =
  e_password :: str
  e_fields :: "(str \<times> str) list"

text \<open>\<open>l.strip_suffix('\r').unwrap_or(l)\<close>\<close>

definition strip_cr :: "str \<Rightarrow> str" where
  "strip_cr l = unwrap_or l (strip_suffix [CR] l)"

fun parse_fields :: "(str \<Rightarrow> str) \<Rightarrow> str list \<Rightarrow> (str \<times> str) list" where
  "parse_fields uni [] = []"
| "parse_fields uni (line # rest) =
     (if line = [] then parse_fields uni rest
      else (case split_once (CHR '':'') line of
          None \<Rightarrow> parse_fields uni rest
        | Some (k, v) \<Rightarrow>
            (let key = trim k in
             if key = [] then parse_fields uni rest
             else (to_lowercase uni key, trim v) # parse_fields uni rest)))"

definition parse_str :: "(str \<Rightarrow> str) \<Rightarrow> str \<Rightarrow> entry" where
  "parse_str uni text =
     (case map strip_cr (split_char NL text) of
        [] \<Rightarrow> \<lparr>e_password = [], e_fields = []\<rparr>
      | first # rest \<Rightarrow> \<lparr>e_password = first, e_fields = parse_fields uni rest\<rparr>)"

definition parse_entry_bytes :: "(str \<Rightarrow> str) \<Rightarrow> bytes \<Rightarrow> entry_error + entry" where
  "parse_entry_bytes uni b =
     (case from_utf8 b of None \<Rightarrow> Inl EntryNotUtf8 | Some text \<Rightarrow> Inr (parse_str uni text))"

definition field :: "(str \<Rightarrow> str) \<Rightarrow> entry \<Rightarrow> str \<Rightarrow> str option" where
  "field uni e name =
     (let needle = to_lowercase uni name in
      map_option snd (find (\<lambda>(k, _). k = needle) (e_fields e)))"

section \<open>The \<open>otpauth\<close> line\<close>

datatype otp_error = NoOtpauthUri | ParseUri str | GenerateCode str

definition find_uri :: "str \<Rightarrow> str option" where
  "find_uri plaintext = find (\<lambda>l. prefix ''otpauth://'' l) (map (\<lambda>l. trim (strip_cr l)) (lines plaintext))"

definition otp_parse :: "(str \<Rightarrow> str + 'totp) \<Rightarrow> str \<Rightarrow> otp_error + 'totp" where
  "otp_parse from_url plaintext =
     (case find_uri plaintext of None \<Rightarrow> Inl NoOtpauthUri
      | Some uri \<Rightarrow> map_err ParseUri (from_url uri))"

definition current_code :: "(str \<Rightarrow> str + 'totp) \<Rightarrow> ('totp \<Rightarrow> str + str) \<Rightarrow> str \<Rightarrow> otp_error + str" where
  "current_code from_url generate_current plaintext =
     and_then (otp_parse from_url plaintext) (\<lambda>totp. map_err GenerateCode (generate_current totp))"

section \<open>Lemmas\<close>

lemma strip_cr_id: "CR \<notin> set l \<Longrightarrow> strip_cr l = l"
  by (auto simp: strip_cr_def strip_suffix_def unwrap_or_def suffix_def)

lemma strip_cr_app [simp]: "strip_cr (l @ [CR]) = l"
  by (simp add: strip_cr_def unwrap_or_def)

lemma set_strip_cr: "set (strip_cr l) \<subseteq> set l"
  by (auto simp: strip_cr_def strip_suffix_def unwrap_or_def dest: in_set_takeD split: if_splits)

lemma parse_str_cons:
  "NL \<notin> set l \<Longrightarrow> parse_str uni (l @ NL # r) =
     \<lparr>e_password = strip_cr l, e_fields = parse_fields uni (map strip_cr (split_char NL r))\<rparr>"
  by (simp add: parse_str_def split_char_append)

lemma parse_str_one:
  "NL \<notin> set l \<Longrightarrow> parse_str uni l = \<lparr>e_password = strip_cr l, e_fields = []\<rparr>"
  by (simp add: parse_str_def split_char_unsplit)

lemma find_map_of: "map_option snd (find (\<lambda>(k, _). k = x) kvs) = map_of kvs x"
  by (induction kvs) auto

lemma field_map_of: "field uni e name = map_of (e_fields e) (to_lowercase uni name)"
  by (simp add: field_def find_map_of)

lemma trim_space: "trim (CHR '' '' # v) = trim v"
proof -
  have "byte (CHR '' '') = 32" by (simp add: byte_def)
  then show ?thesis by (simp add: trim_def trim_chars_def ascii_ws del: chars.simps)
qed

text \<open>A field that survives being written as one line and read back.\<close>

definition field_ok :: "str \<times> str \<Rightarrow> bool" where
  "field_ok kv \<longleftrightarrow> (case kv of (k, v) \<Rightarrow>
     k \<noteq> [] \<and> is_ascii_str k \<and> list_all (\<lambda>c. \<not> is_ascii_upper c) k \<and> CHR '':'' \<notin> set k \<and>
     NL \<notin> set k \<and> CR \<notin> set k \<and> trim k = k \<and> NL \<notin> set v \<and> CR \<notin> set v \<and> trim v = v)"

definition field_line :: "str \<times> str \<Rightarrow> str" where
  "field_line kv = fst kv @ '': '' @ snd kv"

lemma map_lower_id: "list_all (\<lambda>c. \<not> is_ascii_upper c) k \<Longrightarrow> map to_ascii_lower k = k"
  by (induction k) (auto simp: to_ascii_lower_def)

lemma parse_field_line:
  assumes "field_ok kv"
  shows "parse_fields uni (field_line kv # rest) = kv # parse_fields uni rest"
proof -
  obtain k v where kv: "kv = (k, v)" by (cases kv)
  have "split_once (CHR '':'') (field_line kv) = Some (k, CHR '' '' # v)"
    using assms by (simp add: kv field_line_def split_once_Some_iff field_ok_def)
  moreover have "field_line kv \<noteq> []" by (simp add: field_line_def)
  ultimately show ?thesis
    using assms by (simp add: kv field_ok_def trim_space to_lowercase_ascii map_lower_id)
qed

lemma field_line_clean: "field_ok kv \<Longrightarrow> NL \<notin> set (field_line kv) \<and> CR \<notin> set (field_line kv)"
  by (cases kv) (auto simp: field_ok_def field_line_def)

lemma parse_field_lines:
  assumes "list_all field_ok fs"
  shows "parse_fields uni (map strip_cr (split_char NL (concat (map (\<lambda>kv. field_line kv @ [NL]) fs) @ r))) =
         fs @ parse_fields uni (map strip_cr (split_char NL r))"
  using assms
proof (induction fs)
  case (Cons kv fs)
  then have c: "NL \<notin> set (field_line kv)" "CR \<notin> set (field_line kv)" "field_ok kv"
    by (auto dest: field_line_clean)
  with Cons show ?case
    by (simp add: split_char_append parse_field_line strip_cr_id del: parse_fields.simps(2))
qed simp

lemma password_no_newline: "NL \<notin> set (e_password (parse_str uni s))"
proof -
  obtain q qs where q: "split_char NL s = q # qs"
    using split_char_not_Nil by (metis neq_Nil_conv)
  have "NL \<notin> set q" using split_char_no_sep [of q NL s] q by simp
  then show ?thesis using set_strip_cr [of q] by (auto simp: parse_str_def q)
qed

lemma parse_fields_keys:
  "\<forall>line \<in> set ls. is_ascii_str line \<Longrightarrow> (k, v) \<in> set (parse_fields uni ls) \<Longrightarrow> map to_ascii_lower k = k"
proof (induction ls)
  case (Cons l ls)
  have "is_ascii_str (trim a)" if "split_once (CHR '':'') l = Some (a, b)" for a b
  proof -
    have "set (trim a) \<subseteq> set l"
      using that set_trim [of a] by (auto simp: split_once_Some_iff)
    with Cons.prems(1) show ?thesis by (auto simp: is_ascii_str_def list_all_iff)
  qed
  with Cons show ?case
    by (auto simp: Let_def to_lowercase_ascii comp_def split: if_splits option.splits)
qed simp

section \<open>Properties\<close>

text \<open>A field written as one line, whatever its key and value look like.\<close>

definition field_plain :: "str \<times> str \<Rightarrow> bool" where
  "field_plain kv \<longleftrightarrow> (case kv of (k, v) \<Rightarrow>
     CHR '':'' \<notin> set k \<and> NL \<notin> set k \<and> NL \<notin> set v \<and> (v = [] \<or> last v \<noteq> CR))"

lemma parse_plain_lines:
  assumes "list_all field_plain fs"
  shows "parse_fields uni (map strip_cr (split_char NL (concat (map (\<lambda>kv. field_line kv @ [NL]) fs)))) =
         map (\<lambda>(k, v). (to_lowercase uni (trim k), trim v)) (filter (\<lambda>(k, v). trim k \<noteq> []) fs)"
  using assms
proof (induction fs)
  case (Cons kv fs)
  obtain k v where kv: "kv = (k, v)" by (cases kv)
  have p: "CHR '':'' \<notin> set k" "NL \<notin> set (field_line kv)" "v = [] \<or> last v \<noteq> CR"
    using Cons.prems by (auto simp: kv field_plain_def field_line_def)
  have "field_line kv \<noteq> []" "last (field_line kv) \<noteq> CR" using p(3) by (auto simp: kv field_line_def)
  then have cr: "strip_cr (field_line kv) = field_line kv"
    by (cases "field_line kv" rule: rev_cases) (auto simp: strip_cr_def strip_suffix_def unwrap_or_def suffix_def)
  have "split_once (CHR '':'') (field_line kv) = Some (k, CHR '' '' # v)"
    using p(1) by (simp add: kv field_line_def split_once_Some_iff)
  then have "parse_fields uni (field_line kv # rest) =
      (if trim k = [] then parse_fields uni rest else (to_lowercase uni (trim k), trim v) # parse_fields uni rest)" for rest
    using \<open>field_line kv \<noteq> []\<close> by (simp add: trim_space Let_def)
  with Cons p(2) cr kv show ?case by (simp add: split_char_append del: parse_fields.simps(2))
qed (simp add: strip_cr_id)

lemma field_ok_plain: "field_ok kv \<Longrightarrow> field_plain kv"
  by (cases kv) (auto simp: field_ok_def field_plain_def dest: last_in_set)



text \<open>Field lookup returns the value of the first field whose lower-cased key is the lower-cased
  name; on ASCII bodies and names it does not depend on the case of the name at all.\<close>

lemma field_first_match:
  "field uni (parse_str uni body) name = map_of (e_fields (parse_str uni body)) (to_lowercase uni name) \<and>
   (is_ascii_str name \<longrightarrow>
      field uni e (map to_ascii_lower name) = field uni e name)"
  by (simp add: field_map_of to_lowercase_def o_def)

end
