(* ===== verification/Messaging_Host.thy ===== *)
theory Messaging_Host
  imports Pass_Store Generate Entry_Format
begin

text \<open>
  The native-messaging host (\<open>bypass-cli/src/messaging_host.rs\<close>): length-prefixed frames on standard
  input and output, one request and one reply at a time.  JSON is a pair of functions; the random
  source of request number \<open>i\<close> is \<open>rng i\<close>.  The text of an error reply is the value it is rendered from.
\<close>

section \<open>Messages\<close>

definition MAX_REPLY_BYTES :: nat where "MAX_REPLY_BYTES = 512 * 1024"

datatype request_body =
    Ls "str option"
  | Find str
  | Show str "str option"
  | Insert str str bool
  | Generate str "nat option" "bool option" bool bool
  | Otp str
  | Rm str bool

record request =
  rq_id :: nat
  rq_body :: request_body

datatype ok_body = Entries "str list" | Plaintext str | Field str | Password str | Code str | Empty

datatype ('ce, 'se, 've) host_error =
    BadPath path_error
  | StoreFailed "('ce, 'se, 've) store_error"
  | EntryNotText
  | ParseBody entry_error
  | NoField str
  | TotpFailed otp_error
  | MalformedRequest
  | ReplyTooLarge nat

datatype ('ce, 'se, 've) reply = OkReply nat ok_body | ErrReply nat "('ce, 'se, 've) host_error"

section \<open>Frames\<close>

datatype frame_error = FrameTooLarge nat | FrameBody | FrameTooLargeForPrefix | FrameWrite str

definition le_bytes :: "nat \<Rightarrow> bytes" where
  "le_bytes n = [char_of (n mod 256), char_of (n div 256 mod 256), char_of (n div 65536 mod 256), char_of (n div 16777216 mod 256)]"

definition from_le_bytes :: "bytes \<Rightarrow> nat" where
  "from_le_bytes b = byte (b ! 0) + 256 * byte (b ! 1) + 65536 * byte (b ! 2) + 16777216 * byte (b ! 3)"

text \<open>\<open>read_exact\<close> on what is left of the input; when that is too short, everything left is consumed.\<close>

definition read_frame :: "bytes \<Rightarrow> (frame_error + bytes option) \<times> bytes" where
  "read_frame inp =
     (if length inp < 4 then (Inr None, [])
      else
        (let len = from_le_bytes (take 4 inp); inp = drop 4 inp in
         if MAX_REPLY_BYTES < len then (Inl (FrameTooLarge len), inp)
         else if length inp < len then (Inl FrameBody, [])
         else (Inr (Some (take len inp)), drop len inp)))"

record 'o out_sink =
  os_write :: "bytes \<Rightarrow> ('o, str, unit) eff"
  os_flush :: "('o, str, unit) eff"

definition write_frame :: "'o out_sink \<Rightarrow> bytes \<Rightarrow> ('o, frame_error, unit) eff" where
  "write_frame S body out =
     (if 2 ^ 32 \<le> length body then (Inl FrameTooLargeForPrefix, out)
      else
        then_eff (map_err_st FrameWrite (os_write S (le_bytes (length body)) out)) (\<lambda>_ out.
        then_eff (map_err_st FrameWrite (os_write S body out)) (\<lambda>_ out.
          map_err_st FrameWrite (os_flush S out))))"

section \<open>Dispatch\<close>

definition parse_path :: "str \<Rightarrow> ('ce, 'se, 've) host_error + relpath" where
  "parse_path s = map_err BadPath (relpath_new s)"

definition parse_optional_path :: "str option \<Rightarrow> ('ce, 'se, 've) host_error + relpath option" where
  "parse_optional_path x =
     (case x of None \<Rightarrow> Inr None
      | Some s \<Rightarrow> (if s = [] then Inr None else (case parse_path s of Inl e \<Rightarrow> Inl e | Inr p \<Rightarrow> Inr (Some p))))"

definition reply_of :: "nat \<Rightarrow> ('ce, 'se, 've) host_error + ok_body \<Rightarrow> ('ce, 'se, 've) reply" where
  "reply_of i r = (case r of Inr b \<Rightarrow> OkReply i b | Inl e \<Rightarrow> ErrReply i e)"

definition extract_field :: "(str \<Rightarrow> str) \<Rightarrow> nat \<Rightarrow> bytes \<Rightarrow> str \<Rightarrow> ('ce, 'se, 've) reply" where
  "extract_field uni i plaintext name =
     (case parse_entry_bytes uni plaintext of
        Inl e \<Rightarrow> ErrReply i (ParseBody e)
      | Inr parsed \<Rightarrow> (case field uni parsed name of Some v \<Rightarrow> OkReply i (Field v) | None \<Rightarrow> ErrReply i (NoField name)))"

text \<open>\<open>--in-place\<close>: the new password and everything from the first line end of the old body.\<close>

definition rotate_body :: "str \<Rightarrow> bytes \<Rightarrow> bytes" where
  "rotate_body password existing = password @ dropWhile (\<lambda>c. c \<noteq> NL) existing"

definition generate_op ::
  "('w, 'ce, 'se, 've) store \<Rightarrow> (nat \<Rightarrow> nat \<Rightarrow> nat) \<Rightarrow> nat \<Rightarrow> relpath \<Rightarrow> nat option \<Rightarrow> bool option \<Rightarrow> bool \<Rightarrow> bool \<Rightarrow> 'w \<Rightarrow>
    ('ce, 'se, 've) reply \<times> 'w" where
  "generate_op st rng i rel len symbols in_place force w =
     (let password = generate rng (unwrap_or DEFAULT_LENGTH len) (unwrap_or True symbols);
          (result, w) =
            (if in_place then
               (case store_show st rel w of
                  Inl e \<Rightarrow> (Inl e, w)
                | Inr existing \<Rightarrow> store_insert st rel (rotate_body password existing) True w)
             else store_insert st rel password force w) in
      (reply_of i (map_err StoreFailed (map_sum id (\<lambda>_. Password password) result)), w))"

definition host_dispatch ::
  "(str \<Rightarrow> str) \<Rightarrow> (str \<Rightarrow> otp_error + str) \<Rightarrow> ('w, 'ce, 'se, 've) store \<Rightarrow> (nat \<Rightarrow> nat \<Rightarrow> nat) \<Rightarrow> request \<Rightarrow> 'w \<Rightarrow>
    ('ce, 'se, 've) reply \<times> 'w" where
  "host_dispatch uni totp st rng req w =
     (let i = rq_id req in
      case rq_body req of
        Ls subpath \<Rightarrow>
          (case parse_optional_path subpath of Inl e \<Rightarrow> (ErrReply i e, w)
           | Inr sub \<Rightarrow> (reply_of i (map_err StoreFailed (map_sum id (\<lambda>es. Entries (map as_str es)) (store_list st sub w))), w))
      | Find pattern \<Rightarrow>
          (reply_of i (map_err StoreFailed (map_sum id (\<lambda>es. Entries (map as_str es)) (store_find st pattern w))), w)
      | Show path fld \<Rightarrow>
          (case parse_path path of Inl e \<Rightarrow> (ErrReply i e, w)
           | Inr rel \<Rightarrow>
               (case store_show st rel w of Inl e \<Rightarrow> (ErrReply i (StoreFailed e), w)
                | Inr plaintext \<Rightarrow>
                    (case fld of
                       Some name \<Rightarrow> (extract_field uni i plaintext name, w)
                     | None \<Rightarrow> (case from_utf8 plaintext of None \<Rightarrow> (ErrReply i EntryNotText, w)
                         | Some s \<Rightarrow> (OkReply i (Plaintext s), w)))))
      | Insert path plaintext overwrite \<Rightarrow>
          (case parse_path path of Inl e \<Rightarrow> (ErrReply i e, w)
           | Inr rel \<Rightarrow>
               (case store_insert st rel plaintext overwrite w of
                  (Inr _, w) \<Rightarrow> (OkReply i Empty, w) | (Inl e, w) \<Rightarrow> (ErrReply i (StoreFailed e), w)))
      | Generate path len symbols in_place force \<Rightarrow>
          (case parse_path path of Inl e \<Rightarrow> (ErrReply i e, w)
           | Inr rel \<Rightarrow> generate_op st rng i rel len symbols in_place force w)
      | Otp path \<Rightarrow>
          (case parse_path path of Inl e \<Rightarrow> (ErrReply i e, w)
           | Inr rel \<Rightarrow>
               (case store_show st rel w of Inl e \<Rightarrow> (ErrReply i (StoreFailed e), w)
                | Inr plaintext \<Rightarrow>
                    (case from_utf8 plaintext of None \<Rightarrow> (ErrReply i EntryNotText, w)
                     | Some text \<Rightarrow>
                         (case totp text of Inr code \<Rightarrow> (OkReply i (Code code), w)
                          | Inl e \<Rightarrow> (ErrReply i (TotpFailed e), w)))))
      | Rm path rec \<Rightarrow>
          (case parse_path path of Inl e \<Rightarrow> (ErrReply i e, w)
           | Inr rel \<Rightarrow>
               (case (if rec then (case remove_recursive st rel w of (r, w) \<Rightarrow> (map_sum id (\<lambda>_. ()) r, w)) else store_remove st rel w) of
                  (Inr _, w) \<Rightarrow> (OkReply i Empty, w) | (Inl e, w) \<Rightarrow> (ErrReply i (StoreFailed e), w))))"

section \<open>The loop\<close>

record ('ce, 'se, 've) host_json =
  hj_request :: "bytes \<Rightarrow> str + request"
  hj_reply :: "('ce, 'se, 've) reply \<Rightarrow> str + bytes"

datatype host_failure = ReadFrame frame_error | EncodeReply str | WriteFrame frame_error | EncodePanic

definition host_answer ::
  "(str \<Rightarrow> str) \<Rightarrow> (str \<Rightarrow> otp_error + str) \<Rightarrow> ('w, 'ce, 'se, 've) store \<Rightarrow> ('ce, 'se, 've) host_json \<Rightarrow> (nat \<Rightarrow> nat \<Rightarrow> nat) \<Rightarrow> bytes \<Rightarrow>
    ('w, host_failure, bytes) eff" where
  "host_answer uni totp st J rng req_bytes w =
     (let (reply, w) =
        (case hj_request J req_bytes of Inr req \<Rightarrow> host_dispatch uni totp st rng req w
         | Inl _ \<Rightarrow> (ErrReply 0 MalformedRequest, w)) in
      case hj_reply J reply of Inl e \<Rightarrow> (Inl (EncodeReply e), w)
      | Inr b \<Rightarrow>
          (if MAX_REPLY_BYTES < length b then
             (case hj_reply J (ErrReply 0 (ReplyTooLarge (length b))) of Inl _ \<Rightarrow> (Inl EncodePanic, w) | Inr b \<Rightarrow> (Inr b, w))
           else (Inr b, w)))"

text \<open>\<open>run\<close>: the loop ends at the end of the input or at the first failure; each turn takes at least the
  four bytes of a length prefix, so it ends.\<close>

lemma read_frame_shorter: "read_frame inp = (Inr (Some b), rest) \<Longrightarrow> length rest < length inp"
  by (auto simp: read_frame_def Let_def split: if_splits)

function host_run ::
  "(str \<Rightarrow> str) \<Rightarrow> (str \<Rightarrow> otp_error + str) \<Rightarrow> ('w, 'ce, 'se, 've) store \<Rightarrow> ('ce, 'se, 've) host_json \<Rightarrow> 'o out_sink \<Rightarrow>
    (nat \<Rightarrow> nat \<Rightarrow> nat \<Rightarrow> nat) \<Rightarrow> nat \<Rightarrow> bytes \<Rightarrow> 'w \<times> 'o \<Rightarrow> (host_failure + unit) \<times> 'w \<times> 'o" where
  "host_run uni totp st J S rng i inp wo =
     (case read_frame inp of
        (Inl e, _) \<Rightarrow> (Inl (ReadFrame e), wo)
      | (Inr None, _) \<Rightarrow> (Inr (), wo)
      | (Inr (Some req_bytes), rest) \<Rightarrow>
          (case host_answer uni totp st J (rng i) req_bytes (fst wo) of
             (Inl e, w) \<Rightarrow> (Inl e, (w, snd wo))
           | (Inr b, w) \<Rightarrow>
               (case write_frame S b (snd wo) of
                  (Inl e, out) \<Rightarrow> (Inl (WriteFrame e), (w, out))
                | (Inr _, out) \<Rightarrow> host_run uni totp st J S rng (i + 1) rest (w, out))))"
  by pat_completeness auto
termination
  by (relation "measure (\<lambda>(_, _, _, _, _, _, _, inp, _). length inp)") (auto intro: read_frame_shorter [OF sym])

declare host_run.simps [simp del]

section \<open>Lemmas\<close>

definition frame :: "bytes \<Rightarrow> bytes" where
  "frame b = le_bytes (length b) @ b"

lemma from_le_bytes_le_bytes: "n < 2 ^ 32 \<Longrightarrow> from_le_bytes (le_bytes n) = n"
proof -
  assume "n < 2 ^ 32"
  then have "n div 16777216 mod 256 = n div 16777216" by simp
  moreover have "n mod 256 + 256 * (n div 256 mod 256) = n mod 65536"
    by (simp add: mod_mult2_eq [of n 256 256, simplified] add.commute)
  moreover have "n mod 65536 + 65536 * (n div 65536 mod 256) = n mod 16777216"
    by (simp add: mod_mult2_eq [of n 65536 256, simplified] add.commute)
  ultimately show ?thesis
    by (simp add: from_le_bytes_def le_bytes_def)
qed

lemma read_frame_frame: "length b \<le> MAX_REPLY_BYTES \<Longrightarrow> read_frame (frame b @ rest) = (Inr (Some b), rest)"
proof -
  assume b: "length b \<le> MAX_REPLY_BYTES"
  then have "from_le_bytes (le_bytes (length b)) = length b"
    by (intro from_le_bytes_le_bytes) (simp add: MAX_REPLY_BYTES_def)
  moreover have "length (le_bytes (length b)) = 4" by (simp add: le_bytes_def)
  ultimately show ?thesis using b by (simp add: read_frame_def frame_def Let_def)
qed

text \<open>A sink that never fails and keeps what is written.\<close>

definition sink_keeps :: "'o out_sink \<Rightarrow> ('o \<Rightarrow> bytes) \<Rightarrow> bool" where
  "sink_keeps S written \<longleftrightarrow>
     (\<forall>b out. \<exists>out'. os_write S b out = (Inr (), out') \<and> written out' = written out @ b) \<and>
     (\<forall>out. \<exists>out'. os_flush S out = (Inr (), out') \<and> written out' = written out)"

lemma write_frame_keeps:
  assumes "sink_keeps S written" "length b < 2 ^ 32"
  obtains out' where "write_frame S b out = (Inr (), out')" "written out' = written out @ frame b"
proof -
  obtain o1 where 1: "os_write S (le_bytes (length b)) out = (Inr (), o1)" "written o1 = written out @ le_bytes (length b)"
    using assms(1) unfolding sink_keeps_def by blast
  obtain o2 where 2: "os_write S b o1 = (Inr (), o2)" "written o2 = written o1 @ b"
    using assms(1) unfolding sink_keeps_def by blast
  obtain o3 where 3: "os_flush S o2 = (Inr (), o3)" "written o3 = written o2"
    using assms(1) unfolding sink_keeps_def by blast
  show thesis by (rule that [of o3]) (use 1 2 3 assms(2) in \<open>simp_all add: write_frame_def frame_def\<close>)
qed

text \<open>The answers to a list of requests, one after the other on the same store.\<close>

fun answers ::
  "(str \<Rightarrow> str) \<Rightarrow> (str \<Rightarrow> otp_error + str) \<Rightarrow> ('w, 'ce, 'se, 've) store \<Rightarrow> ('ce, 'se, 've) host_json \<Rightarrow> (nat \<Rightarrow> nat \<Rightarrow> nat \<Rightarrow> nat) \<Rightarrow>
    nat \<Rightarrow> bytes list \<Rightarrow> ('w, host_failure, bytes list) eff" where
  "answers uni totp st J rng i [] w = (Inr [], w)"
| "answers uni totp st J rng i (b # bs) w =
     then_eff (host_answer uni totp st J (rng i) b w) (\<lambda>r w.
     then_eff (answers uni totp st J rng (i + 1) bs w) (\<lambda>rs w. (Inr (r # rs), w)))"

lemma host_answer_bound:
  assumes "host_answer uni totp st J rng b w = (Inr r, w')"
    and "\<And>n x. hj_reply J (ErrReply 0 (ReplyTooLarge n)) = Inr x \<Longrightarrow> length x \<le> MAX_REPLY_BYTES"
  shows "length r \<le> MAX_REPLY_BYTES"
proof -
  obtain reply v where "(case hj_request J b of Inr req \<Rightarrow> host_dispatch uni totp st rng req w
         | Inl _ \<Rightarrow> (ErrReply 0 MalformedRequest, w)) = (reply, v)" by (metis surj_pair)
  with assms show ?thesis by (auto simp: host_answer_def split: sum.splits if_splits)
qed

lemma host_run_answers:
  assumes "sink_keeps S written" "\<And>n x. hj_reply J (ErrReply 0 (ReplyTooLarge n)) = Inr x \<Longrightarrow> length x \<le> MAX_REPLY_BYTES"
    and "\<forall>b \<in> set bs. length b \<le> MAX_REPLY_BYTES" "answers uni totp st J rng i bs w = (Inr rs, w')"
  shows "\<exists>out'. host_run uni totp st J S rng i (concat (map frame bs)) (w, out) = (Inr (), (w', out')) \<and>
    written out' = written out @ concat (map frame rs) \<and> length rs = length bs \<and> (\<forall>r \<in> set rs. length r \<le> MAX_REPLY_BYTES)"
  using assms(3,4)
proof (induction bs arbitrary: i w out rs)
  case Nil
  then show ?case by (simp add: host_run.simps read_frame_def)
next
  case (Cons b bs)
  from Cons.prems(2) obtain r w1 rs1 where r: "host_answer uni totp st J (rng i) b w = (Inr r, w1)"
      "answers uni totp st J rng (i + 1) bs w1 = (Inr rs1, w')" "rs = r # rs1"
    by (auto simp: then_eff_Inr_iff)
  have len: "length r \<le> MAX_REPLY_BYTES" using host_answer_bound [OF r(1)] assms(2) by blast
  then have "length r < 2 ^ 32" by (simp add: MAX_REPLY_BYTES_def)
  then obtain o1 where o1: "write_frame S r out = (Inr (), o1)" "written o1 = written out @ frame r"
    using write_frame_keeps [OF assms(1)] by blast
  have "host_run uni totp st J S rng i (concat (map frame (b # bs))) (w, out) =
      host_run uni totp st J S rng (i + 1) (concat (map frame bs)) (w1, o1)"
    using Cons.prems(1) r(1) o1(1) by (subst host_run.simps) (simp add: read_frame_frame)
  with Cons.IH [of "i + 1" w1 rs1 o1] Cons.prems(1) r(2,3) o1(2) len show ?case by auto
qed

text \<open>A frame that was read is a prefix of the input.\<close>

lemma le_bytes_from: "length b = 4 \<Longrightarrow> le_bytes (from_le_bytes b) = b"
proof -
  assume "length b = 4"
  then obtain p q r s where b: "b = [p, q, r, s]" by (auto simp: numeral_eq_Suc length_Suc_conv)
  have u: "byte p < 256" "byte q < 256" "byte r < 256" "byte s < 256" by (simp_all add: byte_def)
  let ?n = "byte p + 256 * byte q + 65536 * byte r + 16777216 * byte s"
  have digit: "(x + k * y) div k = y" "(x + k * y) mod k = x" if "x < k" for x k y :: nat
    using that by simp_all
  have "?n mod 256 = byte p" using digit(2) [OF u(1), of "byte q + 256 * byte r + 65536 * byte s"] by (simp add: algebra_simps)
  moreover have "?n div 256 = byte q + 256 * (byte r + 256 * byte s)"
    using digit(1) [OF u(1), of "byte q + 256 * byte r + 65536 * byte s"] by (simp add: algebra_simps)
  moreover have "?n div 65536 = byte r + 256 * byte s"
    using digit(1) [of "byte p + 256 * byte q" 65536 "byte r + 256 * byte s"] u by (simp add: algebra_simps)
  moreover have "?n div 16777216 = byte s + 256 * 0"
    using digit(1) [of "byte p + 256 * byte q + 65536 * byte r" 16777216 "byte s"] u by (simp add: algebra_simps)
  ultimately have "le_bytes ?n = [char_of (byte p), char_of (byte q), char_of (byte r), char_of (byte s)]"
    unfolding le_bytes_def by (simp only: digit(2) [OF u(2)] digit(2) [OF u(3)] digit(2) [OF u(4)])
  then show ?thesis by (simp add: from_le_bytes_def b byte_def)
qed

lemma read_frame_Some:
  assumes "read_frame inp = (Inr (Some b), rest)"
  shows "inp = frame b @ rest \<and> length b \<le> MAX_REPLY_BYTES"
proof -
  let ?len = "from_le_bytes (take 4 inp)"
  have h: "4 \<le> length inp" "?len \<le> MAX_REPLY_BYTES" "?len \<le> length (drop 4 inp)" "b = take ?len (drop 4 inp)" "rest = drop ?len (drop 4 inp)"
    using assms by (auto simp: read_frame_def Let_def split: if_splits)
  have "length b = ?len" using h(3,4) by simp
  moreover have "le_bytes ?len = take 4 inp" using h(1) by (intro le_bytes_from) simp
  ultimately have "frame b @ rest = take 4 inp @ take ?len (drop 4 inp) @ drop ?len (drop 4 inp)"
    using h(4,5) by (simp add: frame_def)
  also have "\<dots> = inp" by (simp only: append_take_drop_id)
  finally show ?thesis using h(2) \<open>length b = ?len\<close> by simp
qed

lemma read_frame_None: "read_frame inp = (Inr None, rest) \<Longrightarrow> length inp < 4"
  by (auto simp: read_frame_def Let_def split: if_splits)

lemma host_answer_err: "host_answer uni totp st J rng b w = (Inl e, w') \<Longrightarrow> e \<noteq> ReadFrame x"
  by (auto simp: host_answer_def Let_def split: sum.splits if_splits prod.splits)

text \<open>What the loop has done when it ends: frames taken from the front of the input, one answer for each.\<close>

definition loop_done ::
  "('o \<Rightarrow> bytes) \<Rightarrow> ('w \<Rightarrow> bytes list \<Rightarrow> (host_failure + bytes list) \<times> 'w) \<Rightarrow> bytes \<Rightarrow> 'w \<Rightarrow> 'o \<Rightarrow> host_failure + unit \<Rightarrow> 'w \<Rightarrow> 'o \<Rightarrow> bool" where
  "loop_done written ans inp w out r w' out' \<longleftrightarrow>
     (\<exists>bs rs tail. inp = concat (map frame bs) @ tail \<and> 4 * length bs \<le> length inp \<and>
        written out' = written out @ concat (map frame rs) \<and> length rs \<le> length bs \<and> length bs \<le> length rs + 1 \<and>
        (r = Inr () \<longrightarrow> length tail < 4 \<and> ans w bs = (Inr rs, w')) \<and>
        (\<forall>e. r = Inl (ReadFrame e) \<longrightarrow> fst (read_frame tail) = Inl e \<and> ans w bs = (Inr rs, w')))"

lemma loop_done_stop:
  assumes "inp = frame b @ rest" "written out' = written out" "\<forall>e. r \<noteq> Inl (ReadFrame e)" "r \<noteq> Inr ()"
  shows "loop_done written ans inp w out r w' out'"
  unfolding loop_done_def using assms
  by (intro exI [of _ "[b]"] exI [of _ "[]"] exI [of _ rest]) (auto simp: frame_def le_bytes_def)

lemma host_run_done:
  assumes "sink_keeps S written" "host_run uni totp st J S rng i inp (w, out) = (r, (w', out'))"
  shows "loop_done written (\<lambda>w bs. answers uni totp st J rng i bs w) inp w out r w' out'"
  using assms(2)
proof (induction inp arbitrary: i w out rule: measure_induct_rule [of length])
  case (less inp)
  obtain fr rest where f: "read_frame inp = (fr, rest)" by fastforce
  show ?case
  proof (cases fr)
    case (Inl e)
    with f less.prems have "r = Inl (ReadFrame e)" "w' = w" "out' = out" by (simp_all add: host_run.simps)
    then show ?thesis unfolding loop_done_def using f Inl by (intro exI [of _ "[]"] exI [of _ inp]) simp
  next
    case (Inr x)
    show ?thesis
    proof (cases x)
      case None
      with f Inr less.prems have "r = Inr ()" "w' = w" "out' = out" by (simp_all add: host_run.simps)
      moreover have "length inp < 4" using f Inr None read_frame_None by blast
      ultimately show ?thesis unfolding loop_done_def by (intro exI [of _ "[]"] exI [of _ inp]) simp
    next
      case (Some b)
      with f Inr have rf: "read_frame inp = (Inr (Some b), rest)" by simp
      note inp = read_frame_Some [OF rf, THEN conjunct1]
      obtain q w1 where a: "host_answer uni totp st J (rng i) b w = (q, w1)" by fastforce
      show ?thesis
      proof (cases q)
        case (Inl e)
        with a rf less.prems have "r = Inl e" "out' = out" by (simp_all add: host_run.simps [of _ _ _ _ _ _ _ inp])
        then show ?thesis using host_answer_err [OF a [unfolded Inl]] by (intro loop_done_stop [OF inp]) simp_all
      next
        case (Inr y)
        show ?thesis
        proof (cases "length y < 2 ^ 32")
          case False
          then have "write_frame S y out = (Inl FrameTooLargeForPrefix, out)" by (simp add: write_frame_def)
          with a Inr rf less.prems have "r = Inl (WriteFrame FrameTooLargeForPrefix)" "out' = out"
            by (simp_all add: host_run.simps [of _ _ _ _ _ _ _ inp])
          then show ?thesis by (intro loop_done_stop [OF inp]) simp_all
        next
          case True
          then obtain o1 where o1: "write_frame S y out = (Inr (), o1)" "written o1 = written out @ frame y"
            using write_frame_keeps [OF assms(1)] by blast
          with a Inr rf less.prems have "host_run uni totp st J S rng (i + 1) rest (w1, o1) = (r, (w', out'))"
            by (simp add: host_run.simps [of _ _ _ _ _ _ _ inp])
          from less.IH [OF read_frame_shorter [OF rf] this]
          obtain bs rs tail where ih: "rest = concat (map frame bs) @ tail" "4 * length bs \<le> length rest"
              "written out' = written o1 @ concat (map frame rs)" "length rs \<le> length bs" "length bs \<le> length rs + 1"
              "r = Inr () \<longrightarrow> length tail < 4 \<and> answers uni totp st J rng (i + 1) bs w1 = (Inr rs, w')"
              "\<forall>e. r = Inl (ReadFrame e) \<longrightarrow> fst (read_frame tail) = Inl e \<and> answers uni totp st J rng (i + 1) bs w1 = (Inr rs, w')"
            unfolding loop_done_def by blast
          have "4 \<le> length (frame b)" by (simp add: frame_def le_bytes_def)
          then show ?thesis unfolding loop_done_def using ih inp o1(2) a Inr
            by (intro exI [of _ "b # bs"] exI [of _ "y # rs"] exI [of _ tail]) simp
        qed
      qed
    qed
  qed
qed

section \<open>Properties\<close>

text \<open>C40. The host's loop ends on every input, well formed or not, after at most one turn per four bytes: when
  the sink takes what is written, the input begins with complete frames, a quarter as many as it has bytes
  at most, each answered by one frame in order (the last perhaps not, when its reply cannot be encoded or
  framed); it ends without an error only at the end of the input, with fewer than four bytes left, and a
  read error is that of the bytes that follow the frames.\<close>

theorem host_ends:
  assumes "sink_keeps S written"
  shows "\<exists>r w' out' bs rs tail. host_run uni totp st J S rng i inp (w, out) = (r, (w', out')) \<and>
    inp = concat (map frame bs) @ tail \<and> 4 * length bs \<le> length inp \<and>
    written out' = written out @ concat (map frame rs) \<and> length rs \<le> length bs \<and> length bs \<le> length rs + 1 \<and>
    (r = Inr () \<longrightarrow> length tail < 4 \<and> answers uni totp st J rng i bs w = (Inr rs, w')) \<and>
    (\<forall>e. r = Inl (ReadFrame e) \<longrightarrow> fst (read_frame tail) = Inl e \<and> answers uni totp st J rng i bs w = (Inr rs, w'))"
proof -
  obtain r w' out' where "host_run uni totp st J S rng i inp (w, out) = (r, (w', out'))" by (metis prod.exhaust)
  with host_run_done [OF assms this] show ?thesis unfolding loop_done_def by blast
qed

text \<open>C39. One framed reply per request, in order: on input that consists of complete frames within the size
  limit, when every reply can be encoded, the host reads every frame, leaves the store in the state the
  requests produce one after the other, ends without an error, and has written exactly one frame per
  request, in order, none larger than the limit (a larger reply is replaced by an error).\<close>

theorem host_replies_in_order:
  assumes "sink_keeps S written" "\<And>n x. hj_reply J (ErrReply 0 (ReplyTooLarge n)) = Inr x \<Longrightarrow> length x \<le> MAX_REPLY_BYTES"
    and "\<forall>b \<in> set bs. length b \<le> MAX_REPLY_BYTES" "answers uni totp st J rng i bs w = (Inr rs, w')"
  shows "\<exists>out'. host_run uni totp st J S rng i (concat (map frame bs)) (w, out) = (Inr (), (w', out')) \<and>
    written out' = written out @ concat (map frame rs) \<and> length rs = length bs \<and> (\<forall>r \<in> set rs. length r \<le> MAX_REPLY_BYTES)"
  by (rule host_run_answers [OF assms])

text \<open>Rotating a password in place loses nothing: the body written by \<open>generate\<close> with \<open>in_place\<close> has the
  new password on its first line and exactly the fields of the old body, whatever that body is.\<close>

lemma rotation_keeps_fields:
  assumes "NL \<notin> set pw"
  shows "e_password (parse_str uni (rotate_body pw body)) = strip_cr pw \<and>
    e_fields (parse_str uni (rotate_body pw body)) = e_fields (parse_str uni body)"
proof (cases "NL \<in> set body")
  case False
  then have "rotate_body pw body = pw" by (auto simp: rotate_body_def dropWhile_eq_Nil_conv)
  with False assms show ?thesis by (simp add: parse_str_one)
next
  case True
  then obtain a b where ab: "body = a @ NL # b" "NL \<notin> set a" by (meson split_list_first)
  then have "rotate_body pw body = pw @ NL # b" by (simp add: rotate_body_def dropWhile_tail_c)
  with ab assms show ?thesis by (simp add: parse_str_cons)
qed

section \<open>Examples\<close>

text \<open>A store without files and a codec with fixed texts.\<close>

definition empty_store :: "(unit, unit, unit, unit) store" where
  "empty_store = \<lparr>crypto = \<lparr>cr_encrypt = (\<lambda>pt rs w. (Inr pt, w)), cr_decrypt = (\<lambda>w ct. Inr ct)\<rparr>,
     storage = \<lparr>st_read = (\<lambda>_ _. Inr None), st_write = (\<lambda>_ _ w. (Inl (), w)), st_remove = (\<lambda>_ w. (Inl (), w)),
       st_exists = (\<lambda>_ _. Inr False), st_list = (\<lambda>_ _. Inr [])\<rparr>,
     vcs = no_vcs\<rparr>"

definition text_json :: "(unit, unit, unit) host_json" where
  "text_json = \<lparr>hj_request = (\<lambda>b. if b = ''find'' then Inr \<lparr>rq_id = 7, rq_body = Find ''x''\<rparr>
       else if b = ''show'' then Inr \<lparr>rq_id = 8, rq_body = Show ''../x'' None\<rparr> else Inl ''''),
     hj_reply = (\<lambda>r. Inr (case r of OkReply i b \<Rightarrow> ''ok '' @ show_nat i | ErrReply i e \<Rightarrow> ''err '' @ show_nat i))\<rparr>"

definition str_sink :: "str out_sink" where
  "str_sink = \<lparr>os_write = (\<lambda>b out. (Inr (), out @ b)), os_flush = (\<lambda>out. (Inr (), out))\<rparr>"

lemma demo_answers:
  "answers id (\<lambda>_. Inr '''') empty_store text_json (\<lambda>_ _ _. 0) 0 [''find'', ''show'', ''?''] () = (Inr [''ok 7'', ''err 8'', ''err 0''], ())"
proof -
  have v: "relpath_new ''../x'' = Inl (PathDotSegment ''..'' ''../x'')" by code_simp
  have n: "show_nat 7 = ''7''" "show_nat 8 = ''8''" "show_nat 0 = ''0''" by code_simp+
  show ?thesis
    by (simp add: host_answer_def text_json_def host_dispatch_def Let_def empty_store_def store_find_def store_list_def parse_path_def
        reply_of_def v n MAX_REPLY_BYTES_def map_filter_simps)
qed

theorem host_replies_in_order_witness:
  "\<exists>out'. host_run id (\<lambda>_. Inr '''') empty_store text_json str_sink (\<lambda>_ _ _. 0) 0
      (frame ''find'' @ frame ''show'' @ frame ''?'') ((), []) = (Inr (), ((), out')) \<and>
    out' = frame ''ok 7'' @ frame ''err 8'' @ frame ''err 0''"
proof -
  have s: "sink_keeps str_sink (\<lambda>w. w)" by (auto simp: sink_keeps_def str_sink_def)
  have e: "length x \<le> MAX_REPLY_BYTES" if "hj_reply text_json (ErrReply 0 (ReplyTooLarge n)) = Inr x" for n x
  proof -
    have "show_nat 0 = ''0''" by code_simp
    with that show ?thesis by (auto simp: text_json_def MAX_REPLY_BYTES_def)
  qed
  have l: "\<forall>b \<in> set [''find'', ''show'', ''?'']. length b \<le> MAX_REPLY_BYTES" by (simp add: MAX_REPLY_BYTES_def)
  from host_replies_in_order [OF s e l demo_answers, where out = "[]"] show ?thesis by simp
qed

text \<open>An input that ends inside a length prefix reads as a clean end.\<close>

lemma truncated_prefix_is_clean_eof: "read_frame [CHR ''x''] = (Inr None, [])"
  by (simp add: read_frame_def)

text \<open>A frame, and then a length with nothing behind it: one answer, and the error of the cut frame.\<close>

theorem host_ends_witness:
  "\<exists>r w' out' bs rs tail. host_run id (\<lambda>_. Inr '''') empty_store text_json str_sink (\<lambda>_ _ _. 0) 0 (frame ''find'' @ le_bytes 9) ((), []) = (r, (w', out')) \<and>
    frame ''find'' @ le_bytes 9 = concat (map frame bs) @ tail \<and> 4 * length bs \<le> 12 \<and> out' = concat (map frame rs)"
proof -
  have s: "sink_keeps str_sink (\<lambda>w. w)" by (auto simp: sink_keeps_def str_sink_def)
  have l: "length (frame ''find'' @ le_bytes 9) = 12" by (simp add: frame_def le_bytes_def)
  note h = host_ends [OF s, of id "\<lambda>_. Inr ''''" empty_store text_json "\<lambda>_ _ _. 0" 0 "frame ''find'' @ le_bytes 9" "()" "[]", unfolded l append_Nil]
  show ?thesis using h by (elim exE conjE) (intro exI conjI, assumption+)
qed

end
