(* ===== verification/Tree_Render.thy ===== *)
theory Tree_Render
  imports Rel_Path
begin

text \<open>
  The listing of \<open>bypass ls\<close> (\<open>bypass-cli/src/tree.rs\<close>): a trie of path segments and its rendering with
  box-drawing characters.  A \<open>BTreeMap\<close> is its list of pairs in key order.
\<close>

section \<open>The trie\<close>

datatype trie = Trie (trie_children: "(str \<times> trie) list")

text \<open>\<open>entry(key).or_default()\<close> and what is done with the value.\<close>

fun upd_child :: "str \<Rightarrow> (trie \<Rightarrow> trie) \<Rightarrow> (str \<times> trie) list \<Rightarrow> (str \<times> trie) list" where
  "upd_child k f [] = [(k, f (Trie []))]"
| "upd_child k f ((k', t) # cs) =
     (if k < k' then (k, f (Trie [])) # (k', t) # cs
      else if k = k' then (k', f t) # cs
      else (k', t) # upd_child k f cs)"

fun trie_insert :: "str list \<Rightarrow> trie \<Rightarrow> trie" where
  "trie_insert [] t = t"
| "trie_insert (seg # segs) t = Trie (upd_child seg (trie_insert segs) (trie_children t))"

section \<open>Rendering\<close>

definition BRANCH :: str where "BRANCH = map char_of [226 :: nat, 148, 156, 226, 148, 128, 226, 148, 128, 32]"
definition CORNER :: str where "CORNER = map char_of [226 :: nat, 148, 148, 226, 148, 128, 226, 148, 128, 32]"
definition PIPE :: str where "PIPE = map char_of [226 :: nat, 148, 130, 32, 32, 32]"
definition BLANK :: str where "BLANK = ''    ''"

fun render_node :: "str \<Rightarrow> trie \<Rightarrow> str"
  and render_children :: "str \<Rightarrow> (str \<times> trie) list \<Rightarrow> str" where
  "render_node pre (Trie cs) = render_children pre cs"
| "render_children pre [] = []"
| "render_children pre ((name, child) # rest) =
     (let is_last = (rest = []);
          connector = (if is_last then CORNER else BRANCH);
          child_prefix = (if is_last then pre @ BLANK else pre @ PIPE) in
      pre @ connector @ name @ [NL] @ render_node child_prefix child @ render_children pre rest)"

definition tree_of_paths :: "relpath list \<Rightarrow> trie" where
  "tree_of_paths es = foldl (\<lambda>t e. trie_insert (segments e) t) (Trie []) es"

definition tree_render :: "relpath list \<Rightarrow> str \<Rightarrow> str" where
  "tree_render es header = header @ [NL] @ render_node [] (tree_of_paths es)"

section \<open>Lemmas\<close>

lemma upd_child_same: "upd_child k f (upd_child k g cs) = upd_child k (f \<circ> g) cs"
  by (induction cs) auto

lemma upd_child_comm: "k \<noteq> l \<Longrightarrow> upd_child k f (upd_child l g cs) = upd_child l g (upd_child k f cs)"
  by (induction cs) (auto dest: less_trans)

lemma upd_child_cong: "(\<And>t. f t = g t) \<Longrightarrow> upd_child k f cs = upd_child k g cs"
  by (induction cs) auto

lemma trie_insert_comm: "trie_insert p (trie_insert q t) = trie_insert q (trie_insert p t)"
proof (induction p arbitrary: q t)
  case (Cons k p)
  show ?case
  proof (cases q)
    case (Cons l q')
    show ?thesis
    proof (cases "k = l")
      case True
      have "trie_insert p \<circ> trie_insert q' = trie_insert q' \<circ> trie_insert p"
        using Cons.IH by auto
      then show ?thesis using Cons True by (simp add: upd_child_same)
    qed (use Cons in \<open>simp add: upd_child_comm\<close>)
  qed simp
qed simp

lemma trie_insert_idem: "trie_insert p (trie_insert p t) = trie_insert p t"
  by (induction p arbitrary: t) (auto simp: upd_child_same intro: upd_child_cong)

interpretation trie_fold: comp_fun_idem "\<lambda>e t. trie_insert (segments e) t"
  by unfold_locales (auto simp: trie_insert_comm trie_insert_idem)

lemma tree_of_paths_set: "tree_of_paths es = Finite_Set.fold (\<lambda>e t. trie_insert (segments e) t) (Trie []) (set es)"
  by (simp add: tree_of_paths_def foldl_conv_fold trie_fold.fold_set_fold)

text \<open>The paths of a trie: those that end in it, each with its prefixes.\<close>

fun paths_in :: "trie \<Rightarrow> str list list" where
  "paths_in (Trie cs) = [] # concat (map (\<lambda>(k, t). map (Cons k) (paths_in t)) cs)"

definition child_paths :: "(str \<times> trie) list \<Rightarrow> str list set" where
  "child_paths cs = (\<Union>(k, t) \<in> set cs. Cons k ` set (paths_in t))"

lemma paths_in_set: "set (paths_in t) = {[]} \<union> child_paths (trie_children t)"
  by (cases t) (auto simp: child_paths_def)

lemma child_paths_simps: "child_paths [] = {}" "child_paths ((k, t) # cs) = Cons k ` set (paths_in t) \<union> child_paths cs"
  by (auto simp: child_paths_def)

lemma upd_child_paths:
  assumes "\<And>t. set (paths_in (f t)) = set (paths_in t) \<union> P" "[] \<in> P"
  shows "child_paths (upd_child k f cs) = child_paths cs \<union> Cons k ` P"
proof (induction cs)
  case Nil
  have "set (paths_in (f (Trie []))) = {[]} \<union> P" using assms(1) [of "Trie []"] by simp
  then show ?case using assms(2) by (auto simp: child_paths_simps simp del: paths_in.simps)
next
  case (Cons c cs)
  obtain k' t where c: "c = (k', t)" by (cases c)
  have "set (paths_in (f (Trie []))) = {[]} \<union> P" using assms(1) [of "Trie []"] by simp
  then show ?case using Cons assms c by (auto simp: child_paths_simps simp del: paths_in.simps)
qed

lemma trie_insert_paths: "set (paths_in (trie_insert p t)) = set (paths_in t) \<union> {q. prefix q p}"
proof (induction p arbitrary: t)
  case (Cons k p)
  have "child_paths (upd_child k (trie_insert p) (trie_children t)) = child_paths (trie_children t) \<union> Cons k ` {q. prefix q p}"
    by (rule upd_child_paths) (use Cons in auto)
  moreover have "{q. prefix q (k # p)} = {[]} \<union> Cons k ` {q. prefix q p}"
    by (auto simp: prefix_Cons)
  ultimately show ?case by (auto simp: paths_in_set simp del: paths_in.simps)
qed (auto simp: paths_in_set simp del: paths_in.simps)

lemma tree_paths: "set (paths_in (tree_of_paths es)) = {[]} \<union> {q. \<exists>e \<in> set es. prefix q (segments e)}"
proof -
  have "set (paths_in (foldl (\<lambda>t e. trie_insert (segments e) t) t es)) = set (paths_in t) \<union> {q. \<exists>e \<in> set es. prefix q (segments e)}" for t
    by (induction es arbitrary: t) (auto simp: trie_insert_paths simp del: paths_in.simps)
  then show ?thesis by (simp add: tree_of_paths_def)
qed

text \<open>A trie has one child per key, in key order.\<close>

fun trie_sorted :: "trie \<Rightarrow> bool" where
  "trie_sorted (Trie cs) = (sorted_wrt (<) (map fst cs) \<and> list_all (\<lambda>(k, t). trie_sorted t) cs)"

lemma upd_child_keys: "set (map fst (upd_child k f cs)) = insert k (set (map fst cs))"
  by (induction k f cs rule: upd_child.induct) auto

lemma upd_child_sorted:
  assumes "\<And>t. trie_sorted t \<Longrightarrow> trie_sorted (f t)" "trie_sorted (Trie cs)"
  shows "trie_sorted (Trie (upd_child k f cs))"
  using assms(2)
proof (induction cs)
  case Nil
  then show ?case using assms(1) by simp
next
  case (Cons c cs)
  obtain k' t where c: "c = (k', t)" by (cases c)
  show ?case
  proof (cases "k' < k")
    case True
    then have "upd_child k f (c # cs) = (k', t) # upd_child k f cs" using c by auto
    with Cons True c upd_child_keys [of k f cs] show ?thesis by auto
  next
    case False
    with Cons assms(1) c show ?thesis by (auto dest: less_trans)
  qed
qed

lemma trie_insert_sorted: "trie_sorted t \<Longrightarrow> trie_sorted (trie_insert p t)"
proof (induction p arbitrary: t)
  case (Cons k p)
  then show ?case by (cases t) (auto intro!: upd_child_sorted simp del: trie_sorted.simps)
qed simp

lemma tree_sorted: "trie_sorted (tree_of_paths es)"
proof -
  have "trie_sorted t \<Longrightarrow> trie_sorted (foldl (\<lambda>t e. trie_insert (segments e) t) t es)" for t
    by (induction es arbitrary: t) (auto simp: trie_insert_sorted simp del: trie_sorted.simps)
  then show ?thesis by (simp add: tree_of_paths_def)
qed

section \<open>Canonical form\<close>

text \<open>The listing is a function of the set of entries: the order and repetitions of the input do not
  matter; the tree it draws has exactly the directories and entries on the way to the listed entries,
  and each level shows every name once, in byte order.\<close>

lemma listing_is_canonical:
  assumes "set es = set fs"
  shows "tree_render es header = tree_render fs header \<and>
    set (paths_in (tree_of_paths es)) = {[]} \<union> {q. \<exists>e \<in> set es. prefix q (segments e)} \<and>
    trie_sorted (tree_of_paths es)"
proof -
  have "tree_of_paths es = tree_of_paths fs" by (simp add: tree_of_paths_set assms)
  with assms show ?thesis by (simp add: tree_render_def tree_paths tree_sorted)
qed

end
