(* ===== verification/Fs_World.thy ===== *)
theory Fs_World
  imports Rust_Text "HOL-Library.AList"
begin

text \<open>
  The part of \<open>std::fs\<close> the storage backends use, as a model of the directory tree below the store root.
  A path is its list of names below the root (the root itself is \<open>[]\<close>); the tree is an association
  list from paths to nodes, in directory order.  Every system call that changes the tree consumes one
  tick, and the fault plan says which ticks fail, so every pattern of I/O errors is a value of the
  world; for a failing write the plan also gives how many bytes reached the disk.  The record is
  extensible: keyrings and repositories live in its extension.
\<close>

section \<open>Nodes, errors, the world\<close>

datatype node = File bytes | Link str | Dir

type_synonym path = "str list"

datatype io_kind = NotFound | NotADirectory | IsADirectory | AlreadyExists | PermissionDenied | OtherIo

record fs_world =
  tree :: "(path \<times> node) list"
  no_stat :: "path \<Rightarrow> bool"
  no_read :: "path \<Rightarrow> bool"
  faults :: "nat \<Rightarrow> nat option"
  tick :: nat
  pid :: nat
  nanos :: "nat \<Rightarrow> nat"
  entropy :: "nat \<Rightarrow> char"
  drawn :: nat

definition node_at :: "'z fs_world_scheme \<Rightarrow> path \<Rightarrow> node option" where
  "node_at w p = map_of (tree w) p"

definition put_node :: "path \<Rightarrow> node \<Rightarrow> 'z fs_world_scheme \<Rightarrow> 'z fs_world_scheme" where
  "put_node p n w = w\<lparr>tree := AList.update p n (tree w)\<rparr>"

definition del_node :: "path \<Rightarrow> 'z fs_world_scheme \<Rightarrow> 'z fs_world_scheme" where
  "del_node p w = w\<lparr>tree := AList.delete p (tree w)\<rparr>"

section \<open>Calls that only observe\<close>

definition is_dir :: "'z fs_world_scheme \<Rightarrow> path \<Rightarrow> bool" where
  "is_dir w p \<longleftrightarrow> node_at w p = Some Dir"

text \<open>A component on the way that is not a directory: the kernel answers \<open>ENOTDIR\<close>.\<close>

definition blocked :: "'z fs_world_scheme \<Rightarrow> path \<Rightarrow> bool" where
  "blocked w p = list_ex (\<lambda>k. node_at w (take k p) \<noteq> None \<and> \<not> is_dir w (take k p)) [0..<length p]"

text \<open>\<open>symlink_metadata\<close>.\<close>

definition lstat :: "'z fs_world_scheme \<Rightarrow> path \<Rightarrow> io_kind + node" where
  "lstat w p =
     (if no_stat w p then Inl PermissionDenied
      else (case node_at w p of Some n \<Rightarrow> Inr n
        | None \<Rightarrow> Inl (if blocked w p then NotADirectory else NotFound)))"

text \<open>\<open>Path::exists\<close> on a path without symbolic links: any error reads as \<open>false\<close>.\<close>

definition path_exists :: "'z fs_world_scheme \<Rightarrow> path \<Rightarrow> bool" where
  "path_exists w p = (case lstat w p of Inr _ \<Rightarrow> True | Inl _ \<Rightarrow> False)"

text \<open>\<open>fs::read\<close>.\<close>

definition fs_read :: "'z fs_world_scheme \<Rightarrow> path \<Rightarrow> io_kind + bytes" where
  "fs_read w p =
     (if no_read w p then Inl PermissionDenied
      else and_then (lstat w p) (\<lambda>n. case n of File b \<Rightarrow> Inr b | Dir \<Rightarrow> Inl IsADirectory | Link _ \<Rightarrow> Inl OtherIo))"

text \<open>\<open>fs::read_dir\<close>, each entry as its path.\<close>

definition children :: "'z fs_world_scheme \<Rightarrow> path \<Rightarrow> path list" where
  "children w d = filter (\<lambda>q. q \<noteq> [] \<and> butlast q = d) (map fst (tree w))"

definition fs_read_dir :: "'z fs_world_scheme \<Rightarrow> path \<Rightarrow> io_kind + path list" where
  "fs_read_dir w d =
     (if no_read w d then Inl PermissionDenied
      else and_then (lstat w d) (\<lambda>n. case n of Dir \<Rightarrow> Inr (children w d) | _ \<Rightarrow> Inl NotADirectory))"

section \<open>Calls that change the tree\<close>

definition tick_on :: "'z fs_world_scheme \<Rightarrow> 'z fs_world_scheme" where
  "tick_on w = w\<lparr>tick := Suc (tick w)\<rparr>"

definition attempt :: "('z fs_world_scheme \<Rightarrow> (io_kind + 'a) \<times> 'z fs_world_scheme) \<Rightarrow> ('z fs_world_scheme, io_kind, 'a) eff" where
  "attempt act w = (if faults w (tick w) \<noteq> None then (Inl OtherIo, tick_on w) else act (tick_on w))"

definition mkdir :: "path \<Rightarrow> ('z fs_world_scheme, io_kind, unit) eff" where
  "mkdir p = attempt (\<lambda>w.
     if node_at w p \<noteq> None then (Inl AlreadyExists, w)
     else if p \<noteq> [] \<and> \<not> is_dir w (butlast p) then (Inl NotFound, w)
     else (Inr (), put_node p Dir w))"

fun mkdirs :: "path list \<Rightarrow> ('z fs_world_scheme, io_kind, unit) eff" where
  "mkdirs [] w = (Inr (), w)"
| "mkdirs (p # ps) w =
     (case node_at w p of
        Some Dir \<Rightarrow> mkdirs ps w
      | Some _ \<Rightarrow> (Inl NotADirectory, w)
      | None \<Rightarrow> then_eff (mkdir p w) (\<lambda>_ w. mkdirs ps w))"

text \<open>\<open>fs::create_dir_all\<close>: every missing directory from the root down.\<close>

definition create_dir_all :: "path \<Rightarrow> ('z fs_world_scheme, io_kind, unit) eff" where
  "create_dir_all p = mkdirs (map (\<lambda>k. take k p) [0..<Suc (length p)])"

text \<open>\<open>OpenOptions::new().write(true).create_new(true).open\<close>.\<close>

definition create_new :: "path \<Rightarrow> ('z fs_world_scheme, io_kind, unit) eff" where
  "create_new p = attempt (\<lambda>w.
     if node_at w p \<noteq> None then (Inl AlreadyExists, w)
     else if p = [] \<or> \<not> is_dir w (butlast p) then (Inl NotFound, w)
     else (Inr (), put_node p (File []) w))"

definition overlay :: "nat \<Rightarrow> bytes \<Rightarrow> bytes \<Rightarrow> bytes" where
  "overlay pos new old = take pos old @ new @ drop (pos + length new) old"

text \<open>\<open>write_all\<close> on an open handle at an offset; a failing call leaves a prefix.\<close>

definition write_at :: "path \<Rightarrow> nat \<Rightarrow> bytes \<Rightarrow> ('z fs_world_scheme, io_kind, unit) eff" where
  "write_at p pos new w =
     (let old = (case node_at w p of Some (File b) \<Rightarrow> b | _ \<Rightarrow> []) in
      case faults w (tick w) of
        Some k \<Rightarrow> (Inl OtherIo, put_node p (File (overlay pos (take k new) old)) (tick_on w))
      | None \<Rightarrow> (Inr (), put_node p (File (overlay pos new old)) (tick_on w)))"

text \<open>\<open>sync_all\<close>, and any other call that can fail but leaves the tree as it is.\<close>

definition sync_all :: "('z fs_world_scheme, io_kind, unit) eff" where
  "sync_all = attempt (\<lambda>w. (Inr (), w))"

definition unlink :: "path \<Rightarrow> ('z fs_world_scheme, io_kind, unit) eff" where
  "unlink p = attempt (\<lambda>w. case node_at w p of
       None \<Rightarrow> (Inl (if blocked w p then NotADirectory else NotFound), w)
     | Some Dir \<Rightarrow> (Inl IsADirectory, w)
     | Some _ \<Rightarrow> (Inr (), del_node p w))"

text \<open>\<open>fs::rename\<close> of a file: replaces a file, refuses a directory.\<close>

definition fs_rename :: "path \<Rightarrow> path \<Rightarrow> ('z fs_world_scheme, io_kind, unit) eff" where
  "fs_rename a b = attempt (\<lambda>w. case node_at w a of
       None \<Rightarrow> (Inl NotFound, w)
     | Some n \<Rightarrow> (if is_dir w b then (Inl IsADirectory, w)
                 else (Inr (), put_node b n (del_node a w))))"

text \<open>\<open>rng.fill_bytes\<close>: the next bytes of the world's entropy.\<close>

definition random_bytes :: "'z fs_world_scheme \<Rightarrow> nat \<Rightarrow> nat \<Rightarrow> bytes" where
  "random_bytes w from n = map (entropy w) [from..<from + n]"

definition draw :: "nat \<Rightarrow> 'z fs_world_scheme \<Rightarrow> bytes \<times> 'z fs_world_scheme" where
  "draw n w = (random_bytes w (drawn w) n, w\<lparr>drawn := drawn w + n\<rparr>)"

section \<open>Loops that stop at the first error\<close>

fun try_each :: "('a \<Rightarrow> 's \<Rightarrow> 'e + 's) \<Rightarrow> 'a list \<Rightarrow> 's \<Rightarrow> 'e + 's" where
  "try_each f [] s = Inr s"
| "try_each f (x # xs) s = and_then (f x s) (\<lambda>s. try_each f xs s)"

lemma try_each_cong [fundef_cong]:
  "xs = ys \<Longrightarrow> s = t \<Longrightarrow> (\<And>x s. x \<in> set ys \<Longrightarrow> f x s = g x s) \<Longrightarrow> try_each f xs s = try_each g ys t"
proof (induction xs arbitrary: s t ys)
  case (Cons x xs)
  have "try_each f xs = try_each g xs"
    using Cons by (intro ext) auto
  with Cons.prems show ?case by auto
qed auto

lemma try_each_collect:
  assumes "\<And>x s t. x \<in> set xs \<Longrightarrow> f x s = Inr t \<Longrightarrow> set t = set s \<union> A x"
    and "try_each f xs s = Inr t"
  shows "set t = set s \<union> (\<Union>x \<in> set xs. A x)"
  using assms
proof (induction xs arbitrary: s)
  case (Cons x xs)
  from Cons.prems(2) obtain u where u: "f x s = Inr u" "try_each f xs u = Inr t"
    by (auto simp: and_then_Inr_iff)
  have "set t = set u \<union> (\<Union>x \<in> set xs. A x)"
    using Cons.IH [OF _ u(2)] Cons.prems(1) by simp
  with Cons.prems(1) [OF _ u(1)] show ?case by auto
qed simp

section \<open>Reading after writing\<close>

named_theorems fs_simps \<open>what the tree holds after a call\<close>

lemma node_at_put [fs_simps]: "node_at (put_node p n w) q = (if q = p then Some n else node_at w q)"
  by (simp add: node_at_def put_node_def update_conv')

lemma node_at_del [fs_simps]: "node_at (del_node p w) q = (if q = p then None else node_at w q)"
  by (simp add: node_at_def del_node_def delete_conv')

lemma node_at_tick [fs_simps]: "node_at (tick_on w) q = node_at w q"
  by (simp add: node_at_def tick_on_def)

lemma node_at_drawn [fs_simps]: "node_at (w\<lparr>drawn := n\<rparr>) q = node_at w q"
  by (simp add: node_at_def)

lemma distinct_put: "distinct (map fst (tree w)) \<Longrightarrow> distinct (map fst (tree (put_node p n w)))"
  by (simp add: put_node_def distinct_update)

lemma distinct_del: "distinct (map fst (tree w)) \<Longrightarrow> distinct (map fst (tree (del_node p w)))"
  by (simp add: del_node_def distinct_delete)

lemma tree_tick [fs_simps]: "tree (tick_on w) = tree w"
  by (simp add: tick_on_def)

lemma children_iff: "q \<in> set (children w d) \<longleftrightarrow> q \<noteq> [] \<and> butlast q = d \<and> node_at w q \<noteq> None"
  by (auto simp: children_def node_at_def map_of_eq_None_iff)

lemma lstat_Inr [simp]: "lstat w p = Inr n \<longleftrightarrow> \<not> no_stat w p \<and> node_at w p = Some n"
  by (simp add: lstat_def split: option.split)

lemma fs_read_dir_Inr:
  assumes "fs_read_dir w d = Inr es" shows "es = children w d \<and> is_dir w d"
proof -
  from assms obtain n where "lstat w d = Inr n" "(case n of Dir \<Rightarrow> Inr (children w d) | _ \<Rightarrow> Inl NotADirectory) = Inr es"
    by (auto simp: fs_read_dir_def and_then_Inr_iff split: if_split_asm)
  then show ?thesis by (cases n) (auto simp: is_dir_def)
qed

lemma fs_read_Inr:
  assumes "fs_read w p = Inr b" shows "node_at w p = Some (File b)"
proof -
  from assms obtain n where "lstat w p = Inr n"
      "(case n of File b \<Rightarrow> Inr b | Dir \<Rightarrow> Inl IsADirectory | Link _ \<Rightarrow> Inl OtherIo) = Inr b"
    by (auto simp: fs_read_def and_then_Inr_iff split: if_split_asm)
  then show ?thesis by (cases n) auto
qed

lemma fs_read_NotFound:
  assumes "fs_read w p = Inl NotFound" shows "node_at w p = None"
proof (cases "node_at w p")
  case (Some n)
  then show ?thesis using assms by (cases n) (auto simp: fs_read_def lstat_def split: if_split_asm)
qed simp

section \<open>What calls leave alone\<close>

text \<open>A part of the world beside the tree and the clock.\<close>

definition off_tree :: "('z fs_world_scheme \<Rightarrow> 'b) \<Rightarrow> bool" where
  "off_tree g \<longleftrightarrow> (\<forall>w t n. g (w\<lparr>tree := t\<rparr>) = g w \<and> g (w\<lparr>tick := n\<rparr>) = g w)"

lemma keep_then: "g (snd r) = s \<Longrightarrow> (\<And>a v. g v = s \<Longrightarrow> g (snd (f a v)) = s) \<Longrightarrow> g (snd (then_eff r f)) = s"
  by (cases r rule: eff_exhaust) simp_all

lemma keep_catch: "g (snd r) = s \<Longrightarrow> (\<And>e v. g v = s \<Longrightarrow> g (snd (h e v)) = s) \<Longrightarrow> g (snd (catch_eff r h)) = s"
  by (cases r rule: eff_exhaust) (simp_all add: catch_eff_def)

lemma snd_map_err_st [simp]: "snd (map_err_st f r) = snd r"
  by (cases r rule: eff_exhaust) simp_all

lemma keep_put: "off_tree g \<Longrightarrow> g (put_node p n w) = g w" and keep_del: "off_tree g \<Longrightarrow> g (del_node p w) = g w"
  and keep_tick: "off_tree g \<Longrightarrow> g (tick_on w) = g w"
  by (simp_all add: off_tree_def put_node_def del_node_def tick_on_def)

lemma keep_calls:
  assumes "off_tree g"
  shows "g (snd (mkdir p w)) = g w" "g (snd (create_new p w)) = g w" "g (snd (write_at p k d w)) = g w"
    "g (snd (sync_all w)) = g w" "g (snd (unlink p w)) = g w" "g (snd (fs_rename p q w)) = g w"
  using keep_put [OF assms] keep_del [OF assms] keep_tick [OF assms]
  by (simp_all add: mkdir_def create_new_def write_at_def sync_all_def unlink_def fs_rename_def attempt_def Let_def
      split: option.split node.split)

lemma keep_mkdirs: "off_tree g \<Longrightarrow> g (snd (mkdirs ps w)) = g w"
  by (induction ps arbitrary: w) (auto intro!: keep_then [where g = g] simp: keep_calls split: option.split node.split)

lemma keep_create_dir_all: "off_tree g \<Longrightarrow> g (snd (create_dir_all p w)) = g w"
  by (simp add: create_dir_all_def keep_mkdirs)

lemma eff_post_keep: "eff_post r Q E \<Longrightarrow> g (snd r) = s \<Longrightarrow> eff_post r (\<lambda>a w. Q a w \<and> g w = s) (\<lambda>e w. E e w \<and> g w = s)"
  by (cases r rule: eff_exhaust) (auto simp: eff_post_simps)

end
