(* ===== verification/Pass_Store_Facts.thy ===== *)
theory Pass_Store_Facts
  imports Pass_Store
begin

text \<open>
  Facts about the orchestrator that hold on every storage backend obeying \<open>storage_laws\<close>: what each
  operation does to the blobs when it succeeds, and what it leaves alone when it fails.  The
  properties of the program are stated on a concrete backend in \<open>Storage_Fs\<close>, by interpretation.
\<close>

section \<open>Entries and blobs\<close>

lemma gpg_segments:
  "segments (RelPath (as_str e @ ''.gpg'')) = butlast (segments e) @ [last (segments e) @ ''.gpg'']"
  by (simp add: segments_def split_char_append_nosep)

lemma seg_ok_gpg: "seg_ok x \<Longrightarrow> seg_ok (x @ ''.gpg'')"
  by (auto simp: seg_ok_def append_eq_Cons_conv)

lemma seg_addr_gpg: "seg_addr x \<Longrightarrow> seg_addr (x @ ''.gpg'')"
proof -
  assume "seg_addr x"
  moreover have "valid_utf8 ''.gpg''" by code_simp
  ultimately show ?thesis
    by (auto simp: seg_addr_def seg_ok_gpg valid_append append_eq_Cons_conv simp del: valid_utf8.simps)
qed

lemma gpg_relpath_ok: "relpath_ok e \<Longrightarrow> relpath_ok (RelPath (as_str e @ ''.gpg''))"
  using list_all_last [of seg_ok "segments e"] by (simp add: relpath_ok_def gpg_segments seg_ok_gpg)

lemma entry_to_blob_eq: "relpath_ok e \<Longrightarrow> entry_to_blob e = RelPath (as_str e @ ''.gpg'')"
  using gpg_relpath_ok [of e] by (simp add: entry_to_blob_def relpath_new_ok)

lemma blob_addr: "addr e \<Longrightarrow> addr (entry_to_blob e)"
  using list_all_last [of seg_addr "segments e"]
  by (simp add: entry_to_blob_eq addr_relpath_ok) (simp add: addr_iff gpg_segments seg_addr_gpg)

text \<open>Entries whose blob is addressable: every entry but those inside a \<open>.git\<close> directory.\<close>

definition entry_ok :: "relpath \<Rightarrow> bool" where
  "entry_ok e \<longleftrightarrow> relpath_ok e \<and> addr (entry_to_blob e)"

lemma addr_entry_ok: "addr e \<Longrightarrow> entry_ok e"
  by (simp add: entry_ok_def addr_relpath_ok blob_addr)

lemma entry_ok_blob: "entry_ok e \<Longrightarrow> addr (entry_to_blob e)"
  by (simp add: entry_ok_def)

lemma blob_inj: "relpath_ok e \<Longrightarrow> relpath_ok f \<Longrightarrow> entry_to_blob e = entry_to_blob f \<longleftrightarrow> e = f"
  by (auto simp: entry_to_blob_eq relpath.expand)

lemma blob_to_entry_Some_iff: "blob_to_entry b = Some e \<longleftrightarrow> relpath_ok e \<and> b = entry_to_blob e"
proof
  assume "blob_to_entry b = Some e"
  then have "as_str b = as_str e @ ''.gpg''" "relpath_ok e"
    by (auto simp: blob_to_entry_def strip_suffix_Some_iff relpath_new_Inr_iff split: option.splits sum.splits)
  then show "relpath_ok e \<and> b = entry_to_blob e"
    by (simp add: entry_to_blob_eq relpath.expand)
next
  assume "relpath_ok e \<and> b = entry_to_blob e"
  moreover have "relpath_ok e \<Longrightarrow> relpath_new (as_str e) = Inr e"
    using relpath_new_ok [of "as_str e"] by simp
  ultimately show "blob_to_entry b = Some e"
    by (simp add: blob_to_entry_def entry_to_blob_eq)
qed

lemma strict_prefix_snoc: "strict_prefix d (xs @ [x]) \<longleftrightarrow> prefix d xs"
  by (auto simp: strict_prefix_def prefix_def append_eq_append_conv2 Cons_eq_append_conv)

text \<open>A blob lies under a directory exactly when its entry does, or when it is the directory's own
  \<open>.gpg\<close> sibling; the segments decide.\<close>

lemma under_blob: "relpath_ok e \<Longrightarrow> under pre (entry_to_blob e) \<longleftrightarrow> under pre e"
proof -
  assume e: "relpath_ok e"
  have s: "strict_prefix d (segments e) \<longleftrightarrow> prefix d (butlast (segments e))" for d
    using strict_prefix_snoc [of d "butlast (segments e)" "last (segments e)"] by simp
  show ?thesis
    by (cases pre) (auto simp: under_def entry_to_blob_eq e gpg_segments strict_prefix_snoc s)
qed

lemma gpg_id_path_eq: "gpg_id_path = RelPath ''.gpg-id''"
proof -
  have "relpath_new ''.gpg-id'' = Inr (RelPath ''.gpg-id'')" by code_simp
  then show ?thesis by (simp add: gpg_id_path_def)
qed

lemma gitattributes_path_eq: "gitattributes_path = RelPath ''.gitattributes''"
proof -
  have "relpath_new ''.gitattributes'' = Inr (RelPath ''.gitattributes'')" by code_simp
  then show ?thesis by (simp add: gitattributes_path_def)
qed

lemma gpg_id_path_addr: "addr gpg_id_path" and gitattributes_path_addr: "addr gitattributes_path"
  unfolding gpg_id_path_eq gitattributes_path_eq by code_simp+

section \<open>Recipients\<close>

lemma sort_eq_iff: "sort xs = sort ys \<longleftrightarrow> mset xs = mset (ys :: 'a :: linorder list)"
  by (metis mset_sort properties_for_sort sorted_sort)

lemma recipients_equal_mset: "recipients_equal a b \<longleftrightarrow> mset a = mset b"
proof -
  have inj: "inj keyid_str" by (rule injI) (simp add: keyid.expand)
  have "recipients_equal a b \<longleftrightarrow> mset (map keyid_str a) = mset (map keyid_str b)"
    using mset_eq_length [of "map keyid_str a" "map keyid_str b"]
    by (auto simp: recipients_equal_def sort_eq_iff simp del: mset_map)
  also have "\<dots> \<longleftrightarrow> mset a = mset b"
    using inj_eq [OF multiset.inj_map [OF inj]] by simp
  finally show ?thesis .
qed

section \<open>The merge rule in \<open>.gitattributes\<close>\<close>

lemma lines_snoc:
  "s = [] \<or> last s = NL \<Longrightarrow> split_inclusive NL (s @ t) = split_inclusive NL s @ split_inclusive NL t"
proof (induction s)
  case (Cons x xs)
  show ?case
  proof (cases "xs = []")
    case False
    with Cons have IH: "split_inclusive NL (xs @ t) = split_inclusive NL xs @ split_inclusive NL t" by simp
    have "split_inclusive NL xs \<noteq> []" using False by (cases xs) (auto split: list.splits)
    then show ?thesis by (auto simp: IH split: list.splits)
  qed (use Cons in auto)
qed simp

lemma rule_line: "list_ex gpg_binary_line (lines GITATTRIBUTES_RULE)"
  by code_simp

lemma rule_valid: "valid_utf8 GITATTRIBUTES_RULE"
  by code_simp

lemma has_rule_append:
  assumes "valid_utf8 s" "s = [] \<or> last s = NL"
  shows "has_gpg_binary_rule (s @ GITATTRIBUTES_RULE)"
  using assms rule_line rule_valid
  by (simp add: has_gpg_binary_rule_def from_utf8_def valid_append lines_def lines_snoc)

section \<open>Operations on a lawful storage\<close>

text \<open>A store on the backend \<open>S\<close> whose crypto and version control leave the blobs alone.\<close>

definition lawful ::
  "('w, 'se) storage_impl \<Rightarrow> ('w \<Rightarrow> relpath \<Rightarrow> bytes option) \<Rightarrow> ('w \<Rightarrow> bool) \<Rightarrow> ('w, 'ce, 'se, 've) store \<Rightarrow> bool" where
  "lawful S view ok st \<longleftrightarrow> storage st = S \<and> crypto_quiet view ok (crypto st) \<and> vcs_quiet view ok (vcs st)"

definition is_vcs_err :: "('ce, 'se, 've) store_error \<Rightarrow> bool" where
  "is_vcs_err err = (case err of VcsErr _ \<Rightarrow> True | _ \<Rightarrow> False)"

lemma is_vcs_err_simps [simp]: "is_vcs_err (VcsErr v)" "\<not> is_vcs_err (StorageErr e)" "\<not> is_vcs_err (CryptoErr c)"
    "\<not> is_vcs_err NotInitialized" "\<not> is_vcs_err (StoreNotFound s)" "\<not> is_vcs_err (StoreAlreadyExists s)" "\<not> is_vcs_err (GpgIdMalformed m)"
  by (simp_all add: is_vcs_err_def)

context storage_laws
begin

text \<open>The laws as postconditions.\<close>

lemma write_post:
  assumes "ok w" "addr p"
    and Q: "\<And>w'. ok w' \<Longrightarrow> view w' = (view w)(p \<mapsto> d) \<Longrightarrow> Q () w'"
    and E: "\<And>e w'. ok w' \<Longrightarrow> (\<And>q. \<not> scratch q \<Longrightarrow> view w' q = view w q) \<Longrightarrow> E e w'"
  shows "eff_post (st_write S p d w) Q E"
proof (rule eff_postI)
  show "Q u w'" if "st_write S p d w = (Inr u, w')" for u w'
    using write_law [OF assms(1,2) that] Q [of w'] by simp
  show "E e w'" if "st_write S p d w = (Inl e, w')" for e w'
    using write_err_law [OF assms(1,2) that] E [of w' e] by simp
qed

lemma remove_post:
  assumes "ok w" "addr p"
    and Q: "\<And>w'. ok w' \<Longrightarrow> view w' = (view w)(p := None) \<Longrightarrow> Q () w'"
    and E: "\<And>e w'. ok w' \<Longrightarrow> (\<And>q. q \<noteq> p \<Longrightarrow> view w' q = view w q) \<Longrightarrow> E e w'"
  shows "eff_post (st_remove S p w) Q E"
proof (rule eff_postI)
  show "Q u w'" if "st_remove S p w = (Inr u, w')" for u w'
    using remove_law [OF assms(1,2) that] Q [of w'] by simp
  show "E e w'" if "st_remove S p w = (Inl e, w')" for e w'
    using remove_err_law [OF assms(1,2) that] E [of w' e] by simp
qed

lemma quiet_post:
  assumes "quiet view ok f" "ok w"
    and Q: "\<And>a w'. f w = (Inr a, w') \<Longrightarrow> ok w' \<Longrightarrow> view w' = view w \<Longrightarrow> Q a w'"
    and E: "\<And>e w'. ok w' \<Longrightarrow> view w' = view w \<Longrightarrow> E e w'"
  shows "eff_post (f w) Q E"
proof (rule eff_postI)
  have *: "f w = (r, w') \<Longrightarrow> ok w' \<and> view w' = view w" for r w'
    using assms(1,2) unfolding quiet_def by blast
  show "Q a w'" if "f w = (Inr a, w')" for a w' using Q [OF that] * [OF that] by simp
  show "E e w'" if "f w = (Inl e, w')" for e w' using E * [OF that] by simp
qed

lemma lawful_quiet:
  assumes "lawful S view ok st"
  shows "quiet view ok (cr_encrypt (crypto st) pt rs)"
    and "quiet view ok (vc_commit (vcs st) ps m)"
    and "quiet view ok (vc_init (vcs st))"
  using assms by (simp_all add: lawful_def crypto_quiet_def vcs_quiet_def)

lemmas encrypt_post = quiet_post [OF lawful_quiet(1)]
lemmas commit_post = quiet_post [OF lawful_quiet(2)]
lemmas init_post = quiet_post [OF lawful_quiet(3)]

lemma lawful_storage: "lawful S view ok st \<Longrightarrow> storage st = S"
  by (simp add: lawful_def)

lemmas post_intros = write_post remove_post encrypt_post commit_post init_post

text \<open>Insert: on success the entry was free or overwriting was asked for, and its blob now holds a
  ciphertext made for the resolved recipients, nothing else changed; an error before the commit leaves
  every entry as it was.\<close>

lemma insert_post:
  assumes "lawful S view ok st" "ok w" "entry_ok e"
  shows "eff_post (store_insert st e pt ow w)
    (\<lambda>_ w'. ok w' \<and> (ow \<or> view w (entry_to_blob e) = None) \<and>
       (\<exists>rs ct w1. resolve_for st e w = Inr rs \<and> cr_encrypt (crypto st) pt rs w = (Inr ct, w1) \<and>
          view w' = (view w)(entry_to_blob e \<mapsto> ct)))
    (\<lambda>err w'. ok w' \<and> (is_vcs_err err \<or> (\<forall>q. \<not> scratch q \<longrightarrow> view w' q = view w q)))"
  using assms entry_ok_blob [OF assms(3)] exists_False [OF assms(2) entry_ok_blob [OF assms(3)]]
  unfolding store_insert_def Let_def exists_unless_def
  by (auto simp: post_simps lawful_storage is_vcs_err_def intro!: post_intros)

end

text \<open>What a transfer writes: the same bytes for the same recipients, a fresh encryption otherwise.\<close>

definition transferred :: "('w, 'ce, 'se, 've) store \<Rightarrow> relpath \<Rightarrow> relpath \<Rightarrow> 'w \<Rightarrow> bytes \<Rightarrow> bytes \<Rightarrow> bool" where
  "transferred st from to w ct ct' \<longleftrightarrow>
     (\<exists>src dst. resolve_for st from w = Inr src \<and> resolve_for st to w = Inr dst \<and>
        (if recipients_equal src dst then ct' = ct
         else \<exists>plain w1. cr_decrypt (crypto st) w ct = Inr plain \<and> cr_encrypt (crypto st) plain dst w = (Inr ct', w1)))"

context storage_laws
begin

lemma read_step:
  assumes "lawful S view ok st" "ok w" "addr p"
  shows "(\<exists>e. st_read (storage st) w p = Inl e) \<or> st_read (storage st) w p = Inr (view w p)"
  using assms read_law [OF assms(2,3)] by (cases "st_read S w p") (auto simp: lawful_storage)

lemma resolve_for_err: "resolve_for st e w = Inl err \<Longrightarrow> \<not> is_vcs_err err"
  by (auto simp: resolve_for_def from_gpg_id_def map_err_def split: sum.splits gpg_id_error.splits)

lemma transfer_post:
  assumes "lawful S view ok st" "ok w" "entry_ok from" "entry_ok to"
  shows "eff_post (transfer_blob st from to ow w)
    (\<lambda>b w'. b = entry_to_blob to \<and> ok w' \<and> (ow \<or> view w (entry_to_blob to) = None) \<and>
       (\<exists>ct ct'. view w (entry_to_blob from) = Some ct \<and> transferred st from to w ct ct' \<and>
          view w' = (view w)(entry_to_blob to \<mapsto> ct')))
    (\<lambda>err w'. ok w' \<and> \<not> is_vcs_err err \<and> (\<forall>q. \<not> scratch q \<longrightarrow> view w' q = view w q))"
proof (cases "exists_unless st ow (entry_to_blob to) w")
  case (Inl e)
  then show ?thesis
    using assms(2) by (auto simp: transfer_blob_def Let_def eff_post_simps exists_unless_def map_err_def
        split: if_splits sum.splits)
next
  case (Inr taken)
  have bl: "addr (entry_to_blob from)" "addr (entry_to_blob to)" using assms(3,4) by (simp_all add: entry_ok_blob)
  show ?thesis
  proof (cases taken)
    case True
    then show ?thesis using Inr assms(2) by (simp add: transfer_blob_def Let_def eff_post_simps)
  next
    case False
    then have free: "ow \<or> view w (entry_to_blob to) = None"
      using Inr exists_False [OF assms(2) bl(2)] assms(1) by (auto simp: exists_unless_def lawful_storage split: if_splits)
    have go: "transfer_blob st from to ow w =
        then_eff (map_err StorageErr (st_read (storage st) w (entry_to_blob from)), w) (\<lambda>found w.
        case found of None \<Rightarrow> (Inl (StoreNotFound (as_str from)), w)
        | Some ciphertext \<Rightarrow>
          then_eff (resolve_for st from w, w) (\<lambda>src w.
          then_eff (resolve_for st to w, w) (\<lambda>dst w.
          then_eff
            (if recipients_equal src dst then (Inr ciphertext, w)
             else then_eff (map_err CryptoErr (cr_decrypt (crypto st) w ciphertext), w) (\<lambda>plain w.
                    map_err_st CryptoErr (cr_encrypt (crypto st) plain dst w)))
            (\<lambda>new_ciphertext w.
          then_eff (map_err_st StorageErr (st_write (storage st) (entry_to_blob to) new_ciphertext w)) (\<lambda>_ w.
            (Inr (entry_to_blob to), w))))))"
      using Inr False by (simp add: transfer_blob_def Let_def)
    let ?Q = "\<lambda>b w'. b = entry_to_blob to \<and> ok w' \<and> (ow \<or> view w (entry_to_blob to) = None) \<and>
       (\<exists>ct ct'. view w (entry_to_blob from) = Some ct \<and> transferred st from to w ct ct' \<and>
          view w' = (view w)(entry_to_blob to \<mapsto> ct'))"
    let ?E = "\<lambda>err w'. ok w' \<and> \<not> is_vcs_err err \<and> (\<forall>q. \<not> scratch q \<longrightarrow> view w' q = view w q)"
    have fin: "eff_post (then_eff (map_err_st StorageErr (st_write (storage st) (entry_to_blob to) ct' v)) (\<lambda>_ w. (Inr (entry_to_blob to), w))) ?Q ?E"
      if "ok v" "view v = view w" "view w (entry_to_blob from) = Some ct" "transferred st from to w ct ct'" for v ct ct'
      using that free bl(2) by (auto simp: post_simps lawful_storage [OF assms(1)] intro!: write_post)
    have crypt: "eff_post (cr_encrypt (crypto st) plain dst w)
        (\<lambda>ct' w'. ok w' \<and> view w' = view w \<and> (\<exists>w1. cr_encrypt (crypto st) plain dst w = (Inr ct', w1))) (\<lambda>e w'. ok w' \<and> view w' = view w)" for plain dst
      by (rule encrypt_post [OF assms(1,2)]) auto
    have quit: "eff_post (Inl err, w) ?Q ?E" if "\<not> is_vcs_err err" for err
      using that assms(2) by (simp add: eff_post_simps)
    show ?thesis
    proof (cases "\<exists>ct src dst. st_read (storage st) w (entry_to_blob from) = Inr (Some ct) \<and>
        resolve_for st from w = Inr src \<and> resolve_for st to w = Inr dst")
      case False
      have "\<exists>err. transfer_blob st from to ow w = (Inl err, w) \<and> \<not> is_vcs_err err"
      proof (cases "st_read (storage st) w (entry_to_blob from)")
        case (Inl e)
        then show ?thesis by (simp add: go)
      next
        case (Inr found)
        with False show ?thesis
          by (cases found; cases "resolve_for st from w"; cases "resolve_for st to w")
            (auto simp: go dest: resolve_for_err)
      qed
      then obtain err where "transfer_blob st from to ow w = (Inl err, w)" "\<not> is_vcs_err err" by blast
      then show ?thesis using quit [of err] by simp
    next
      case True
      then obtain ct src dst where r: "st_read (storage st) w (entry_to_blob from) = Inr (Some ct)"
          "resolve_for st from w = Inr src" "resolve_for st to w = Inr dst" by blast
      have ct: "view w (entry_to_blob from) = Some ct" using read_step [OF assms(1,2) bl(1)] r(1) by auto
      show ?thesis
      proof (cases "recipients_equal src dst")
        case True
        then have "transferred st from to w ct ct" using r by (auto simp: transferred_def)
        with fin [OF assms(2) refl ct] True show ?thesis using r by (simp add: go)
      next
        case False
        then have tr: "transferred st from to w ct ct'" if "cr_decrypt (crypto st) w ct = Inr plain"
            "cr_encrypt (crypto st) plain dst w = (Inr ct', w1)" for plain ct' w1
          using that r by (auto simp: transferred_def)
        show ?thesis
        proof (cases "cr_decrypt (crypto st) w ct")
          case (Inr plain)
          have "eff_post (then_eff (map_err_st CryptoErr (cr_encrypt (crypto st) plain dst w)) (\<lambda>new_ciphertext w.
              then_eff (map_err_st StorageErr (st_write (storage st) (entry_to_blob to) new_ciphertext w)) (\<lambda>_ w. (Inr (entry_to_blob to), w)))) ?Q ?E"
          proof (rule eff_post_thenI)
            show "eff_post (map_err_st CryptoErr (cr_encrypt (crypto st) plain dst w))
                (\<lambda>ct' w'. ok w' \<and> view w' = view w \<and> (\<exists>w1. cr_encrypt (crypto st) plain dst w = (Inr ct', w1))) ?E"
              unfolding eff_post_map_err by (rule eff_post_mono [OF crypt]) auto
          next
            fix ct' v assume "ok v \<and> view v = view w \<and> (\<exists>w1. cr_encrypt (crypto st) plain dst w = (Inr ct', w1))"
            then show "eff_post (then_eff (map_err_st StorageErr (st_write (storage st) (entry_to_blob to) ct' v))
                (\<lambda>_ w. (Inr (entry_to_blob to), w))) ?Q ?E"
              using tr [OF Inr] by (elim conjE exE) (rule fin [OF _ _ ct])
          qed
          then show ?thesis using r False Inr by (simp add: go)
        next
          case (Inl e)
          then have "transfer_blob st from to ow w = (Inl (CryptoErr e), w)" using r False by (simp add: go)
          then show ?thesis using quit [of "CryptoErr e"] by simp
        qed
      qed
    qed
  qed
qed

lemma copy_post:
  assumes "lawful S view ok st" "ok w" "entry_ok from" "entry_ok to"
  shows "eff_post (store_copy st from to ow w)
    (\<lambda>_ w'. ok w' \<and> (ow \<or> view w (entry_to_blob to) = None) \<and>
       (\<exists>ct ct'. view w (entry_to_blob from) = Some ct \<and> transferred st from to w ct ct' \<and>
          view w' = (view w)(entry_to_blob to \<mapsto> ct')))
    (\<lambda>err w'. ok w' \<and> (is_vcs_err err \<or> (\<forall>q. \<not> scratch q \<longrightarrow> view w' q = view w q)))"
  unfolding store_copy_def
  by (rule eff_post_thenI [OF eff_post_mono [OF transfer_post [OF assms, of ow]]])
    (auto simp: post_simps intro!: commit_post [OF assms(1)])

lemma rename_post:
  assumes "lawful S view ok st" "ok w" "entry_ok from" "entry_ok to" "from \<noteq> to"
  shows "eff_post (store_rename st from to ow w)
    (\<lambda>_ w'. ok w' \<and> (ow \<or> view w (entry_to_blob to) = None) \<and>
       (\<exists>ct ct'. view w (entry_to_blob from) = Some ct \<and> transferred st from to w ct ct' \<and>
          view w' = (view w)(entry_to_blob to \<mapsto> ct', entry_to_blob from := None)))
    (\<lambda>err w'. ok w')"
proof -
  have ne: "as_str from \<noteq> as_str to" using assms(5) by (metis relpath.expand)
  have bl: "addr (entry_to_blob from)" using assms(3) by (simp add: entry_ok_blob)
  have "eff_post (transfer_blob st from to ow w)
    (\<lambda>b w'. ok w' \<and> (ow \<or> view w (entry_to_blob to) = None) \<and>
       (\<exists>ct ct'. view w (entry_to_blob from) = Some ct \<and> transferred st from to w ct ct' \<and>
          view w' = (view w)(entry_to_blob to \<mapsto> ct')))
    (\<lambda>err w'. ok w')"
    by (rule eff_post_mono [OF transfer_post [OF assms(1-4)]]) auto
  then show ?thesis
    unfolding store_rename_def Let_def
    by (simp only: ne if_False, elim eff_post_thenI)
      (auto simp: post_simps lawful_storage [OF assms(1)] bl intro!: remove_post commit_post [OF assms(1)])
qed

lemma rename_same: "store_rename st e e ow w = (Inr (), w)"
  by (simp add: store_rename_def)

lemma remove_op_post:
  assumes "lawful S view ok st" "ok w" "entry_ok e"
  shows "eff_post (store_remove st e w)
    (\<lambda>_ w'. ok w' \<and> view w' = (view w)(entry_to_blob e := None))
    (\<lambda>err w'. ok w' \<and> (\<forall>q. q \<noteq> entry_to_blob e \<longrightarrow> view w' q = view w q))"
  using assms entry_ok_blob [OF assms(3)]
  unfolding store_remove_def Let_def
  by (auto simp: post_simps lawful_storage intro!: post_intros)

lemma remove_missing:
  assumes "lawful S view ok st" "ok w" "entry_ok e" "st_exists (storage st) w (entry_to_blob e) = Inr False"
  shows "store_remove st e w = (Inl (StoreNotFound (as_str e)), w)"
  using assms by (simp add: store_remove_def Let_def)

lemma list_set:
  assumes "lawful S view ok st" "ok w" "pre_addr pre" "store_list st pre w = Inr es"
  shows "sorted (map as_str es) \<and> set es = {e. relpath_ok e \<and> view w (entry_to_blob e) \<noteq> None \<and> under pre e}"
proof -
  from assms(4) obtain bs where bs: "st_list (storage st) w pre = Inr bs" "es = sort_key as_str (List.map_filter blob_to_entry bs)"
    by (auto simp: store_list_def and_then_Inr_iff)
  have "set bs = {p. view w p \<noteq> None \<and> under pre p}"
    using list_law [OF assms(2,3)] bs(1) assms(1) by (simp add: lawful_storage)
  then have "set es = {e. \<exists>b. blob_to_entry b = Some e \<and> view w b \<noteq> None \<and> under pre b}"
    using bs(2) by (auto simp: List.map_filter_def image_iff) (metis option.sel option.distinct(1))+
  then show ?thesis using bs(2) by (auto simp: blob_to_entry_Some_iff under_blob)
qed

lemma remove_blobs_post:
  assumes "lawful S view ok st" "ok w" "\<forall>e \<in> set es. addr (entry_to_blob e)"
  shows "eff_post (remove_blobs st es bs w)
    (\<lambda>r w'. ok w' \<and> r = bs @ map entry_to_blob es \<and>
       (\<forall>q. view w' q = (if q \<in> entry_to_blob ` set es then None else view w q)))
    (\<lambda>err w'. ok w' \<and> (\<forall>q. q \<notin> entry_to_blob ` set es \<longrightarrow> view w' q = view w q))"
  using assms(2,3)
proof (induction es arbitrary: bs w)
  case (Cons e es)
  have b: "addr (entry_to_blob e)" using Cons.prems(2) by simp
  show ?case
    unfolding remove_blobs.simps Let_def
  proof (rule eff_post_thenI)
    show "eff_post (map_err_st StorageErr (st_remove (storage st) (entry_to_blob e) w))
       (\<lambda>_ w'. ok w' \<and> view w' = (view w)(entry_to_blob e := None))
       (\<lambda>err w'. ok w' \<and> (\<forall>q. q \<notin> entry_to_blob ` set (e # es) \<longrightarrow> view w' q = view w q))"
      using Cons.prems(1) b by (auto simp: post_simps lawful_storage [OF assms(1)] intro!: remove_post)
  next
    fix a :: unit and v assume v: "ok v \<and> view v = (view w)(entry_to_blob e := None)"
    then show "eff_post (remove_blobs st es (bs @ [entry_to_blob e]) v)
     (\<lambda>r w'. ok w' \<and> r = bs @ map entry_to_blob (e # es) \<and>
        (\<forall>q. view w' q = (if q \<in> entry_to_blob ` set (e # es) then None else view w q)))
     (\<lambda>err w'. ok w' \<and> (\<forall>q. q \<notin> entry_to_blob ` set (e # es) \<longrightarrow> view w' q = view w q))"
      using Cons.prems(2) by (intro eff_post_mono [OF Cons.IH]) auto
  qed
qed (simp add: eff_post_simps)

lemma remove_recursive_post:
  assumes "lawful S view ok st" "ok w" "addr pre"
  shows "eff_post (remove_recursive st pre w)
    (\<lambda>es w'. ok w' \<and> es \<noteq> [] \<and> store_list st (Some pre) w = Inr es \<and>
       (\<forall>q. view w' q = (if q \<in> entry_to_blob ` set es then None else view w q)))
    (\<lambda>err w'. ok w' \<and> (\<forall>q. \<not> under (Some pre) q \<longrightarrow> view w' q = view w q))"
proof (cases "store_list st (Some pre) w")
  case (Inl e)
  then show ?thesis using assms(2) by (simp add: remove_recursive_def eff_post_simps)
next
  case (Inr es)
  have pa: "pre_addr (Some pre)" using assms(3) by (simp add: pre_addr_def)
  from list_set [OF assms(1,2) pa Inr]
  have es: "set es = {e. relpath_ok e \<and> view w (entry_to_blob e) \<noteq> None \<and> under (Some pre) e}" by simp
  have ad: "addr (entry_to_blob e)" if "e \<in> set es" for e
    using that es view_addr by auto
  have out: "q \<notin> entry_to_blob ` set es" if "\<not> under (Some pre) q" for q
    using that es under_blob by auto
  show ?thesis
    unfolding remove_recursive_def Inr then_eff_simps
  proof (cases "es = []")
    case True
    then show "eff_post (if es = [] then (Inl (StoreNotFound (as_str pre)), w)
       else then_eff (remove_blobs st es [] w) (\<lambda>blobs w.
         then_eff (map_err_st VcsErr (vc_commit (vcs st) blobs (remove_all_message pre) w)) (\<lambda>_ w. (Inr es, w))))
     (\<lambda>esa w'. ok w' \<and> esa \<noteq> [] \<and> Inr es = Inr esa \<and> (\<forall>q. view w' q = (if q \<in> entry_to_blob ` set esa then None else view w q)))
     (\<lambda>err w'. ok w' \<and> (\<forall>q. \<not> under (Some pre) q \<longrightarrow> view w' q = view w q))"
      using assms(2) by (simp add: eff_post_simps)
  next
    case False
    have rb: "eff_post (remove_blobs st es [] w)
      (\<lambda>r w'. ok w' \<and> (\<forall>q. view w' q = (if q \<in> entry_to_blob ` set es then None else view w q)))
      (\<lambda>err w'. ok w' \<and> (\<forall>q. \<not> under (Some pre) q \<longrightarrow> view w' q = view w q))"
      using ad out by (intro eff_post_mono [OF remove_blobs_post [OF assms(1,2)]]) auto
    show "eff_post (if es = [] then (Inl (StoreNotFound (as_str pre)), w)
       else then_eff (remove_blobs st es [] w) (\<lambda>blobs w.
         then_eff (map_err_st VcsErr (vc_commit (vcs st) blobs (remove_all_message pre) w)) (\<lambda>_ w. (Inr es, w))))
     (\<lambda>esa w'. ok w' \<and> esa \<noteq> [] \<and> Inr es = Inr esa \<and> (\<forall>q. view w' q = (if q \<in> entry_to_blob ` set esa then None else view w q)))
     (\<lambda>err w'. ok w' \<and> (\<forall>q. \<not> under (Some pre) q \<longrightarrow> view w' q = view w q))"
      using False out by (simp only: if_False)
        (rule eff_post_thenI [OF rb], auto simp: post_simps intro!: commit_post [OF assms(1)])
  qed
qed

end

text \<open>\<open>.gpg-id\<close> as \<open>init\<close> writes it reads back as the same recipients.\<close>

definition keyid_clean :: "keyid \<Rightarrow> bool" where
  "keyid_clean r \<longleftrightarrow> keyid_str r \<noteq> [] \<and> NL \<notin> set (keyid_str r) \<and> valid_utf8 (keyid_str r) \<and>
     trim (keyid_str r) = keyid_str r \<and> \<not> prefix ''#'' (keyid_str r) \<and> last (keyid_str r) \<noteq> CR"

lemma split_inclusive_line: "NL \<notin> set a \<Longrightarrow> split_inclusive NL (a @ NL # b) = (a @ [NL]) # split_inclusive NL b"
  by (induction a) auto

lemma gpg_id_body_lines:
  "list_all keyid_clean rs \<Longrightarrow> lines (gpg_id_body rs) = map keyid_str rs"
proof (induction rs)
  case (Cons r rs)
  then have "NL \<notin> set (keyid_str r)" "last (keyid_str r) \<noteq> CR" "keyid_str r \<noteq> []" by (auto simp: keyid_clean_def)
  moreover have "chomp_line (keyid_str r @ [NL]) = keyid_str r"
    using calculation by (auto simp: chomp_line_def strip_suffix_def suffix_def split: if_splits)
  ultimately show ?case
    using Cons split_inclusive_line [of "keyid_str r" "gpg_id_body rs"] by (simp add: lines_def gpg_id_body_def)
qed (simp add: lines_def gpg_id_body_def)

lemma valid_NL: "valid_utf8 (NL # s) = valid_utf8 s"
  by (rule valid_ascii_Cons) (simp add: byte_def)

lemma gpg_id_body_valid: "list_all keyid_clean rs \<Longrightarrow> valid_utf8 (gpg_id_body rs)"
proof (induction rs)
  case (Cons r rs)
  have "valid_utf8 (NL # gpg_id_body rs)" using Cons by (simp add: valid_NL del: valid_utf8.simps)
  with Cons show ?case using valid_append [of "keyid_str r" "NL # gpg_id_body rs"]
    by (simp add: gpg_id_body_def keyid_clean_def del: valid_utf8.simps)
qed (simp add: gpg_id_body_def)

lemma gpg_id_roundtrip:
  assumes "list_all keyid_clean rs" "rs \<noteq> []"
  shows "parse_gpg_id (gpg_id_body rs) = Inr rs"
proof -
  have "map trim (map keyid_str rs) = map keyid_str rs"
    using assms(1) by (auto simp: list_all_iff keyid_clean_def)
  moreover have "filter (\<lambda>l. l \<noteq> [] \<and> \<not> prefix ''#'' l) (map keyid_str rs) = map keyid_str rs"
    using assms(1) by (auto simp: list_all_iff keyid_clean_def intro!: filter_True)
  ultimately have "gpg_id_lines (gpg_id_body rs) = map keyid_str rs"
    by (simp only: gpg_id_lines_def gpg_id_body_lines [OF assms(1)])
  then show ?thesis
    using gpg_id_body_valid [OF assms(1)] assms(2) by (simp add: parse_gpg_id_def from_utf8_def comp_def)
qed

context storage_laws
begin

lemma read_default_law:
  assumes "lawful S view ok st" "ok w" "addr p" "read_default st p w = Inr b"
  shows "b = unwrap_or [] (view w p)"
  using assms read_step [OF assms(1-3)] by (auto simp: read_default_def and_then_Inr_iff)

lemma install_post:
  assumes "lawful S view ok st" "ok w"
  shows "eff_post (install_gitattributes st w)
    (\<lambda>changed w'. ok w' \<and>
       (let old = unwrap_or [] (view w gitattributes_path) in
        if changed then \<exists>body. view w' = (view w)(gitattributes_path \<mapsto> body) \<and> prefix old body \<and>
             (valid_utf8 old \<longrightarrow> has_gpg_binary_rule body)
        else w' = w \<and> has_gpg_binary_rule old))
    (\<lambda>err w'. ok w' \<and> \<not> is_vcs_err err \<and> (\<forall>q. \<not> scratch q \<longrightarrow> view w' q = view w q))"
proof (cases "read_default st gitattributes_path w")
  case (Inl e)
  then have "\<not> is_vcs_err e" by (auto simp: read_default_def and_then_def map_err_def split: sum.splits)
  then show ?thesis using Inl assms(2) by (simp add: install_gitattributes_def eff_post_simps)
next
  case (Inr old)
  have old: "old = unwrap_or [] (view w gitattributes_path)"
    by (rule read_default_law [OF assms gitattributes_path_addr Inr])
  define base where "base = (if old \<noteq> [] \<and> last old \<noteq> NL then old @ [NL] else old)"
  have base: "base = [] \<or> last base = NL" "prefix old base" "valid_utf8 old \<Longrightarrow> valid_utf8 base"
    using valid_append [of old "[NL]"] valid_NL [of "[]"] by (auto simp: base_def)
  show ?thesis
  proof (cases "has_gpg_binary_rule old")
    case True
    then show ?thesis using Inr assms(2) by (simp add: install_gitattributes_def eff_post_simps flip: old)
  next
    case False
    then have "install_gitattributes st w =
        then_eff (map_err_st StorageErr (st_write (storage st) gitattributes_path (base @ GITATTRIBUTES_RULE) w)) (\<lambda>_ w. (Inr True, w))"
      using Inr by (simp add: install_gitattributes_def base_def)
    moreover have "prefix old (base @ GITATTRIBUTES_RULE)" using base(2) by (simp add: prefix_order.trans)
    moreover have "valid_utf8 old \<Longrightarrow> has_gpg_binary_rule (base @ GITATTRIBUTES_RULE)"
      using base has_rule_append by blast
    ultimately show ?thesis
      using assms(2) unfolding old [symmetric]
      by (auto simp: post_simps lawful_storage [OF assms(1)] intro!: write_post gitattributes_path_addr)
  qed
qed

lemma gpg_id_neq_gitattributes: "gpg_id_path \<noteq> gitattributes_path"
  by (simp add: gpg_id_path_eq gitattributes_path_eq)

lemma init_op_post:
  assumes "lawful S view ok st" "ok w"
  shows "eff_post (store_init st rs w)
    (\<lambda>_ w'. ok w' \<and> rs \<noteq> [] \<and> view w' gpg_id_path = Some (gpg_id_body rs) \<and>
       prefix (unwrap_or [] (view w gitattributes_path)) (unwrap_or [] (view w' gitattributes_path)) \<and>
       (valid_utf8 (unwrap_or [] (view w gitattributes_path)) \<longrightarrow>
          has_gpg_binary_rule (unwrap_or [] (view w' gitattributes_path))) \<and>
       (\<forall>q. q \<noteq> gpg_id_path \<longrightarrow> q \<noteq> gitattributes_path \<longrightarrow> view w' q = view w q))
    (\<lambda>err w'. ok w')"
  (is "eff_post _ ?Q ?E")
proof (cases "rs = []")
  case True
  then show ?thesis using assms(2) by (simp add: store_init_def eff_post_simps)
next
  case False
  let ?I = "\<lambda>w'. view w' gpg_id_path = Some (gpg_id_body rs) \<and>
       prefix (unwrap_or [] (view w gitattributes_path)) (unwrap_or [] (view w' gitattributes_path)) \<and>
       (valid_utf8 (unwrap_or [] (view w gitattributes_path)) \<longrightarrow>
          has_gpg_binary_rule (unwrap_or [] (view w' gitattributes_path))) \<and>
       (\<forall>q. q \<noteq> gpg_id_path \<longrightarrow> q \<noteq> gitattributes_path \<longrightarrow> view w' q = view w q)"
  note ne = gpg_id_neq_gitattributes gpg_id_neq_gitattributes [symmetric]
  show ?thesis
    unfolding store_init_def if_not_P [OF False]
  proof (rule eff_post_thenI)
    show "eff_post (map_err_st StorageErr (st_write (storage st) gpg_id_path (gpg_id_body rs) w))
        (\<lambda>_ v. ok v \<and> view v = (view w)(gpg_id_path \<mapsto> gpg_id_body rs)) ?E"
      using assms(2) by (auto simp: post_simps lawful_storage [OF assms(1)] intro!: write_post gpg_id_path_addr)
  next
    fix a :: unit and v assume v: "ok v \<and> view v = (view w)(gpg_id_path \<mapsto> gpg_id_body rs)"
    have inst: "eff_post (install_gitattributes st v) (\<lambda>_ w'. ok w' \<and> ?I w') ?E"
      using v ne by (intro eff_post_mono [OF install_post [OF assms(1)]])
        (auto simp: Let_def unwrap_or_def split: if_splits option.splits)
    show "eff_post (then_eff (install_gitattributes st v) (\<lambda>attrs_changed w.
        then_eff (map_err_st VcsErr (vc_init (vcs st) w)) (\<lambda>_ w.
          (let paths = [gpg_id_path] @ (if attrs_changed then [gitattributes_path] else []) in
           then_eff (map_err_st VcsErr (vc_commit (vcs st) paths init_message w)) (\<lambda>_ w. (Inr (), w)))))) ?Q ?E"
    proof (rule eff_post_thenI [OF inst], rule eff_post_thenI)
      fix b u assume u: "ok u \<and> ?I u"
      show "eff_post (map_err_st VcsErr (vc_init (vcs st) u)) (\<lambda>_ w'. ok w' \<and> view w' = view u) ?E"
        unfolding eff_post_map_err using u by (intro init_post [OF assms(1)]) auto
      fix c x assume x: "ok x \<and> view x = view u"
      show "eff_post (let paths = [gpg_id_path] @ (if b then [gitattributes_path] else []) in
           then_eff (map_err_st VcsErr (vc_commit (vcs st) paths init_message x)) (\<lambda>_ w. (Inr (), w))) ?Q ?E"
        unfolding Let_def eff_post_then eff_post_map_err eff_post_result
        using u x False by (intro commit_post [OF assms(1)]) auto
    qed
  qed
qed

end

end
