(* ===== verification/Storage_Fs.thy ===== *)
theory Storage_Fs
  imports Fs_World Pass_Store_Facts
begin

text \<open>
  The CLI's storage backend (\<open>bypass-cli/src/storage_fs.rs\<close>): path translation with the refusal of
  symbolic links, atomic writes through a sibling temporary file, shred-style removal, and the
  directory walk behind \<open>list\<close>.  The backend obeys \<open>storage_laws\<close> (the interpretation \<open>fs\<close> in
  \<open>Storage_Fs_Laws\<close>).
\<close>

section \<open>Path translation\<close>

datatype fs_error = IoAt path io_kind | OutsideRoot path | SymlinkInStore path | NoStoreRoot

fun reject_symlinks :: "'z fs_world_scheme \<Rightarrow> path \<Rightarrow> path \<Rightarrow> fs_error + unit" where
  "reject_symlinks w probe [] = Inr ()"
| "reject_symlinks w probe (segment # rest) =
     (let probe = probe @ [segment] in
      case lstat w probe of
        Inr (Link target) \<Rightarrow> Inl (SymlinkInStore probe)
      | Inr _ \<Rightarrow> reject_symlinks w probe rest
      | Inl NotFound \<Rightarrow> Inr ()
      | Inl source \<Rightarrow> Inl (IoAt probe source))"

definition absolute :: "'z fs_world_scheme \<Rightarrow> relpath \<Rightarrow> fs_error + path" where
  "absolute w rel =
     (let abs = segments rel in
      if prefix ''/'' (as_str rel) then Inl (OutsideRoot abs)
      else and_then (reject_symlinks w [] (segments rel)) (\<lambda>_. Inr abs))"

section \<open>Reading\<close>

definition fs_storage_read :: "'z fs_world_scheme \<Rightarrow> relpath \<Rightarrow> fs_error + bytes option" where
  "fs_storage_read w path =
     and_then (absolute w path) (\<lambda>abs.
       case fs_read w abs of
         Inr b \<Rightarrow> Inr (Some b)
       | Inl NotFound \<Rightarrow> Inr None
       | Inl e \<Rightarrow> Inl (IoAt abs e))"

definition fs_storage_exists :: "'z fs_world_scheme \<Rightarrow> relpath \<Rightarrow> fs_error + bool" where
  "fs_storage_exists w path = and_then (absolute w path) (\<lambda>abs. Inr (path_exists w abs))"

section \<open>Atomic writes\<close>

definition tmp_name :: "str \<Rightarrow> nat \<Rightarrow> nat \<Rightarrow> str" where
  "tmp_name dest process ns = dest @ ''.tmp.'' @ show_nat process @ ''.'' @ show_nat ns"

definition unique_tmp_path :: "path \<Rightarrow> str \<Rightarrow> 'z fs_world_scheme \<Rightarrow> path" where
  "unique_tmp_path dir dest w = dir @ [tmp_name dest (pid w) (nanos w (tick w))]"

definition fs_storage_write :: "relpath \<Rightarrow> bytes \<Rightarrow> ('z fs_world_scheme, fs_error, unit) eff" where
  "fs_storage_write path data w =
     then_eff (absolute w path, w) (\<lambda>abs w.
     (let parent = butlast abs in
      then_eff (map_err_st (IoAt parent) (create_dir_all parent w)) (\<lambda>_ w.
      (let tmp_path = unique_tmp_path parent (last abs) w in
       then_eff (map_err_st (IoAt tmp_path) (create_new tmp_path w)) (\<lambda>_ w.
       then_eff (catch_eff (then_eff (write_at tmp_path 0 data w) (\<lambda>_. sync_all))
                   (\<lambda>e w. (Inl (IoAt tmp_path e), snd (unlink tmp_path w)))) (\<lambda>_ w.
       then_eff (catch_eff (fs_rename tmp_path abs w)
                   (\<lambda>e w. (Inl (IoAt abs e), snd (unlink tmp_path w)))) (\<lambda>_ w.
         (Inr (), w))))))))"

section \<open>Shred-style removal\<close>

definition SHRED_PASSES :: nat where "SHRED_PASSES = 3"

definition SHRED_BUF :: nat where "SHRED_BUF = 4096"

definition file_len :: "'z fs_world_scheme \<Rightarrow> path \<Rightarrow> io_kind + nat" where
  "file_len w p = and_then (lstat w p) (\<lambda>n. case n of File b \<Rightarrow> Inr (length b) | _ \<Rightarrow> Inr SHRED_BUF)"

definition open_write :: "path \<Rightarrow> ('z fs_world_scheme, io_kind, unit) eff" where
  "open_write p = attempt (\<lambda>w. case node_at w p of
       Some (File b) \<Rightarrow> (Inr (), w)
     | Some Dir \<Rightarrow> (Inl IsADirectory, w)
     | Some (Link t) \<Rightarrow> (Inl OtherIo, w)
     | None \<Rightarrow> (Inl NotFound, w))"

text \<open>The inner \<open>while remaining > 0\<close>; the file's cursor is the argument \<open>pos\<close>.\<close>

function write_chunks :: "path \<Rightarrow> nat \<Rightarrow> nat \<Rightarrow> ('z fs_world_scheme, io_kind, unit) eff" where
  "write_chunks path pos remaining w =
     (if remaining = 0 then (Inr (), w)
      else
        (let chunk = min remaining SHRED_BUF;
             (buf, w) = draw chunk w in
         then_eff (write_at path pos buf w) (\<lambda>_ w. write_chunks path (pos + chunk) (remaining - chunk) w)))"
  by pat_completeness auto
termination
  by (relation "measure (\<lambda>(_, _, remaining, _). remaining)") (auto simp: SHRED_BUF_def)

declare write_chunks.simps [simp del]

fun overwrite_passes :: "path \<Rightarrow> nat \<Rightarrow> nat \<Rightarrow> ('z fs_world_scheme, io_kind, unit) eff" where
  "overwrite_passes path len 0 w = (Inr (), w)"
| "overwrite_passes path len (Suc passes) w =
     then_eff (sync_all w) (\<lambda>_ w. \<comment> \<open>the \<open>seek\<close>: may fail, leaves the tree as it is\<close>
     then_eff (write_chunks path 0 len w) (\<lambda>_ w.
     then_eff (sync_all w) (\<lambda>_ w.
       overwrite_passes path len passes w)))"

definition overwrite_in_place :: "path \<Rightarrow> nat \<Rightarrow> ('z fs_world_scheme, fs_error, unit) eff" where
  "overwrite_in_place path passes w =
     then_eff (map_err (IoAt path) (file_len w path), w) (\<lambda>len w.
     then_eff (map_err_st (IoAt path) (open_write path w)) (\<lambda>_ w.
       if len = 0 then map_err_st (IoAt path) (sync_all w)
       else map_err_st (IoAt path) (overwrite_passes path len passes w)))"

definition overwrite_then_unlink :: "path \<Rightarrow> ('z fs_world_scheme, fs_error, unit) eff" where
  "overwrite_then_unlink path w =
     then_eff (overwrite_in_place path SHRED_PASSES w) (\<lambda>_ w. map_err_st (IoAt path) (unlink path w))"

definition fs_storage_remove :: "relpath \<Rightarrow> ('z fs_world_scheme, fs_error, unit) eff" where
  "fs_storage_remove path w =
     then_eff (absolute w path, w) (\<lambda>abs w.
       if \<not> path_exists w abs then (Inr (), w) else overwrite_then_unlink abs w)"

section \<open>Listing\<close>

definition rel_of :: "path \<Rightarrow> relpath option" where
  "rel_of q =
     (let rel_str = replace_char BACKSLASH ''/'' (from_utf8_lossy (join_with ''/'' q)) in
      case relpath_new rel_str of Inr rp \<Rightarrow> Some rp | Inl _ \<Rightarrow> None)"

definition max_depth :: "'z fs_world_scheme \<Rightarrow> nat" where
  "max_depth w = Max (set (0 # map (\<lambda>(q, _). length q) (tree w)))"

lemma length_le_max_depth: "node_at w q \<noteq> None \<Longrightarrow> length q \<le> max_depth w"
  by (auto simp: max_depth_def node_at_def dest!: map_of_SomeD intro!: Max_ge image_eqI [where x = "(q, _)"])

function walk :: "'z fs_world_scheme \<Rightarrow> path \<Rightarrow> relpath list \<Rightarrow> fs_error + relpath list" where
  "walk w dir out =
     and_then (map_err (IoAt dir) (fs_read_dir w dir)) (\<lambda>entries.
       try_each (\<lambda>path out.
         if last path = ''.git'' then Inr out
         else (case node_at w path of
             Some Dir \<Rightarrow> walk w path out
           | Some (File _) \<Rightarrow> (case rel_of path of Some rp \<Rightarrow> Inr (out @ [rp]) | None \<Rightarrow> Inr out)
           | _ \<Rightarrow> Inr out)) entries out)"
  by pat_completeness auto
termination
proof (relation "measure (\<lambda>(w, dir, _). Suc (max_depth w) - length dir)", goal_cases)
  case (2 w dir out entries path out')
  then have "path \<noteq> []" "butlast path = dir" "node_at w path \<noteq> None"
    using fs_read_dir_Inr [of w dir entries] children_iff [of path w dir] by simp_all
  moreover from this have "length path = Suc (length dir)" by auto
  ultimately show ?case using length_le_max_depth [of w path] by simp
qed simp

declare walk.simps [simp del]

definition fs_storage_list :: "'z fs_world_scheme \<Rightarrow> relpath option \<Rightarrow> fs_error + relpath list" where
  "fs_storage_list w pre =
     and_then (case pre of Some p \<Rightarrow> absolute w p | None \<Rightarrow> Inr []) (\<lambda>start.
       if \<not> path_exists w start then Inr [] else walk w start [])"

text \<open>\<open>impl Storage for StorageFs\<close>.\<close>

definition storage_fs :: "('z fs_world_scheme, fs_error) storage_impl" where
  "storage_fs = \<lparr>st_read = fs_storage_read, st_write = fs_storage_write, st_remove = fs_storage_remove,
                st_exists = fs_storage_exists, st_list = fs_storage_list\<rparr>"

end
