(* ===== verification/Storage_Fs_Laws.thy ===== *)
theory Storage_Fs_Laws
  imports Storage_Fs
begin

text \<open>
  The file-system backend keeps its tree well formed under every fault, and obeys \<open>storage_laws\<close>: the
  blobs it shows are the regular files at addressable paths.
\<close>

section \<open>Well-formed trees and the blobs in them\<close>

definition node_ok :: "'z fs_world_scheme \<Rightarrow> path \<Rightarrow> bool" where
  "node_ok w p \<longleftrightarrow> is_dir w (butlast p) \<and> (''.git'' \<in> set p \<or> list_all seg_addr p)"

definition fs_ok :: "'z fs_world_scheme \<Rightarrow> bool" where
  "fs_ok w \<longleftrightarrow> distinct (map fst (tree w)) \<and> \<not> no_stat w [] \<and> list_all (\<lambda>(p, _). node_ok w p) (tree w)"

definition file_bytes :: "node option \<Rightarrow> bytes option" where
  "file_bytes n = (case n of Some (File b) \<Rightarrow> Some b | _ \<Rightarrow> None)"

definition blobs :: "'z fs_world_scheme \<Rightarrow> relpath \<Rightarrow> bytes option" where
  "blobs w p = (if addr p then file_bytes (node_at w (segments p)) else None)"

definition is_tmp_path :: "relpath \<Rightarrow> bool" where
  "is_tmp_path p \<longleftrightarrow> (\<exists>dir dest a b. segments p = dir @ [tmp_name dest a b])"

lemma file_bytes_simps [simp]:
  "file_bytes None = None" "file_bytes (Some (File b)) = Some b" "file_bytes (Some Dir) = None"
  "file_bytes (Some (Link t)) = None"
  by (simp_all add: file_bytes_def)

lemma file_bytes_Some: "file_bytes n = Some b \<longleftrightarrow> n = Some (File b)"
  by (simp add: file_bytes_def split: option.split node.split)

lemma fs_ok_iff:
  "fs_ok w \<longleftrightarrow> distinct (map fst (tree w)) \<and> \<not> no_stat w [] \<and> (\<forall>p. node_at w p \<noteq> None \<longrightarrow> node_ok w p)"
proof -
  have "list_all (\<lambda>(p, _). node_ok w p) (tree w) \<longleftrightarrow> (\<forall>p. node_at w p \<noteq> None \<longrightarrow> node_ok w p)"
    unfolding list_all_iff node_at_def map_of_eq_None_iff by auto
  then show ?thesis by (simp add: fs_ok_def)
qed

lemma fs_ok_node: "fs_ok w \<Longrightarrow> node_at w p \<noteq> None \<Longrightarrow> node_ok w p"
  by (simp add: fs_ok_iff)

lemma is_dir_cong: "node_at w = node_at v \<Longrightarrow> is_dir w = is_dir v"
  by (simp add: is_dir_def fun_eq_iff)

lemma fs_ok_cong: "tree w = tree v \<Longrightarrow> no_stat w = no_stat v \<Longrightarrow> fs_ok w = fs_ok v"
  by (simp add: fs_ok_def node_ok_def is_dir_def node_at_def)

lemma fs_ok_tick [simp]: "fs_ok (tick_on w) = fs_ok w" and fs_ok_drawn [simp]: "fs_ok (w\<lparr>drawn := n\<rparr>) = fs_ok w"
  by (rule fs_ok_cong; simp add: tick_on_def)+

lemma node_at_tick_fun [simp]: "node_at (tick_on w) = node_at w"
  and node_at_drawn_fun [simp]: "node_at (w\<lparr>drawn := n\<rparr>) = node_at w"
  by (simp_all add: fun_eq_iff fs_simps)

lemma node_at_put_fun [simp]: "node_at (put_node p n w) = (node_at w)(p \<mapsto> n)"
  and node_at_del_fun [simp]: "node_at (del_node p w) = (node_at w)(p := None)"
  by (simp_all add: fun_eq_iff fs_simps)

lemma fs_ok_put:
  assumes "fs_ok w" "''.git'' \<in> set p \<or> list_all seg_addr p" "is_dir w (butlast p) \<or> p = [] \<and> n = Dir"
    and "is_dir w p \<longrightarrow> n = Dir"
  shows "fs_ok (put_node p n w)"
proof -
  have dir: "is_dir (put_node p n w) q" if "is_dir w q" for q
    using that assms(4) by (auto simp: is_dir_def fs_simps)
  have "node_ok (put_node p n w) q" if "node_at (put_node p n w) q \<noteq> None" for q
  proof (cases "q = p")
    case True
    then show ?thesis using assms(2,3,4) dir by (auto simp: node_ok_def is_dir_def fs_simps)
  next
    case False
    then have "node_ok w q" using that fs_ok_node [OF assms(1)] by (simp add: fs_simps)
    then show ?thesis using dir by (simp add: node_ok_def)
  qed
  moreover have "distinct (map fst (tree (put_node p n w)))" "\<not> no_stat (put_node p n w) []"
    using assms(1) by (simp_all add: fs_ok_iff distinct_put) (simp add: put_node_def)
  ultimately show ?thesis by (simp add: fs_ok_iff del: node_at_put_fun)
qed

lemma fs_ok_del:
  assumes "fs_ok w" "\<not> is_dir w p"
  shows "fs_ok (del_node p w)"
proof -
  have dir: "is_dir (del_node p w) q" if "is_dir w q" for q
    using that assms(2) by (auto simp: is_dir_def fs_simps)
  have "node_ok (del_node p w) q" if "node_at (del_node p w) q \<noteq> None" for q
    using that fs_ok_node [OF assms(1), of q] dir by (auto simp: node_ok_def fs_simps split: if_splits)
  moreover have "distinct (map fst (tree (del_node p w)))" "\<not> no_stat (del_node p w) []"
    using assms(1) by (simp_all add: fs_ok_iff distinct_del) (simp add: del_node_def)
  ultimately show ?thesis by (simp add: fs_ok_iff del: node_at_del_fun)
qed

text \<open>Every directory on the way to a node exists.\<close>

lemma fs_ok_prefix:
  assumes "fs_ok w" "node_at w p \<noteq> None" "k < length p"
  shows "is_dir w (take k p)"
  using assms(2,3)
proof (induction p rule: rev_induct)
  case (snoc x xs)
  have d: "is_dir w xs" using fs_ok_node [OF assms(1) snoc.prems(1)] by (simp add: node_ok_def)
  show ?case
  proof (cases "k = length xs")
    case False
    then show ?thesis using snoc.IH d snoc.prems(2) by (simp add: is_dir_def)
  qed (use d in simp)
qed simp

section \<open>What each system call leaves\<close>

lemma attempt_post:
  "(faults w (tick w) = None \<Longrightarrow> eff_post (act (tick_on w)) Q E) \<Longrightarrow> E OtherIo (tick_on w) \<Longrightarrow>
     eff_post (attempt act w) Q E"
  by (simp add: attempt_def eff_post_simps)

lemma sync_post: "(faults w (tick w) = None \<Longrightarrow> Q () (tick_on w)) \<Longrightarrow> E OtherIo (tick_on w) \<Longrightarrow> eff_post (sync_all w) Q E"
  unfolding sync_all_def by (rule attempt_post) (simp_all add: eff_post_simps)

definition grown :: "'z fs_world_scheme \<Rightarrow> 'z fs_world_scheme \<Rightarrow> bool" where
  "grown w w' \<longleftrightarrow> fs_ok w' \<and> (\<forall>q. node_at w' q = node_at w q \<or>
     node_at w q = None \<and> node_at w' q = Some Dir \<and> list_all seg_addr q)"

lemma grown_refl: "fs_ok w \<Longrightarrow> grown w w"
  by (simp add: grown_def)

lemma grown_trans: "grown u v \<Longrightarrow> grown v w \<Longrightarrow> grown u w"
  unfolding grown_def by metis

lemma grown_blobs: "grown w w' \<Longrightarrow> blobs w' = blobs w"
  unfolding fun_eq_iff
proof
  fix p assume "grown w w'"
  then have "node_at w' (segments p) = node_at w (segments p) \<or>
      node_at w (segments p) = None \<and> node_at w' (segments p) = Some Dir"
    by (auto simp: grown_def)
  then show "blobs w' p = blobs w p" by (auto simp: blobs_def)
qed

lemma grown_dir: "grown w w' \<Longrightarrow> is_dir w p \<Longrightarrow> is_dir w' p"
  unfolding grown_def is_dir_def by (metis option.distinct(1))

lemma mkdir_post:
  assumes "fs_ok w" "list_all seg_addr p"
  shows "eff_post (mkdir p w) (\<lambda>_ w'. grown w w' \<and> is_dir w' p) (\<lambda>_ w'. grown w w')"
  unfolding mkdir_def
proof (rule attempt_post)
  show "grown w (tick_on w)" using assms by (simp add: grown_def)
  let ?v = "tick_on w"
  have "fs_ok ?v" using assms by simp
  moreover have "fs_ok (put_node p Dir ?v)" if "p = [] \<or> is_dir ?v (butlast p)"
    using that assms by (intro fs_ok_put) auto
  ultimately show "eff_post (if node_at ?v p \<noteq> None then (Inl AlreadyExists, ?v)
      else if p \<noteq> [] \<and> \<not> is_dir ?v (butlast p) then (Inl NotFound, ?v) else (Inr (), put_node p Dir ?v))
     (\<lambda>_ w'. grown w w' \<and> is_dir w' p) (\<lambda>_ w'. grown w w')"
    using assms(2) by (auto simp: eff_post_simps grown_def is_dir_def)
qed

lemma mkdirs_post:
  assumes "fs_ok w" "\<forall>p \<in> set ps. list_all seg_addr p"
  shows "eff_post (mkdirs ps w) (\<lambda>_ w'. grown w w' \<and> (\<forall>p \<in> set ps. is_dir w' p)) (\<lambda>_ w'. grown w w')"
  using assms
proof (induction ps w rule: mkdirs.induct)
  case (2 p ps w)
  show ?case
  proof (cases "node_at w p")
    case None
    have "eff_post (then_eff (mkdir p w) (\<lambda>_ w. mkdirs ps w))
        (\<lambda>_ w'. grown w w' \<and> (\<forall>p \<in> set (p # ps). is_dir w' p)) (\<lambda>_ w'. grown w w')"
    proof (rule eff_post_thenI)
      show "eff_post (mkdir p w) (\<lambda>_ w'. grown w w' \<and> is_dir w' p) (\<lambda>_ w'. grown w w')"
        using "2.prems" by (intro mkdir_post) auto
    next
      fix a v assume v: "mkdir p w = (Inr a, v)" "grown w v \<and> is_dir v p"
      then have "fs_ok v" by (simp add: grown_def)
      then show "eff_post (mkdirs ps v) (\<lambda>_ w'. grown w w' \<and> (\<forall>p \<in> set (p # ps). is_dir w' p)) (\<lambda>_ w'. grown w w')"
        using "2.prems" v by (intro eff_post_mono [OF "2.IH"(1) [OF None v(1)]]) (auto intro: grown_trans grown_dir)
    qed
    with None show ?thesis by simp
  next
    case (Some n)
    show ?thesis
    proof (cases n)
      case Dir
      then have "eff_post (mkdirs ps w) (\<lambda>_ w'. grown w w' \<and> (\<forall>p \<in> set ps. is_dir w' p)) (\<lambda>_ w'. grown w w')"
        using Some "2.prems" by (intro "2.IH"(2)) auto
      then have "eff_post (mkdirs ps w) (\<lambda>_ w'. grown w w' \<and> (\<forall>p \<in> set (p # ps). is_dir w' p)) (\<lambda>_ w'. grown w w')"
        using Some Dir grown_dir [of w _ p] by (auto simp: is_dir_def intro: eff_post_mono)
      then show ?thesis using Some Dir by simp
    qed (use Some "2.prems" in \<open>auto simp: eff_post_simps grown_refl\<close>)
  qed
qed (simp add: eff_post_simps grown_refl)

lemma create_dir_all_post:
  assumes "fs_ok w" "list_all seg_addr p"
  shows "eff_post (create_dir_all p w) (\<lambda>_ w'. grown w w' \<and> is_dir w' p) (\<lambda>_ w'. grown w w')"
proof -
  have "list_all seg_addr (take k p)" for k
    using assms(2) by (auto simp: list_all_iff dest: in_set_takeD)
  then have "\<forall>q \<in> set (map (\<lambda>k. take k p) [0..<Suc (length p)]). list_all seg_addr q"
    by (auto simp del: upt_Suc)
  from mkdirs_post [OF assms(1) this] show ?thesis
    unfolding create_dir_all_def by (rule eff_post_mono) (auto simp del: upt_Suc dest: bspec [of _ _ "length p"])
qed

text \<open>A world that differs from another at one path only, and not by a directory.\<close>

definition only_at :: "path \<Rightarrow> 'z fs_world_scheme \<Rightarrow> 'z fs_world_scheme \<Rightarrow> bool" where
  "only_at p w w' \<longleftrightarrow> fs_ok w' \<and> (\<forall>q. q \<noteq> p \<longrightarrow> node_at w' q = node_at w q) \<and> \<not> is_dir w' p"

lemma only_at_trans: "only_at p u v \<Longrightarrow> only_at p v w \<Longrightarrow> only_at p u w"
  by (simp add: only_at_def)

lemma only_at_file: "fs_ok w \<Longrightarrow> \<not> is_dir w p \<Longrightarrow> only_at p w w"
  by (simp add: only_at_def)

lemma only_at_blobs: "only_at (segments p) w w' \<Longrightarrow> q \<noteq> p \<Longrightarrow> blobs w' q = blobs w q"
  by (metis blobs_def only_at_def join_segments relpath.expand)

lemma create_new_post:
  assumes "fs_ok w" "list_all seg_addr p"
  shows "eff_post (create_new p w)
    (\<lambda>_ w'. fs_ok w' \<and> node_at w p = None \<and> node_at w' = (node_at w)(p \<mapsto> File []))
    (\<lambda>_ w'. fs_ok w' \<and> node_at w' = node_at w)"
  unfolding create_new_def
proof (rule attempt_post)
  let ?v = "tick_on w"
  have "fs_ok (put_node p (File []) ?v)" if "is_dir ?v (butlast p)" "node_at ?v p = None"
    using that assms by (intro fs_ok_put) (auto simp: is_dir_def)
  then show "eff_post (if node_at ?v p \<noteq> None then (Inl AlreadyExists, ?v)
      else if p = [] \<or> \<not> is_dir ?v (butlast p) then (Inl NotFound, ?v) else (Inr (), put_node p (File []) ?v))
     (\<lambda>_ w'. fs_ok w' \<and> node_at w p = None \<and> node_at w' = (node_at w)(p \<mapsto> File []))
     (\<lambda>_ w'. fs_ok w' \<and> node_at w' = node_at w)"
    using assms(1) by (auto simp: eff_post_simps)
qed (use assms(1) in simp)

lemma fs_ok_put_same_kind:
  assumes "fs_ok w" "node_at w p = Some (File old)"
  shows "fs_ok (put_node p (File new) w)"
  using assms fs_ok_node [OF assms(1), of p] by (intro fs_ok_put) (auto simp: node_ok_def is_dir_def)

lemma write_at_post:
  assumes "fs_ok w" "node_at w p = Some (File old)"
  shows "eff_post (write_at p pos new w)
    (\<lambda>_ w'. fs_ok w' \<and> node_at w' = (node_at w)(p \<mapsto> File (overlay pos new old)) \<and> drawn w' = drawn w \<and> entropy w' = entropy w)
    (\<lambda>_ w'. fs_ok w' \<and> (\<exists>b. node_at w' = (node_at w)(p \<mapsto> File b)))"
proof -
  have "fs_ok (put_node p (File b) (tick_on w))" for b
    using assms by (intro fs_ok_put_same_kind) auto
  moreover have "drawn (put_node p n (tick_on w)) = drawn w" "entropy (put_node p n (tick_on w)) = entropy w" for n
    by (simp_all add: put_node_def tick_on_def)
  ultimately show ?thesis
    using assms by (auto simp: write_at_def Let_def eff_post_simps split: option.splits)
qed

lemma unlink_post:
  assumes "fs_ok w"
  shows "eff_post (unlink p w) (\<lambda>_ w'. fs_ok w' \<and> node_at w' = (node_at w)(p := None))
    (\<lambda>_ w'. fs_ok w' \<and> node_at w' = node_at w)"
  unfolding unlink_def
proof (rule attempt_post)
  let ?v = "tick_on w"
  have "fs_ok (del_node p ?v)" if "node_at ?v p \<noteq> Some Dir"
    using that assms by (intro fs_ok_del) (auto simp: is_dir_def)
  then show "eff_post (case node_at ?v p of None \<Rightarrow> (Inl (if blocked ?v p then NotADirectory else NotFound), ?v) | Some Dir \<Rightarrow> (Inl IsADirectory, ?v)
      | Some _ \<Rightarrow> (Inr (), del_node p ?v))
     (\<lambda>_ w'. fs_ok w' \<and> node_at w' = (node_at w)(p := None)) (\<lambda>_ w'. fs_ok w' \<and> node_at w' = node_at w)"
    using assms by (auto simp: eff_post_simps split: option.split node.split)
qed (use assms in simp)

lemma fs_rename_post:
  assumes "fs_ok w" "node_at w a = Some (File d)" "list_all seg_addr b" "is_dir w (butlast b)" "a \<noteq> b"
  shows "eff_post (fs_rename a b w)
    (\<lambda>_ w'. fs_ok w' \<and> node_at w' = (node_at w)(a := None, b \<mapsto> File d))
    (\<lambda>_ w'. fs_ok w' \<and> node_at w' = node_at w)"
  unfolding fs_rename_def
proof (rule attempt_post)
  let ?v = "tick_on w"
  have "butlast b \<noteq> a" using assms(2,4) by (auto simp: is_dir_def)
  moreover have "fs_ok (del_node a ?v)" using assms by (intro fs_ok_del) (auto simp: is_dir_def)
  ultimately have "fs_ok (put_node b (File d) (del_node a ?v))" if "\<not> is_dir ?v b"
    using that assms by (intro fs_ok_put) (auto simp: is_dir_def)
  then show "eff_post (case node_at ?v a of None \<Rightarrow> (Inl NotFound, ?v)
      | Some n \<Rightarrow> (if is_dir ?v b then (Inl IsADirectory, ?v) else (Inr (), put_node b n (del_node a ?v))))
     (\<lambda>_ w'. fs_ok w' \<and> node_at w' = (node_at w)(a := None, b \<mapsto> File d))
     (\<lambda>_ w'. fs_ok w' \<and> node_at w' = node_at w)"
    using assms by (auto simp: eff_post_simps)
qed (use assms in simp)

section \<open>Path translation\<close>

lemma reject_symlinks_ok:
  "reject_symlinks w pre ss = Inr () \<Longrightarrow> 0 < k \<Longrightarrow> k \<le> length ss \<Longrightarrow> fs_ok w \<Longrightarrow>
     node_at w (pre @ take k ss) \<noteq> Some (Link t)"
proof (induction ss arbitrary: pre k)
  case (Cons s ss)
  show ?case
  proof (cases "lstat w (pre @ [s])")
    case (Inl e)
    with Cons.prems have "node_at w (pre @ [s]) = None"
      by (auto simp: lstat_def split: option.splits if_splits)
    moreover obtain j where "k = Suc j" using Cons.prems(2) by (cases k) auto
    ultimately show ?thesis
      using fs_ok_prefix [OF \<open>fs_ok w\<close>, of "pre @ s # take j ss" "Suc (length pre)"]
      by (cases "j = 0 \<or> ss = []") (auto simp: is_dir_def)
  next
    case (Inr n)
    then have n: "node_at w (pre @ [s]) = Some n" "n \<noteq> Link u" for u
      using Cons.prems(1) by (cases n; simp)+
    obtain j where k: "k = Suc j" using Cons.prems(2) by (cases k) auto
    have "reject_symlinks w (pre @ [s]) ss = Inr ()"
      using Cons.prems(1) Inr n(2) by (cases n) auto
    from Cons.IH [OF this, of j] n k Cons.prems show ?thesis by (cases "j = 0") auto
  qed
qed simp

lemma absolute_Inr:
  "absolute w p = Inr ap \<Longrightarrow> ap = segments p \<and> reject_symlinks w [] (segments p) = Inr ()"
  by (auto simp: absolute_def Let_def and_then_Inr_iff split: if_split_asm)

lemma reject_symlinks_stat:
  "reject_symlinks w pre ss = Inr () \<Longrightarrow> ss \<noteq> [] \<Longrightarrow> fs_ok w \<Longrightarrow> node_at w (pre @ ss) \<noteq> None \<Longrightarrow> \<not> no_stat w (pre @ ss)"
proof (induction ss arbitrary: pre)
  case (Cons s ss)
  have "node_at w (pre @ [s]) \<noteq> None"
    using fs_ok_prefix [OF Cons.prems(3,4), of "Suc (length pre)"] Cons.prems(4)
    by (cases "ss = []") (auto simp: is_dir_def)
  then obtain n where n: "lstat w (pre @ [s]) = Inr n"
    using Cons.prems(1) by (cases "no_stat w (pre @ [s])") (auto simp: lstat_def Let_def)
  show ?case
  proof (cases "ss = []")
    case False
    have "reject_symlinks w (pre @ [s]) ss = Inr ()" using Cons.prems(1) n by (cases n) auto
    with Cons.IH [OF this False Cons.prems(3)] Cons.prems(4) show ?thesis by simp
  qed (use n in simp)
qed simp

section \<open>Writing\<close>

lemma blobs_put:
  assumes "addr p" "node_at w' = (node_at w)(segments p \<mapsto> File d)"
  shows "blobs w' = (blobs w)(p \<mapsto> d)"
  using assms by (auto simp: fun_eq_iff blobs_def) (metis join_segments relpath.expand)

lemma blobs_del:
  assumes "node_at w' = (node_at w)(segments p := None)"
  shows "blobs w' = (blobs w)(p := None)"
  using assms by (auto simp: fun_eq_iff blobs_def) (metis join_segments relpath.expand)

lemma blobs_cong: "node_at w' = node_at w \<Longrightarrow> blobs w' = blobs w"
  by (simp add: fun_eq_iff blobs_def)

text \<open>Names of temporary files: a plain prefix or suffix around the name of the destination.\<close>

definition plain :: "str \<Rightarrow> bool" where
  "plain s \<longleftrightarrow> (\<forall>c \<in> set s. byte c < 128 \<and> c \<noteq> SLASH \<and> c \<noteq> NUL \<and> c \<noteq> BACKSLASH)"

lemma plain_nat: "plain (show_nat n)"
proof -
  have "is_ascii_digit c" if "c \<in> set (show_nat n)" for c using show_nat_digits [OF that] .
  then show ?thesis by (fastforce simp: plain_def is_ascii_digit_def byte_def)
qed

lemma plain_append [simp]: "plain (a @ b) \<longleftrightarrow> plain a \<and> plain b"
  by (auto simp: plain_def)

lemma affix_addr:
  assumes "seg_addr x" "plain a" "plain b" "4 < length (a @ b)"
  shows "seg_addr (a @ x @ b) \<and> a @ x @ b \<noteq> x"
proof -
  have l: "4 < length (a @ x @ b)" "length x < length (a @ x @ b)" using assms(4) unfolding length_append by linarith+
  have "valid_utf8 s" if "plain s" for s
    by (rule ascii_valid) (use that in \<open>simp add: is_ascii_str_def list_all_iff plain_def\<close>)
  moreover have "valid_utf8 x" using assms(1) by (simp add: seg_addr_def del: valid_utf8.simps)
  ultimately have v: "valid_utf8 (a @ x @ b)" using assms(2,3) by (intro valid_append) blast+
  have ne: "a @ x @ b \<noteq> y" if "length y \<le> 4" for y using l(1) that by auto
  have "seg_ok (a @ x @ b)"
    unfolding seg_ok_def using assms(1-3) ne [of "[]"] ne [of "''.''"] ne [of "''..''"] by (auto simp: plain_def seg_addr_def seg_ok_def)
  moreover have "a @ x @ b \<noteq> x" using l(2) by (metis less_irrefl)
  ultimately show ?thesis using v ne [of "''.git''"] by (simp add: seg_addr_def del: valid_utf8.simps)
qed

lemma tmp_name_addr: "seg_addr x \<Longrightarrow> seg_addr (tmp_name x a b)"
proof -
  assume x: "seg_addr x"
  have "plain (''.tmp.'' @ show_nat a @ ''.'' @ show_nat b)"
    using plain_nat [of a] plain_nat [of b] by (auto simp: plain_def byte_def)
  from affix_addr [OF x _ this, of "[]"] show ?thesis by (simp add: plain_def tmp_name_def)
qed

lemma tmp_name_neq: "tmp_name x a b \<noteq> x"
  by (simp add: tmp_name_def)

lemma unlink_quiet:
  assumes "fs_ok w"
  shows "fs_ok (snd (unlink p w)) \<and> (node_at (snd (unlink p w)) = node_at w \<or> node_at (snd (unlink p w)) = (node_at w)(p := None))"
proof -
  obtain r w' where u: "unlink p w = (r, w')" by (cases "unlink p w")
  show ?thesis
    using unlink_post [OF assms, of p] u by (cases r) (auto simp: eff_post_simps)
qed

text \<open>From the fresh temporary file to the rename, in two steps.  The error constructor \<open>at\<close> and the choice of the
  temporary name are those of the backend.\<close>

definition file_or_none :: "node option \<Rightarrow> bool" where
  "file_or_none n \<longleftrightarrow> n = None \<or> (\<exists>b. n = Some (File b))"

lemma file_or_none_simps [simp]: "file_or_none None" "file_or_none (Some (File b))"
  by (simp_all add: file_or_none_def)

lemma write_tmp_post:
  fixes w :: "'z fs_world_scheme"
  assumes "fs_ok w" "node_at w tmp = Some (File [])"
  shows "eff_post (catch_eff (then_eff (write_at tmp 0 data w) (\<lambda>_. sync_all)) (\<lambda>e w. (Inl (at tmp e), snd (unlink tmp w))))
    (\<lambda>_ w'. fs_ok w' \<and> node_at w' = (node_at w)(tmp \<mapsto> File data))
    (\<lambda>_ w'. fs_ok w' \<and> (\<forall>q. q \<noteq> tmp \<longrightarrow> node_at w' q = node_at w q) \<and> file_or_none (node_at w' tmp))"
  (is "eff_post _ ?Q ?E")
proof -
  have undo: "?E e (snd (unlink tmp v))" if "fs_ok v" "node_at v = (node_at w)(tmp \<mapsto> File b)" for e and v :: "'z fs_world_scheme" and b
    using unlink_quiet [OF that(1), of tmp] that(2) by auto
  show ?thesis
    unfolding eff_post_catch eff_post_then eff_post_result
  proof (rule eff_post_mono [OF write_at_post [OF assms(1,2)]])
    fix a :: unit and v :: "'z fs_world_scheme" assume v: "fs_ok v \<and> node_at v = (node_at w)(tmp \<mapsto> File (overlay 0 data [])) \<and> drawn v = drawn w \<and> entropy v = entropy w"
    then show "eff_post (sync_all v) ?Q (\<lambda>e v. (\<forall>a. Inl (at tmp e) = Inr a \<longrightarrow> ?Q a (snd (unlink tmp v))) \<and> (\<forall>ea. Inl (at tmp e) = Inl ea \<longrightarrow> ?E ea (snd (unlink tmp v))))"
      using undo [of "tick_on v" data] by (intro sync_post) (auto simp: overlay_def)
  qed (use undo in auto)
qed

lemma write_stage:
  fixes w :: "'z fs_world_scheme" and at :: "path \<Rightarrow> io_kind \<Rightarrow> 'e"
  assumes "fs_ok w" "node_at w tmp = Some (File [])" "list_all seg_addr p" "is_dir w (butlast p)" "tmp \<noteq> p"
  shows "eff_post
    (then_eff (catch_eff (then_eff (write_at tmp 0 data w) (\<lambda>_. sync_all))
                (\<lambda>e w. (Inl (at tmp e), snd (unlink tmp w)))) (\<lambda>_ w.
     then_eff (catch_eff (fs_rename tmp p w)
                (\<lambda>e w. (Inl (at p e), snd (unlink tmp w)))) (\<lambda>_ w. (Inr (), w))))
    (\<lambda>_ w'. fs_ok w' \<and> node_at w' = (node_at w)(tmp := None, p \<mapsto> File data))
    (\<lambda>_ w'. fs_ok w' \<and> (\<forall>q. q \<noteq> tmp \<longrightarrow> node_at w' q = node_at w q) \<and> file_or_none (node_at w' tmp))"
  (is "eff_post (then_eff ?write ?rest) ?Q ?E")
proof (rule eff_post_thenI)
  show "eff_post ?write (\<lambda>_ w'. fs_ok w' \<and> node_at w' = (node_at w)(tmp \<mapsto> File data)) ?E"
    by (rule write_tmp_post [OF assms(1,2)])
next
  fix u :: unit and v :: "'z fs_world_scheme" assume v: "fs_ok v \<and> node_at v = (node_at w)(tmp \<mapsto> File data)"
  have d: "is_dir v (butlast p)" using v assms(2,4) by (auto simp: is_dir_def)
  have t: "node_at v tmp = Some (File data)" using v by simp
  have undo: "?E e (snd (unlink tmp x))" if "fs_ok x" "node_at x = node_at v" for e and x :: "'z fs_world_scheme"
    using unlink_quiet [OF that(1), of tmp] that(2) v by auto
  have ren: "eff_post (fs_rename tmp p v) (\<lambda>_ w'. fs_ok w' \<and> node_at w' = (node_at v)(tmp := None, p \<mapsto> File data))
      (\<lambda>_ w'. fs_ok w' \<and> node_at w' = node_at v)"
    using v by (intro fs_rename_post [OF _ t assms(3) d assms(5)]) simp
  show "eff_post (?rest u v) ?Q ?E"
    unfolding eff_post_catch eff_post_then eff_post_result
    by (rule eff_post_mono [OF ren]) (use v undo in auto)
qed

text \<open>All of it: on success the tree has grown some directories and holds the file; on an error it has grown
  some directories and may hold a leftover under a temporary name.\<close>

lemma atomic_write_post:
  fixes w :: "'z fs_world_scheme" and at :: "path \<Rightarrow> io_kind \<Rightarrow> 'e" and tmpf :: "'z fs_world_scheme \<Rightarrow> path"
  assumes "fs_ok w" "list_all seg_addr p" "p \<noteq> []"
    and "\<And>v. \<exists>x. tmpf v = butlast p @ [x] \<and> seg_addr x \<and> x \<noteq> last p"
  shows "eff_post
    (then_eff (map_err_st (at (butlast p)) (create_dir_all (butlast p) w)) (\<lambda>_ w.
     then_eff (map_err_st (at (tmpf w)) (create_new (tmpf w) w)) (\<lambda>_ v.
     then_eff (catch_eff (then_eff (write_at (tmpf w) 0 data v) (\<lambda>_. sync_all))
                 (\<lambda>e v. (Inl (at (tmpf w) e), snd (unlink (tmpf w) v)))) (\<lambda>_ v.
     then_eff (catch_eff (fs_rename (tmpf w) p v)
                 (\<lambda>e v. (Inl (at p e), snd (unlink (tmpf w) v)))) (\<lambda>_ v. (Inr (), v))))))
    (\<lambda>_ w'. fs_ok w' \<and> (\<exists>v. grown w v \<and> node_at w' = (node_at v)(p \<mapsto> File data)))
    (\<lambda>_ w'. fs_ok w' \<and> (\<exists>v. grown w v \<and> (\<forall>q. node_at w' q = node_at v q \<or> (\<exists>u. q = tmpf u) \<and> file_or_none (node_at w' q))))"
  (is "eff_post _ ?Q ?E")
proof (rule eff_post_thenI)
  have par: "list_all seg_addr (butlast p)" using list_all_last [OF assms(2)] assms(3) by simp
  have keep: "?E e w'" if "fs_ok w'" "grown w v" "node_at w' = node_at v" for e and v w' :: "'z fs_world_scheme"
    using that by auto
  show "eff_post (map_err_st (at (butlast p)) (create_dir_all (butlast p) w)) (\<lambda>_ w'. grown w w' \<and> is_dir w' (butlast p)) ?E"
    unfolding eff_post_map_err
    by (rule eff_post_mono [OF create_dir_all_post [OF assms(1) par]]) (use keep in \<open>auto simp: grown_def\<close>)
next
  fix a :: unit and v :: "'z fs_world_scheme" assume g: "grown w v \<and> is_dir v (butlast p)"
  have par: "list_all seg_addr (butlast p)" using list_all_last [OF assms(2)] assms(3) by simp
  define tmp where "tmp = tmpf v"
  have fv: "fs_ok v" using g by (simp add: grown_def)
  obtain x where x: "tmp = butlast p @ [x]" "seg_addr x" "x \<noteq> last p" using assms(4) [of v] by (auto simp: tmp_def)
  then have tmp: "list_all seg_addr tmp" "tmp \<noteq> p" using par by (simp, metis last_snoc)
  show "eff_post
    (then_eff (map_err_st (at (tmpf v)) (create_new (tmpf v) v)) (\<lambda>_ u.
     then_eff (catch_eff (then_eff (write_at (tmpf v) 0 data u) (\<lambda>_. sync_all))
                 (\<lambda>e u. (Inl (at (tmpf v) e), snd (unlink (tmpf v) u)))) (\<lambda>_ u.
     then_eff (catch_eff (fs_rename (tmpf v) p u)
                 (\<lambda>e u. (Inl (at p e), snd (unlink (tmpf v) u)))) (\<lambda>_ u. (Inr (), u))))) ?Q ?E"
    unfolding tmp_def [symmetric]
  proof (rule eff_post_thenI)
    show "eff_post (map_err_st (at tmp) (create_new tmp v))
        (\<lambda>_ w'. fs_ok w' \<and> node_at v tmp = None \<and> node_at w' = (node_at v)(tmp \<mapsto> File [])) ?E"
      unfolding eff_post_map_err using g
      by (intro eff_post_mono [OF create_new_post [OF fv tmp(1)]]) auto
  next
    fix b :: unit and u :: "'z fs_world_scheme" assume u: "fs_ok u \<and> node_at v tmp = None \<and> node_at u = (node_at v)(tmp \<mapsto> File [])"
    have dir: "is_dir u (butlast p)" using u g by (auto simp: is_dir_def)
    have ut: "fs_ok u" "node_at u tmp = Some (File [])" using u by simp_all
    show "eff_post (then_eff (catch_eff (then_eff (write_at tmp 0 data u) (\<lambda>_. sync_all)) (\<lambda>e w. (Inl (at tmp e), snd (unlink tmp w))))
        (\<lambda>_ w. then_eff (catch_eff (fs_rename tmp p w) (\<lambda>e w. (Inl (at p e), snd (unlink tmp w)))) (\<lambda>_ w. (Inr (), w)))) ?Q ?E"
    proof (rule eff_post_mono [OF write_stage [OF ut assms(2) dir tmp(2)]], goal_cases)
      case (1 a y)
      then have "node_at y = (node_at v)(p \<mapsto> File data)" using u tmp(2) by (auto simp: fun_eq_iff)
      with 1 g show ?case by blast
    next
      case (2 e y)
      have "node_at y q = node_at v q \<or> (\<exists>u. q = tmpf u) \<and> file_or_none (node_at y q)" for q
        using 2 u by (cases "q = tmp") (auto simp: tmp_def)
      with 2 g show ?case by blast
    qed
  qed
qed

lemma fs_write_post:
  fixes w :: "'z fs_world_scheme"
  assumes "fs_ok w" "addr p"
  shows "eff_post (fs_storage_write p d w) (\<lambda>_ w'. fs_ok w' \<and> blobs w' = (blobs w)(p \<mapsto> d))
    (\<lambda>_ w'. fs_ok w' \<and> (\<forall>q. \<not> is_tmp_path q \<longrightarrow> blobs w' q = blobs w q))"
  (is "eff_post _ ?Q ?E")
proof (cases "absolute w p")
  case (Inl e)
  then show ?thesis using assms by (simp add: fs_storage_write_def eff_post_simps)
next
  case (Inr ap)
  let ?p = "segments p"
  have ap: "ap = ?p" using absolute_Inr [OF Inr] by simp
  have segs: "list_all seg_addr ?p" using assms(2) by (simp add: addr_iff)
  have name: "\<exists>x. unique_tmp_path (butlast ?p) (last ?p) v = butlast ?p @ [x] \<and> seg_addr x \<and> x \<noteq> last ?p" for v :: "'z fs_world_scheme"
    using tmp_name_addr tmp_name_neq list_all_last [OF segs] by (auto simp: unique_tmp_path_def)
  show ?thesis
    unfolding fs_storage_write_def Inr then_eff_simps Let_def ap
  proof (rule eff_post_mono [OF atomic_write_post [OF assms(1) segs segments_not_Nil name]])
    fix a :: unit and x :: "'z fs_world_scheme"
    assume "fs_ok x \<and> (\<exists>v. grown w v \<and> node_at x = (node_at v)(?p \<mapsto> File d))"
    then obtain v where v: "fs_ok x" "grown w v" "node_at x = (node_at v)(?p \<mapsto> File d)" by blast
    show "?Q a x" using blobs_put [OF assms(2) v(3)] v(1,2) by (simp add: grown_blobs)
  next
    fix e and x :: "'z fs_world_scheme"
    assume x: "fs_ok x \<and> (\<exists>v. grown w v \<and> (\<forall>q. node_at x q = node_at v q \<or>
      (\<exists>u :: 'z fs_world_scheme. q = unique_tmp_path (butlast ?p) (last ?p) u) \<and> file_or_none (node_at x q)))"
    then obtain v where v: "grown w v" "\<And>q. node_at x q = node_at v q \<or> (\<exists>u :: 'z fs_world_scheme. q = unique_tmp_path (butlast ?p) (last ?p) u)"
      by blast
    have "blobs x q = blobs w q" if q: "\<not> is_tmp_path q" for q
    proof -
      have "node_at x (segments q) = node_at v (segments q)" using v(2) [of "segments q"] q by (auto simp: is_tmp_path_def unique_tmp_path_def)
      then have "blobs x q = blobs v q" by (simp add: blobs_def)
      then show ?thesis using v(1) by (simp add: grown_blobs)
    qed
    with x show "?E e x" by blast
  qed
qed

section \<open>Shredding\<close>

lemma random_bytes_length [simp]: "length (random_bytes w from n) = n"
  by (simp add: random_bytes_def)

lemma random_bytes_add: "random_bytes w from (a + b) = random_bytes w from a @ random_bytes w (from + a) b"
  using upt_add_eq_append [of "from" "from + a" b] by (simp add: random_bytes_def add.assoc)

lemma random_bytes_cong: "entropy w = entropy v \<Longrightarrow> random_bytes w = random_bytes v"
  by (simp add: fun_eq_iff random_bytes_def)

lemma write_chunks_post:
  fixes w :: "'z fs_world_scheme"
  assumes "fs_ok w" "node_at w p = Some (File old)" "pos + remaining \<le> length old"
  shows "eff_post (write_chunks p pos remaining w)
    (\<lambda>_ w'. fs_ok w' \<and> node_at w' = (node_at w)(p \<mapsto> File (overlay pos (random_bytes w (drawn w) remaining) old)) \<and>
       drawn w' = drawn w + remaining \<and> entropy w' = entropy w)
    (\<lambda>_ w'. fs_ok w' \<and> (\<exists>b. node_at w' = (node_at w)(p \<mapsto> File b)))"
  using assms
proof (induction p pos remaining w arbitrary: old rule: write_chunks.induct)
  case (1 p pos remaining w)
  show ?case
  proof (cases "remaining = 0")
    case True
    have "overlay pos (random_bytes w (drawn w) 0) old = old" by (simp add: overlay_def random_bytes_def)
    moreover have "node_at w = (node_at w)(p \<mapsto> File old)" using "1.prems"(2) by auto
    ultimately show ?thesis using True "1.prems"(1) by (subst write_chunks.simps) (auto simp: eff_post_simps)
  next
    case False
    define k where "k = min remaining SHRED_BUF"
    define v where "v = w\<lparr>drawn := drawn w + k\<rparr>"
    let ?r = "random_bytes w (drawn w)"
    have v: "fs_ok v" "node_at v = node_at w" "drawn v = drawn w + k" "entropy v = entropy w"
      using "1.prems"(1) by (simp_all add: v_def)
    have step: "write_chunks p pos remaining w =
        then_eff (write_at p pos (?r k) v) (\<lambda>_ w. write_chunks p (pos + k) (remaining - k) w)"
      using False by (simp add: write_chunks.simps [of p pos remaining w] draw_def k_def v_def Let_def)
    have kr: "k + (remaining - k) = remaining" by (simp add: k_def)
    show ?thesis
      unfolding step
    proof (rule eff_post_thenI)
      show "eff_post (write_at p pos (?r k) v)
          (\<lambda>_ w'. fs_ok w' \<and> node_at w' = (node_at w)(p \<mapsto> File (overlay pos (?r k) old)) \<and> drawn w' = drawn w + k \<and> entropy w' = entropy w)
          (\<lambda>_ w'. fs_ok w' \<and> (\<exists>b. node_at w' = (node_at w)(p \<mapsto> File b)))"
        using write_at_post [OF v(1), of p old pos "?r k"] v "1.prems"(2) by simp
    next
      fix a u assume eq: "write_at p pos (?r k) v = (Inr a, u)"
        and u: "fs_ok u \<and> node_at u = (node_at w)(p \<mapsto> File (overlay pos (?r k) old)) \<and> drawn u = drawn w + k \<and> entropy u = entropy w"
      let ?old = "overlay pos (?r k) old"
      have len: "length ?old = length old" using "1.prems"(3) kr by (simp add: overlay_def)
      have ru: "random_bytes u = random_bytes w" using u by (intro random_bytes_cong) simp
      have sp: "overlay (pos + k) (random_bytes w (drawn w + k) (remaining - k)) ?old = overlay pos (?r remaining) old"
        using "1.prems"(3) kr random_bytes_add [of w "drawn w" k "remaining - k"] by (simp add: overlay_def add.assoc add.commute [of remaining pos])
      have IH: "eff_post (write_chunks p (pos + k) (remaining - k) u)
         (\<lambda>_ w'. fs_ok w' \<and> node_at w' = (node_at u)(p \<mapsto> File (overlay (pos + k) (random_bytes u (drawn u) (remaining - k)) ?old)) \<and>
            drawn w' = drawn u + (remaining - k) \<and> entropy w' = entropy u)
         (\<lambda>_ w'. fs_ok w' \<and> (\<exists>b. node_at w' = (node_at u)(p \<mapsto> File b)))"
        using u kr len "1.prems"(3) False eq
        by (intro "1.IH" [OF False k_def]) (auto simp: draw_def v_def)
      show "eff_post (write_chunks p (pos + k) (remaining - k) u)
         (\<lambda>_ w'. fs_ok w' \<and> node_at w' = (node_at w)(p \<mapsto> File (overlay pos (?r remaining) old)) \<and>
            drawn w' = drawn w + remaining \<and> entropy w' = entropy w)
         (\<lambda>_ w'. fs_ok w' \<and> (\<exists>b. node_at w' = (node_at w)(p \<mapsto> File b)))"
        by (rule eff_post_mono [OF IH]) (use u kr ru sp in auto)
    qed
  qed
qed

lemma overwrite_passes_post:
  fixes w :: "'z fs_world_scheme"
  assumes "fs_ok w" "node_at w p = Some (File old)" "length old = len"
  shows "eff_post (overwrite_passes p len n w)
    (\<lambda>_ w'. fs_ok w' \<and> drawn w' = drawn w + n * len \<and> entropy w' = entropy w \<and>
       node_at w' = (node_at w)(p \<mapsto> File (if n = 0 then old else random_bytes w (drawn w + (n - 1) * len) len)))
    (\<lambda>_ w'. fs_ok w' \<and> (\<exists>b. node_at w' = (node_at w)(p \<mapsto> File b)))"
  using assms
proof (induction n arbitrary: w old)
  case 0
  then show ?case by (auto simp: eff_post_simps)
next
  case (Suc n)
  have upd: "node_at w = (node_at w)(p \<mapsto> File old)" using Suc.prems(2) by auto
  have tick: "entropy (tick_on v) = entropy v" "drawn (tick_on v) = drawn v" for v :: "'z fs_world_scheme"
    by (simp_all add: tick_on_def)
  let ?E = "\<lambda>(_ :: io_kind) w'. fs_ok w' \<and> (\<exists>b. node_at w' = (node_at w)(p \<mapsto> File b))"
  let ?P = "\<lambda>(_ :: unit) w'. fs_ok w' \<and> drawn w' = drawn w + len \<and> entropy w' = entropy w \<and>
      node_at w' = (node_at w)(p \<mapsto> File (random_bytes w (drawn w) len))"
  show ?case
    unfolding overwrite_passes.simps
  proof (rule eff_post_thenI)
    show "eff_post (sync_all w) (\<lambda>_ w'. w' = tick_on w) ?E"
      using Suc.prems(1) upd by (intro sync_post) auto
  next
    fix a :: unit and v assume v: "v = tick_on w"
    have sp: "overlay 0 (random_bytes v (drawn v) len) old = random_bytes w (drawn w) len"
      using Suc.prems(3) random_bytes_cong [of v w] by (simp add: overlay_def v tick)
    have chunks: "eff_post (write_chunks p 0 len v) ?P ?E"
      using Suc.prems sp by (intro eff_post_mono [OF write_chunks_post [of v p old 0 len]]) (auto simp: v tick)
    show "eff_post (then_eff (write_chunks p 0 len v) (\<lambda>_ w. then_eff (sync_all w) (\<lambda>_ w. overwrite_passes p len n w)))
      (\<lambda>_ w'. fs_ok w' \<and> drawn w' = drawn w + Suc n * len \<and> entropy w' = entropy w \<and>
         node_at w' = (node_at w)(p \<mapsto> File (if Suc n = 0 then old else random_bytes w (drawn w + (Suc n - 1) * len) len))) ?E"
    proof (rule eff_post_thenI [OF chunks], rule eff_post_thenI [where P = ?P])
      fix a :: unit and u :: "'z fs_world_scheme" assume u: "?P a u"
      show "eff_post (sync_all u) ?P ?E" using u by (intro sync_post) (auto simp: tick)
    next
      fix a b :: unit and u x :: "'z fs_world_scheme" assume x: "?P b x"
      have rx: "random_bytes x = random_bytes w" using x by (intro random_bytes_cong) simp
      show "eff_post (overwrite_passes p len n x)
       (\<lambda>_ w'. fs_ok w' \<and> drawn w' = drawn w + Suc n * len \<and> entropy w' = entropy w \<and>
         node_at w' = (node_at w)(p \<mapsto> File (if Suc n = 0 then old else random_bytes w (drawn w + (Suc n - 1) * len) len))) ?E"
      proof (rule eff_post_mono [OF Suc.IH [of x "random_bytes w (drawn w) len"]], goal_cases)
        case (4 c y)
        then show ?case using x rx by (cases n) (simp_all add: add.assoc fun_eq_iff)
      next
        case (5 e y)
        then obtain b where "node_at y = (node_at x)(p \<mapsto> File b)" by blast
        with x have "node_at y = (node_at w)(p \<mapsto> File b)" by (simp add: fun_eq_iff)
        then show ?case using 5 by blast
      qed (use x in simp_all)
    qed
  qed
qed

lemma open_write_post:
  assumes "fs_ok w"
  shows "eff_post (open_write p w) (\<lambda>_ w'. w' = tick_on w \<and> (\<exists>b. node_at w p = Some (File b)))
    (\<lambda>_ w'. fs_ok w' \<and> node_at w' = node_at w)"
  unfolding open_write_def
  using assms by (intro attempt_post) (auto simp: eff_post_simps split: option.split node.split)

text \<open>The whole of \<open>overwrite_then_unlink\<close>: on success the file is gone; on an error the file may hold
  anything, but no other path changes.\<close>

lemma overwrite_post:
  fixes w :: "'z fs_world_scheme"
  assumes "fs_ok w"
  shows "eff_post (overwrite_in_place p n w)
    (\<lambda>_ w'. fs_ok w' \<and> (\<exists>old. node_at w p = Some (File old) \<and>
        node_at w' = (node_at w)(p \<mapsto> File (if n = 0 then old else random_bytes w (drawn w + (n - 1) * length old) (length old)))))
    (\<lambda>_ w'. fs_ok w' \<and> (\<forall>q. q \<noteq> p \<longrightarrow> node_at w' q = node_at w q) \<and> (is_dir w' p \<longleftrightarrow> is_dir w p))"
  (is "eff_post _ ?Q ?E")
proof (cases "file_len w p")
  case (Inl e)
  then show ?thesis using assms by (simp add: overwrite_in_place_def eff_post_simps)
next
  case (Inr len)
  show ?thesis
    unfolding overwrite_in_place_def Inr map_err_simps then_eff_simps
  proof (rule eff_post_thenI)
    show "eff_post (map_err_st (IoAt p) (open_write p w)) (\<lambda>_ w'. w' = tick_on w \<and> (\<exists>b. node_at w p = Some (File b))) ?E"
      unfolding eff_post_map_err
      by (rule eff_post_mono [OF open_write_post [OF assms]]) (auto simp: is_dir_def)
  next
    fix a :: unit and v :: "'z fs_world_scheme" assume v: "v = tick_on w \<and> (\<exists>b. node_at w p = Some (File b))"
    then obtain old where old: "node_at w p = Some (File old)" by auto
    have len: "len = length old"
      using Inr old by (auto simp: file_len_def and_then_Inr_iff)
    have fv: "fs_ok v" "node_at v p = Some (File old)" "drawn v = drawn w" "random_bytes v = random_bytes w" "node_at v = node_at w"
      using v assms old random_bytes_cong [of v w] by (simp_all) (simp_all add: tick_on_def)
    have E: "?E e u" if "fs_ok u" "node_at u = (node_at w)(p \<mapsto> File b)" for e b and u :: "'z fs_world_scheme"
      using that old by (auto simp: is_dir_def)
    show "eff_post (if len = 0 then map_err_st (IoAt p) (sync_all v) else map_err_st (IoAt p) (overwrite_passes p len n v)) ?Q ?E"
    proof (cases "len = 0")
      case True
      have "node_at w = (node_at w)(p \<mapsto> File [])" using old True len by auto
      then show ?thesis
        using True fv old len E [of "tick_on v" "[]"]
        by (auto simp: eff_post_map_err random_bytes_def intro!: sync_post)
    next
      case False
      have "eff_post (overwrite_passes p len n v) ?Q (\<lambda>e. ?E (IoAt p e))"
        by (rule eff_post_mono [OF overwrite_passes_post [OF fv(1,2) len [symmetric]]]) (use fv old len E in auto)
      with False show ?thesis by (simp add: eff_post_map_err)
    qed
  qed
qed

lemma shred_post:
  fixes w :: "'z fs_world_scheme"
  assumes "fs_ok w"
  shows "eff_post (overwrite_then_unlink p w)
    (\<lambda>_ w'. fs_ok w' \<and> node_at w' = (node_at w)(p := None))
    (\<lambda>_ w'. fs_ok w' \<and> (\<forall>q. q \<noteq> p \<longrightarrow> node_at w' q = node_at w q))"
  (is "eff_post _ ?Q ?E")
  unfolding overwrite_then_unlink_def
proof (rule eff_post_thenI)
  show "eff_post (overwrite_in_place p SHRED_PASSES w)
      (\<lambda>_ w'. fs_ok w' \<and> (\<exists>b. node_at w' = (node_at w)(p \<mapsto> File b))) ?E"
    by (rule eff_post_mono [OF overwrite_post [OF assms]]) auto
next
  fix a :: unit and v :: "'z fs_world_scheme" assume v: "fs_ok v \<and> (\<exists>b. node_at v = (node_at w)(p \<mapsto> File b))"
  then show "eff_post (map_err_st (IoAt p) (unlink p v)) ?Q ?E"
    unfolding eff_post_map_err using v by (intro eff_post_mono [OF unlink_post]) (auto simp: fun_eq_iff)
qed

lemma absolute_exists:
  assumes "fs_ok w" "absolute w p = Inr ap" "node_at w (segments p) \<noteq> None"
  shows "path_exists w ap"
  using absolute_Inr [OF assms(2)] reject_symlinks_stat [of w "[]" "segments p"] assms
  by (auto simp: path_exists_def lstat_def)

lemma fs_remove_post:
  assumes "fs_ok w" "addr p"
  shows "eff_post (fs_storage_remove p w) (\<lambda>_ w'. fs_ok w' \<and> blobs w' = (blobs w)(p := None))
    (\<lambda>_ w'. fs_ok w' \<and> (\<forall>q. q \<noteq> p \<longrightarrow> blobs w' q = blobs w q))"
proof (cases "absolute w p")
  case (Inl e)
  then show ?thesis using assms by (simp add: fs_storage_remove_def eff_post_simps)
next
  case (Inr ap)
  have ap: "ap = segments p" using absolute_Inr [OF Inr] by simp
  show ?thesis
  proof (cases "path_exists w ap")
    case True
    have seg: "q \<noteq> p \<Longrightarrow> segments q \<noteq> segments p" for q by (metis join_segments relpath.expand)
    from True show ?thesis
      using Inr seg by (auto simp: fs_storage_remove_def ap blobs_del blobs_def
          intro!: eff_post_mono [OF shred_post [OF assms(1), of "segments p"]])
  next
    case False
    then have "node_at w (segments p) = None" using absolute_exists [OF assms(1) Inr] by blast
    then have "blobs w = (blobs w)(p := None)" by (auto simp: fun_eq_iff blobs_def)
    with False Inr assms(1) show ?thesis by (simp add: fs_storage_remove_def eff_post_simps)
  qed
qed

section \<open>Reading and listing\<close>

lemma fs_read_law:
  assumes "fs_ok w" "addr p" "fs_storage_read w p = Inr r"
  shows "r = blobs w p"
proof -
  obtain ap where ap: "absolute w p = Inr ap" using assms(3) by (auto simp: fs_storage_read_def and_then_Inr_iff)
  then have "ap = segments p" using absolute_Inr by blast
  then show ?thesis
    using assms(2,3) ap fs_read_Inr [of w ap] fs_read_NotFound [of w ap]
    by (auto simp: fs_storage_read_def blobs_def split: sum.splits io_kind.splits)
qed

lemma fs_exists_law:
  assumes "fs_ok w" "addr p" "fs_storage_exists w p = Inr found" "blobs w p \<noteq> None"
  shows "found"
proof -
  obtain ap where ap: "absolute w p = Inr ap" "found = path_exists w ap"
    using assms(3) by (auto simp: fs_storage_exists_def and_then_Inr_iff)
  have "node_at w (segments p) \<noteq> None" using assms(2,4) by (auto simp: blobs_def file_bytes_Some)
  then show ?thesis using absolute_exists [OF assms(1) ap(1)] ap(2) by simp
qed

lemma rel_of_addr:
  assumes "list_all seg_addr q" "q \<noteq> []"
  shows "rel_of q = Some (RelPath (join_with ''/'' q)) \<and> segments (RelPath (join_with ''/'' q)) = q"
proof -
  have "\<forall>x \<in> set q. SLASH \<notin> set x" using assms(1) by (auto simp: list_all_iff seg_addr_def seg_ok_def)
  then have s: "segments (RelPath (join_with ''/'' q)) = q"
    using split_join [of q SLASH] assms(2) by (simp add: segments_def)
  then have a: "addr (RelPath (join_with ''/'' q))" using assms(1) by (simp add: addr_iff)
  then have v: "valid_utf8 (join_with ''/'' q)" "relpath_ok (RelPath (join_with ''/'' q))"
    by (simp_all add: addr_def relpath_wf_def)
  have "BACKSLASH \<notin> set (join_with ''/'' q)"
    using v(2) in_segment [of BACKSLASH "join_with ''/'' q" SLASH] by (auto simp: relpath_ok_def segments_def list_all_iff seg_ok_def)
  then show ?thesis
    using v s by (simp add: rel_of_def replace_char_id relpath_new_ok)
qed

definition blobs_at :: "'z fs_world_scheme \<Rightarrow> path \<Rightarrow> relpath set" where
  "blobs_at w q = {p. blobs w p \<noteq> None \<and> prefix q (segments p)}"

lemma blobs_file: "blobs w p = Some b \<Longrightarrow> addr p \<and> node_at w (segments p) = Some (File b)"
  by (auto simp: blobs_def file_bytes_Some split: if_splits)

lemma blobs_at_git: "''.git'' \<in> set q \<Longrightarrow> blobs_at w q = {}"
proof -
  assume "''.git'' \<in> set q"
  then have "\<not> addr p" if "prefix q (segments p)" for p
    using that set_mono_prefix by (auto simp: addr_def)
  then show ?thesis by (auto simp: blobs_at_def blobs_def)
qed

lemma prefix_node:
  assumes "fs_ok w" "node_at w p \<noteq> None" "prefix q p"
  shows "q = p \<or> is_dir w q"
proof -
  obtain r where r: "p = q @ r" using assms(3) by (auto simp: prefix_def)
  then show ?thesis
    using fs_ok_prefix [OF assms(1,2), of "length q"] by (cases "r = []") auto
qed

lemma blobs_at_leaf:
  assumes "fs_ok w" "\<not> is_dir w q"
  shows "blobs_at w q = {p. blobs w p \<noteq> None \<and> segments p = q}"
  using assms(2) prefix_node [OF assms(1), of _ q] by (fastforce simp: blobs_at_def dest: blobs_file)

lemma blobs_at_dir:
  assumes "is_dir w q"
  shows "blobs_at w q = {p. blobs w p \<noteq> None \<and> strict_prefix q (segments p)}"
  using assms by (fastforce simp: blobs_at_def is_dir_def strict_prefix_def dest: blobs_file)

lemma blobs_at_children:
  assumes "fs_ok w"
  shows "{p. blobs w p \<noteq> None \<and> strict_prefix d (segments p)} = (\<Union>q \<in> set (children w d). blobs_at w q)"
proof -
  have "\<exists>q \<in> set (children w d). prefix q (segments p)" if p: "blobs w p \<noteq> None" "strict_prefix d (segments p)" for p
  proof -
    obtain x r where s: "segments p = d @ x # r" using p(2) by (auto elim: strict_prefixE')
    have "node_at w (segments p) \<noteq> None" using p(1) blobs_file by fastforce
    from prefix_node [OF assms this, of "d @ [x]"] this s have "node_at w (d @ [x]) \<noteq> None"
      by (auto simp: is_dir_def)
    then have "d @ [x] \<in> set (children w d)" by (simp add: children_iff)
    moreover have "prefix (d @ [x]) (segments p)" using s by (simp add: prefix_def)
    ultimately show ?thesis by blast
  qed
  moreover have "strict_prefix d (segments p)" if "q \<in> set (children w d)" "prefix q (segments p)" for p q
  proof -
    have "q = d @ [last q]" using that(1) by (auto simp: children_iff)
    then have "strict_prefix d q" using strict_prefix_snoc [of d d "last q"] by simp
    then show ?thesis using that(2) by (rule prefix_order.less_le_trans)
  qed
  ultimately show ?thesis by (auto simp: blobs_at_def)
qed

lemma blobs_at_file:
  assumes "fs_ok w" "node_at w q = Some (File b)" "q \<noteq> []" "list_all seg_addr q"
  shows "blobs_at w q = {RelPath (join_with ''/'' q)}"
proof -
  define p where "p = RelPath (join_with ''/'' q)"
  have s: "segments p = q" using rel_of_addr [OF assms(4,3)] unfolding p_def by blast
  then have "blobs w p = Some b" using assms(2,4) by (simp add: blobs_def addr_iff)
  moreover have "x = p" if "segments x = q" for x
    using that s by (metis join_segments relpath.collapse)
  ultimately have "{x. blobs w x \<noteq> None \<and> segments x = q} = {p}" using s by fastforce
  moreover have "\<not> is_dir w q" using assms(2) by (simp add: is_dir_def)
  ultimately show ?thesis by (simp add: blobs_at_leaf [OF assms(1)] p_def)
qed

lemma walk_set:
  assumes "fs_ok w" "''.git'' \<notin> set dir" "walk w dir out = Inr ps"
  shows "set ps = set out \<union> {p. blobs w p \<noteq> None \<and> strict_prefix dir (segments p)}"
  using assms
proof (induction w dir out arbitrary: ps rule: walk.induct)
  case (1 w dir out)
  from "1.prems"(3) obtain es where es: "fs_read_dir w dir = Inr es"
    by (subst (asm) walk.simps) (auto simp: and_then_Inr_iff)
  then have ch: "es = children w dir" using fs_read_dir_Inr by blast
  let ?f = "\<lambda>path out. if last path = ''.git'' then Inr out
         else (case node_at w path of
             Some Dir \<Rightarrow> walk w path out
           | Some (File _) \<Rightarrow> (case rel_of path of Some rp \<Rightarrow> Inr (out @ [rp]) | None \<Rightarrow> Inr out)
           | _ \<Rightarrow> Inr out)"
  have run: "try_each ?f es out = Inr ps"
    using "1.prems"(3) es by (subst (asm) walk.simps) simp
  have step: "set t = set s \<union> blobs_at w q" if q: "q \<in> set es" and ft: "?f q s = Inr t" for q s t
  proof -
    have q': "q = dir @ [last q]" "q \<noteq> []" "node_at w q \<noteq> None" using q ch by (auto simp: children_iff)
    show ?thesis
    proof (cases "last q = ''.git''")
      case True
      then have "''.git'' \<in> set q" using q'(2) by (metis last_in_set)
      then show ?thesis using ft True by (simp add: blobs_at_git)
    next
      case False
      then have ng: "''.git'' \<notin> set q" using "1.prems"(2) q'(1) by (metis Un_iff empty_iff empty_set set_ConsD set_append)
      then have segs: "list_all seg_addr q" using fs_ok_node [OF "1.prems"(1) q'(3)] by (simp add: node_ok_def)
      obtain n where n: "node_at w q = Some n" using q'(3) by auto
      show ?thesis
      proof (cases n)
        case Dir
        then have w: "walk w q s = Inr t" using ft False n by simp
        have "map_err (IoAt dir) (fs_read_dir w dir) = Inr es" using es by simp
        from "1.IH" [OF this q False n Dir "1.prems"(1) ng w]
        show ?thesis using n Dir by (simp add: blobs_at_dir is_dir_def)
      next
        case (File b)
        have rel: "rel_of q = Some (RelPath (join_with ''/'' q))" using rel_of_addr [OF segs q'(2)] by blast
        have "t = s @ [RelPath (join_with ''/'' q)]" using ft False n File by (simp add: rel)
        then show ?thesis using blobs_at_file [OF "1.prems"(1) _ q'(2) segs, of b] n File by simp
      next
        case (Link l)
        then have "blobs_at w q = {}"
          using blobs_at_leaf [OF "1.prems"(1), of q] n blobs_file by (fastforce simp: is_dir_def)
        then show ?thesis using ft False n Link by simp
      qed
    qed
  qed
  from try_each_collect [OF step run] show ?case
    using blobs_at_children [OF "1.prems"(1), of dir] ch by simp
qed

lemma fs_list_law:
  assumes "fs_ok w" "pre_addr pre" "fs_storage_list w pre = Inr ps"
  shows "set ps = {p. blobs w p \<noteq> None \<and> under pre p}"
proof -
  let ?d = "case pre of None \<Rightarrow> [] | Some d \<Rightarrow> segments d"
  obtain start where st: "(case pre of Some p \<Rightarrow> absolute w p | None \<Rightarrow> Inr []) = Inr start"
      "(if \<not> path_exists w start then Inr [] else walk w start []) = Inr ps"
    using assms(3) by (auto simp: fs_storage_list_def and_then_Inr_iff)
  then have d: "start = ?d" using absolute_Inr by (auto split: option.splits)
  have u: "under pre p \<longleftrightarrow> strict_prefix ?d (segments p)" for p using segments_not_Nil [of p] by (auto simp: under_def strict_prefix_def eq_commute [of "[]"] split: option.split)
  have ng: "''.git'' \<notin> set ?d" using assms(2) by (auto simp: pre_addr_def addr_def split: option.splits)
  show ?thesis
  proof (cases "path_exists w start")
    case True
    then have "walk w ?d [] = Inr ps" using st d by simp
    from walk_set [OF assms(1) ng this] show ?thesis by (simp add: u)
  next
    case False
    have none: "node_at w ?d = None"
    proof (cases pre)
      case None
      then show ?thesis using False d assms(1)
        by (auto simp: path_exists_def lstat_def fs_ok_iff split: option.splits)
    next
      case (Some p)
      then show ?thesis using False st(1) d absolute_exists [OF assms(1), of p start] by fastforce
    qed
    have "\<not> strict_prefix ?d (segments p)" if b: "blobs w p \<noteq> None" for p
    proof
      assume "strict_prefix ?d (segments p)"
      moreover obtain b where "node_at w (segments p) = Some (File b)" using b blobs_file by blast
      ultimately show False
        using prefix_node [OF assms(1), of "segments p" ?d] none by (auto simp: is_dir_def strict_prefix_def)
    qed
    with False st(2) show ?thesis by (auto simp: u)
  qed
qed

section \<open>The backend as an implementation of the contract\<close>

interpretation fs: storage_laws storage_fs blobs fs_ok is_tmp_path
proof
  fix w :: "'a fs_world_scheme" and p b r d u w' e found pre ps
  show "blobs w p = Some b \<Longrightarrow> addr p" by (simp add: blobs_def split: if_splits)
  show "fs_ok w \<Longrightarrow> addr p \<Longrightarrow> st_read storage_fs w p = Inr r \<Longrightarrow> r = blobs w p"
    by (simp add: storage_fs_def fs_read_law)
  show "fs_ok w \<Longrightarrow> addr p \<Longrightarrow> st_write storage_fs p d w = (Inr u, w') \<Longrightarrow> fs_ok w' \<and> blobs w' = (blobs w)(p \<mapsto> d)"
    using eff_postD [OF fs_write_post] by (simp add: storage_fs_def)
  show "fs_ok w \<Longrightarrow> addr p \<Longrightarrow> st_write storage_fs p d w = (Inl e, w') \<Longrightarrow>
      fs_ok w' \<and> (\<forall>q. \<not> is_tmp_path q \<longrightarrow> blobs w' q = blobs w q)"
    using eff_postD_err [OF fs_write_post] by (simp add: storage_fs_def)
  show "fs_ok w \<Longrightarrow> addr p \<Longrightarrow> st_remove storage_fs p w = (Inr u, w') \<Longrightarrow> fs_ok w' \<and> blobs w' = (blobs w)(p := None)"
    using eff_postD [OF fs_remove_post] by (simp add: storage_fs_def)
  show "fs_ok w \<Longrightarrow> addr p \<Longrightarrow> st_remove storage_fs p w = (Inl e, w') \<Longrightarrow>
      fs_ok w' \<and> (\<forall>q. q \<noteq> p \<longrightarrow> blobs w' q = blobs w q)"
    using eff_postD_err [OF fs_remove_post] by (simp add: storage_fs_def)
  show "fs_ok w \<Longrightarrow> addr p \<Longrightarrow> st_exists storage_fs w p = Inr found \<Longrightarrow> blobs w p \<noteq> None \<Longrightarrow> found"
    using fs_exists_law [of w p found] by (simp add: storage_fs_def)
  show "fs_ok w \<Longrightarrow> pre_addr pre \<Longrightarrow> st_list storage_fs w pre = Inr ps \<Longrightarrow>
      set ps = {p. blobs w p \<noteq> None \<and> under pre p}"
    by (simp add: storage_fs_def fs_list_law)
qed

end
