(* ===== verification/Store_Properties.thy ===== *)
theory Store_Properties
  imports Storage_Fs_Laws
begin

text \<open>
  What the password store promises on the file-system backend: the properties of \<open>store.rs\<close> over
  \<open>StorageFs\<close>, under every pattern of I/O errors, with any crypto backend that keeps its promise
  (\<open>crypto_sound\<close>) and leaves the blobs alone, and any version-control backend that leaves them alone.
\<close>

section \<open>A small world for the examples\<close>

definition demo_world :: "(path \<times> node) list \<Rightarrow> fs_world" where
  "demo_world t = \<lparr>tree = t, no_stat = (\<lambda>_. False), no_read = (\<lambda>_. False), faults = (\<lambda>_. None), tick = 0,
     pid = 7, nanos = (\<lambda>n. n), entropy = (\<lambda>n. if n < 6 then CHR ''x'' else CHR ''z''), drawn = 0\<rparr>"

definition demo_crypto :: "(fs_world, unit) crypto_impl" where
  "demo_crypto = \<lparr>cr_encrypt = (\<lambda>pt rs w. (Inr (CHR ''!'' # pt), w)),
     cr_decrypt = (\<lambda>w ct. case ct of [] \<Rightarrow> Inl () | c # pt \<Rightarrow> Inr pt)\<rparr>"

definition demo_store :: "(fs_world, unit, fs_error, unit) store" where
  "demo_store = \<lparr>crypto = demo_crypto, storage = storage_fs, vcs = no_vcs\<rparr>"

definition demo_tree :: "(path \<times> node) list" where
  "demo_tree = [([], Dir), ([''.gpg-id''], File (''K1'' @ [NL])), ([''web''], Dir), ([''web'', ''a.gpg''], File ''!s1''),
     ([''web'', ''b.gpg''], File ''!s2''), ([''mail.gpg''], File ''!s3'')]"

definition demo :: fs_world where
  "demo = demo_world demo_tree"

lemma demo_simps:
  "tree demo = demo_tree" "no_stat demo = (\<lambda>_. False)" "no_read demo = (\<lambda>_. False)"
  "faults demo = (\<lambda>_. None)" "tick demo = 0" "pid demo = 7" "nanos demo = (\<lambda>n. n)" "drawn demo = 0"
  "crypto demo_store = demo_crypto" "storage demo_store = storage_fs" "vcs demo_store = no_vcs"
  by (simp_all add: demo_def demo_world_def demo_store_def)

text \<open>Running the file system on a concrete world, one call after the other.\<close>

lemma attempt_weak: "w = w' \<Longrightarrow> attempt k w = attempt k w'"
  by simp

lemmas fs_run = absolute_def fs_storage_read_def fs_storage_exists_def fs_storage_write_def fs_read_def lstat_def
  blocked_def path_exists_def create_dir_all_def mkdir_def create_new_def write_at_def sync_all_def unlink_def
  fs_rename_def attempt_def catch_eff_def unique_tmp_path_def node_at_def put_node_def del_node_def tick_on_def
  is_dir_def overlay_def storage_fs_def demo_simps demo_tree_def demo_crypto_def no_vcs_def Let_def

lemmas run_weak = eff_weak attempt_weak

lemma demo_lawful: "lawful storage_fs blobs fs_ok demo_store"
  by (simp add: lawful_def demo_store_def demo_crypto_def no_vcs_def crypto_quiet_def vcs_quiet_def quiet_def)

lemma demo_sound: "crypto_sound (crypto demo_store) (\<lambda>_ _. True)"
  by (auto simp: crypto_sound_def demo_store_def demo_crypto_def)

lemma demo_ok: "fs_ok demo"
  by code_simp

section \<open>Insert and show\<close>

lemma gpg_not_tmp: "relpath_ok e \<Longrightarrow> \<not> is_tmp_path (entry_to_blob e)"
proof
  assume e: "relpath_ok e" and "is_tmp_path (entry_to_blob e)"
  then obtain d x a b where "butlast (segments e) @ [last (segments e) @ ''.gpg''] = d @ [tmp_name x a b]"
    by (auto simp: is_tmp_path_def entry_to_blob_eq gpg_segments)
  then have eq: "last (segments e) @ ''.gpg'' = tmp_name x a b" by simp
  have l: "last (tmp_name x a b) = last (show_nat b)" by (simp add: tmp_name_def)
  have "last (show_nat b) \<in> set (show_nat b)" by simp
  then have "is_ascii_digit (last (show_nat b))" using show_nat_digits by blast
  moreover have "last (last (segments e) @ ''.gpg'') = CHR ''g''" by simp
  ultimately show False using eq l by (simp add: is_ascii_digit_def byte_def)
qed

text \<open>What \<open>insert\<close> on a lawful store leaves behind, when the new blob can be read back.\<close>

lemma inserted_shows:
  assumes "lawful storage_fs blobs fs_ok st" "crypto_sound (crypto st) can_read" "fs_ok w" "entry_ok e"
    and "store_insert st e pt ow w = (Inr (), w')" "\<And>rs. resolve_for st e w = Inr rs \<Longrightarrow> can_read w' rs"
    and "st_read (storage st) w' (entry_to_blob e) = Inr r"
  shows "store_show st e w' = Inr pt \<and> (\<forall>q. q \<noteq> entry_to_blob e \<longrightarrow> blobs w' q = blobs w q)"
proof -
  from eff_postD [OF fs.insert_post [OF assms(1,3,4)] assms(5)]
  obtain rs ct w1 where i: "fs_ok w'" "resolve_for st e w = Inr rs" "cr_encrypt (crypto st) pt rs w = (Inr ct, w1)"
      "blobs w' = (blobs w)(entry_to_blob e \<mapsto> ct)" by blast
  have "st_read (storage st) w' (entry_to_blob e) = Inr (Some ct)"
    using fs.read_step [OF assms(1) i(1) entry_ok_blob [OF assms(4)]] assms(7) i(4) by auto
  moreover have "cr_decrypt (crypto st) w' ct = Inr pt"
    using assms(2,6) i(2,3) unfolding crypto_sound_def by blast
  ultimately show ?thesis using i(4) by (simp add: store_show_def)
qed

text \<open>C1. Insert then show: after a successful \<open>insert\<close> of a secret for an entry, \<open>show\<close> of that entry in
  the resulting world returns exactly that secret, for every crypto backend whose ciphertexts decrypt
  for those who can read for the resolved recipients, whenever the file system lets the blob be read.\<close>

theorem insert_show_roundtrip:
  assumes "lawful storage_fs blobs fs_ok st" "crypto_sound (crypto st) can_read" "fs_ok w" "entry_ok e"
    and "resolve_for st e w = Inr rs" "can_read w' rs"
    and "store_insert st e pt overwrite w = (Inr (), w')"
    and "st_read (storage st) w' (entry_to_blob e) = Inr r"
  shows "store_show st e w' = Inr pt"
  using inserted_shows [OF assms(1-4,7) _ assms(8)] assms(5,6) by simp

lemma demo_new: "entry_to_blob (RelPath ''web/new'') = RelPath ''web/new.gpg''"
    "segments (RelPath ''web/new.gpg'') = [''web'', ''new.gpg'']"
    "resolve_for demo_store (RelPath ''web/new'') demo = Inr [KeyId ''K1'']"
    "tmp_name ''new.gpg'' 7 0 = ''new.gpg.tmp.7.0''"
  by code_simp+

lemma demo_insert_run:
  "fst (store_insert demo_store (RelPath ''web/new'') ''pw'' False demo) = Inr ()"
  "st_read storage_fs (snd (store_insert demo_store (RelPath ''web/new'') ''pw'' False demo)) (RelPath ''web/new.gpg'') = Inr (Some ''!pw'')"
  by (simp_all add: store_insert_def exists_unless_def demo_new fs_run cong: run_weak)

theorem insert_show_roundtrip_witness:
  "store_show demo_store (RelPath ''web/new'') (snd (store_insert demo_store (RelPath ''web/new'') ''pw'' False demo)) = Inr ''pw''"
proof (rule insert_show_roundtrip [OF demo_lawful demo_sound demo_ok])
  show "entry_ok (RelPath ''web/new'')" by code_simp
  show "resolve_for demo_store (RelPath ''web/new'') demo = Inr [KeyId ''K1'']" by code_simp
  show "store_insert demo_store (RelPath ''web/new'') ''pw'' False demo =
      (Inr (), snd (store_insert demo_store (RelPath ''web/new'') ''pw'' False demo))"
    by (rule run_eq) (rule demo_insert_run(1))
  show "st_read (storage demo_store) (snd (store_insert demo_store (RelPath ''web/new'') ''pw'' False demo))
      (entry_to_blob (RelPath ''web/new'')) = Inr (Some ''!pw'')"
    by (simp add: demo_new(1) demo_insert_run(2) demo_simps)
qed simp

section \<open>Failures\<close>

text \<open>C2. A failed insert loses nothing: when \<open>insert\<close> returns any error other than one of the final commit,
  every entry of the store still has exactly the blob it had before, whatever call failed and whatever
  the clean-up managed to do.\<close>

theorem failed_insert_harmless:
  assumes "lawful storage_fs blobs fs_ok st" "fs_ok w" "entry_ok e"
    and "store_insert st e pt overwrite w = (Inl err, w')" "\<not> is_vcs_err err" "relpath_ok f"
  shows "blobs w' (entry_to_blob f) = blobs w (entry_to_blob f)"
  using eff_postD_err [OF fs.insert_post [OF assms(1-3)] assms(4)] assms(5) gpg_not_tmp [OF assms(6)] by blast

text \<open>The example: the disk fails at the rename, and the clean-up fails too.\<close>

definition demo_bad :: fs_world where
  "demo_bad = demo\<lparr>faults := (\<lambda>n. if n < 2 then None else Some 1)\<rparr>"

lemma demo_bad_simps:
  "tree demo_bad = demo_tree" "no_stat demo_bad = (\<lambda>_. False)" "no_read demo_bad = (\<lambda>_. False)"
  "faults demo_bad = (\<lambda>n. if n < 2 then None else Some 1)" "tick demo_bad = 0" "pid demo_bad = 7" "nanos demo_bad = (\<lambda>n. n)"
  by (simp_all add: demo_bad_def demo_simps)

lemma demo_bad_ok: "fs_ok demo_bad" "resolve_for demo_store (RelPath ''web/new'') demo_bad = Inr [KeyId ''K1'']"
  by code_simp+

lemma demo_bad_run: "fst (store_insert demo_store (RelPath ''web/new'') ''pw'' False demo_bad) = Inl (StorageErr (IoAt [''web'', ''new.gpg.tmp.7.0''] OtherIo))"
  by (simp add: store_insert_def exists_unless_def demo_new demo_bad_ok(2) demo_bad_simps fs_run cong: run_weak)

theorem failed_insert_harmless_witness:
  "blobs (snd (store_insert demo_store (RelPath ''web/new'') ''pw'' False demo_bad)) (entry_to_blob (RelPath ''web/a'')) = Some ''!s1''"
proof -
  have "entry_ok (RelPath ''web/new'')" "relpath_ok (RelPath ''web/a'')" by code_simp+
  from failed_insert_harmless [OF demo_lawful demo_bad_ok(1) this(1) run_eq [OF demo_bad_run] _ this(2)]
  have "blobs (snd (store_insert demo_store (RelPath ''web/new'') ''pw'' False demo_bad)) (entry_to_blob (RelPath ''web/a'')) =
    blobs demo_bad (entry_to_blob (RelPath ''web/a''))" by simp
  also have "\<dots> = Some ''!s1''" by code_simp
  finally show ?thesis .
qed

text \<open>Insert without \<open>overwrite\<close> never replaces an entry: when the blob is there, the call returns an
  error and the world is exactly as before.\<close>

lemma insert_never_clobbers:
  assumes "lawful storage_fs blobs fs_ok st" "fs_ok w" "entry_ok e" "blobs w (entry_to_blob e) \<noteq> None"
  shows "snd (store_insert st e pt False w) = w \<and>
    fst (store_insert st e pt False w) \<in> {Inl (StoreAlreadyExists (as_str e))} \<union> {Inl (StorageErr x) | x. True}"
proof (cases "st_exists (storage st) w (entry_to_blob e)")
  case (Inl x)
  then show ?thesis by (simp add: store_insert_def Let_def exists_unless_def)
next
  case (Inr found)
  then have "found"
    using fs.exists_law [OF assms(2) entry_ok_blob [OF assms(3)] _ assms(4)] assms(1) by (simp add: lawful_def)
  with Inr show ?thesis by (simp add: store_insert_def Let_def exists_unless_def)
qed

section \<open>Copy, rename, remove\<close>

text \<open>Copy: on success the target was free or overwriting was asked for, the target's blob is the
  source's own bytes when both resolve to the same recipients and otherwise the source's plaintext
  encrypted for the target's recipients, and no other blob changed; in particular the source stays.\<close>

lemma copy_exact:
  assumes "lawful storage_fs blobs fs_ok st" "fs_ok w" "entry_ok from" "entry_ok to"
    and "store_copy st from to overwrite w = (Inr (), w')"
  shows "(overwrite \<or> blobs w (entry_to_blob to) = None) \<and>
    (\<exists>ct ct'. blobs w (entry_to_blob from) = Some ct \<and> transferred st from to w ct ct' \<and>
       blobs w' = (blobs w)(entry_to_blob to \<mapsto> ct'))"
  by (rule conjunct2 [OF eff_postD [OF fs.copy_post [OF assms(1-4)] assms(5)]])

lemma demo_ab: "entry_to_blob (RelPath ''web/a'') = RelPath ''web/a.gpg''" "entry_to_blob (RelPath ''c'') = RelPath ''c.gpg''"
    "segments (RelPath ''web/a.gpg'') = [''web'', ''a.gpg'']" "segments (RelPath ''c.gpg'') = [''c.gpg'']"
    "resolve_for demo_store (RelPath ''web/a'') demo = Inr [KeyId ''K1'']" "resolve_for demo_store (RelPath ''c'') demo = Inr [KeyId ''K1'']"
    "tmp_name ''c.gpg'' 7 0 = ''c.gpg.tmp.7.0''" "recipients_equal [KeyId ''K1''] [KeyId ''K1''] = True"
    "entry_ok (RelPath ''web/a'') = True" "entry_ok (RelPath ''c'') = True" "addr (RelPath ''web'') = True"
  by code_simp+

lemma demo_copy_run: "fst (store_copy demo_store (RelPath ''web/a'') (RelPath ''c'') False demo) = Inr ()"
  by (simp add: store_copy_def transfer_blob_def exists_unless_def demo_ab fs_run cong: run_weak)

text \<open>C8. Rename: on success the source is gone, the target holds the transferred blob, and every other
  blob is untouched; renaming an entry to itself changes nothing at all.\<close>

theorem rename_exact:
  assumes "lawful storage_fs blobs fs_ok st" "fs_ok w" "entry_ok from" "entry_ok to"
    and "store_rename st from to overwrite w = (Inr (), w')"
  shows "if from = to then w' = w
    else (overwrite \<or> blobs w (entry_to_blob to) = None) \<and>
      (\<exists>ct ct'. blobs w (entry_to_blob from) = Some ct \<and> transferred st from to w ct ct' \<and>
         blobs w' = (blobs w)(entry_to_blob to \<mapsto> ct', entry_to_blob from := None))"
proof (cases "from = to")
  case True
  then show ?thesis using assms(5) fs.rename_same [of st to overwrite w] by simp
next
  case False
  with eff_postD [OF fs.rename_post [OF assms(1-4) False] assms(5)] show ?thesis by auto
qed

lemma shred_chunk: "write_chunks p pos (Suc n) w =
    (let chunk = min (Suc n) SHRED_BUF; (buf, w) = draw chunk w in
     then_eff (write_at p pos buf w) (\<lambda>_ w. write_chunks p (pos + chunk) (Suc n - chunk) w))"
  "write_chunks p pos 0 w = (Inr (), w)"
  by (subst write_chunks.simps, simp)+

lemmas shred_run = fs_storage_remove_def overwrite_then_unlink_def overwrite_in_place_def open_write_def
  file_len_def SHRED_PASSES_def SHRED_BUF_def draw_def random_bytes_def numeral_3_eq_3 shred_chunk

lemma demo_rename_run: "fst (store_rename demo_store (RelPath ''web/a'') (RelPath ''c'') False demo) = Inr ()"
  by (simp add: store_rename_def transfer_blob_def exists_unless_def demo_ab fs_run shred_run cong: run_weak)

theorem rename_exact_witness:
  "blobs (snd (store_rename demo_store (RelPath ''web/a'') (RelPath ''c'') False demo)) (RelPath ''web/a.gpg'') = None"
proof -
  have ne: "RelPath ''web/a'' \<noteq> RelPath ''c''" "RelPath ''web/a.gpg'' \<noteq> RelPath ''c.gpg''" by simp_all
  from rename_exact [OF demo_lawful demo_ok _ _ run_eq [OF demo_rename_run]]
  show ?thesis using ne by (auto simp: demo_ab)
qed

text \<open>Listing is exact: \<open>list\<close> returns, sorted by path, precisely the entries below the given directory
  (or all of them) whose blob is in the store.\<close>

lemma list_exact:
  assumes "lawful storage_fs blobs fs_ok st" "fs_ok w" "pre_addr pre" "store_list st pre w = Inr es"
  shows "sorted (map as_str es) \<and> set es = {e. relpath_ok e \<and> blobs w (entry_to_blob e) \<noteq> None \<and> under pre e}"
  by (rule fs.list_set [OF assms])

lemma demo_list: "store_list demo_store (Some (RelPath ''web'')) demo = Inr [RelPath ''web/a'', RelPath ''web/b'']"
  by code_simp

text \<open>C9. Removing a directory of entries: on success the returned list is the sorted listing of the
  directory, it is not empty, exactly the blobs of these entries are gone and every other blob is as
  before; on an error nothing outside the directory has changed.\<close>

theorem remove_recursive_exact:
  assumes "lawful storage_fs blobs fs_ok st" "fs_ok w" "addr pre"
    and "remove_recursive st pre w = (r, w')"
  shows "case r of
      Inr es \<Rightarrow> es \<noteq> [] \<and> store_list st (Some pre) w = Inr es \<and>
        (\<forall>q. blobs w' q = (if q \<in> entry_to_blob ` set es then None else blobs w q))
    | Inl _ \<Rightarrow> (\<forall>q. \<not> under (Some pre) q \<longrightarrow> blobs w' q = blobs w q)"
proof (cases r)
  case (Inl e)
  then show ?thesis using eff_postD_err [OF fs.remove_recursive_post [OF assms(1-3)]] assms(4) by auto
next
  case (Inr es)
  then show ?thesis using eff_postD [OF fs.remove_recursive_post [OF assms(1-3)]] assms(4) by auto
qed

lemma demo_abs: "entry_to_blob (RelPath ''web/b'') = RelPath ''web/b.gpg''" "segments (RelPath ''web/b.gpg'') = [''web'', ''b.gpg'']"
  by code_simp+

lemma demo_rmr_run: "fst (remove_recursive demo_store (RelPath ''web'') demo) = Inr [RelPath ''web/a'', RelPath ''web/b'']"
  by (simp add: remove_recursive_def demo_list demo_ab demo_abs fs_run shred_run cong: run_weak)

theorem remove_recursive_exact_witness:
  "blobs (snd (remove_recursive demo_store (RelPath ''web'') demo)) (RelPath ''web/a.gpg'') = None"
proof -
  have "addr (RelPath ''web'')" by code_simp
  from remove_recursive_exact [OF demo_lawful demo_ok this run_eq [OF demo_rmr_run]]
  show ?thesis by (simp add: demo_ab)
qed

text \<open>Remove: on success the entry's blob is gone and nothing else has changed; on an error every
  other blob is as before; an entry the store does not hold is reported as not found and the world is
  untouched.\<close>

lemma remove_exact:
  assumes "lawful storage_fs blobs fs_ok st" "fs_ok w" "entry_ok e" "store_remove st e w = (r, w')"
  shows "(case r of Inr _ \<Rightarrow> blobs w' = (blobs w)(entry_to_blob e := None)
      | Inl _ \<Rightarrow> (\<forall>q. q \<noteq> entry_to_blob e \<longrightarrow> blobs w' q = blobs w q)) \<and>
    (st_exists (storage st) w (entry_to_blob e) = Inr False \<longrightarrow> r = Inl (StoreNotFound (as_str e)) \<and> w' = w)"
  using eff_postD [OF fs.remove_op_post [OF assms(1-3)]] eff_postD_err [OF fs.remove_op_post [OF assms(1-3)]]
    fs.remove_missing [OF assms(1-3)] assms(4) by (cases r) auto

lemma demo_rm_run: "fst (store_remove demo_store (RelPath ''web/a'') demo) = Inr ()"
  by (simp add: store_remove_def demo_ab fs_run shred_run cong: run_weak)

section \<open>Initialising\<close>

text \<open>Init: after a successful \<open>init\<close> with well-formed recipients, the store's \<open>.gpg-id\<close> parses back to
  exactly these recipients, \<open>.gitattributes\<close> keeps its old content as a prefix and (when it was text)
  declares \<open>*.gpg\<close> binary, and no other blob has changed.\<close>

lemma init_establishes:
  assumes "lawful storage_fs blobs fs_ok st" "fs_ok w" "list_all keyid_clean rs"
    and "store_init st rs w = (Inr (), w')"
  shows "(\<exists>b. blobs w' gpg_id_path = Some b \<and> parse_gpg_id b = Inr rs) \<and>
    prefix (unwrap_or [] (blobs w gitattributes_path)) (unwrap_or [] (blobs w' gitattributes_path)) \<and>
    (valid_utf8 (unwrap_or [] (blobs w gitattributes_path)) \<longrightarrow>
       has_gpg_binary_rule (unwrap_or [] (blobs w' gitattributes_path))) \<and>
    (\<forall>q. q \<noteq> gpg_id_path \<longrightarrow> q \<noteq> gitattributes_path \<longrightarrow> blobs w' q = blobs w q)"
  using eff_postD [OF fs.init_op_post [OF assms(1,2)] assms(4)] gpg_id_roundtrip [OF assms(3)] by blast

text \<open>Installing the merge rule is idempotent: once a call has returned, on a \<open>.gitattributes\<close> that is
  text, any further call that succeeds reports no change and leaves the world exactly as it is.\<close>

lemma install_idempotent:
  assumes "lawful storage_fs blobs fs_ok st" "fs_ok w" "valid_utf8 (unwrap_or [] (blobs w gitattributes_path))"
    and "install_gitattributes st w = (Inr changed, w1)" "install_gitattributes st w1 = (Inr again, w2)"
  shows "\<not> again \<and> w2 = w1"
proof -
  from eff_postD [OF fs.install_post [OF assms(1,2)] assms(4)] assms(3)
  have ok1: "fs_ok w1" and rule: "has_gpg_binary_rule (unwrap_or [] (blobs w1 gitattributes_path))"
    by (auto simp: Let_def unwrap_or_def split: if_splits)
  obtain body where body: "read_default st gitattributes_path w1 = Inr body"
    using assms(5) by (cases "read_default st gitattributes_path w1") (auto simp: install_gitattributes_def)
  have "body = unwrap_or [] (blobs w1 gitattributes_path)"
    by (rule fs.read_default_law [OF assms(1) ok1 gitattributes_path_addr body])
  then show ?thesis using rule body assms(5) by (auto simp: install_gitattributes_def)
qed

lemma demo_init: "segments gpg_id_path = [''.gpg-id'']" "segments gitattributes_path = [''.gitattributes'']"
    "as_str gpg_id_path = ''.gpg-id''" "as_str gitattributes_path = ''.gitattributes''"
    "tmp_name ''.gpg-id'' 7 0 = ''.gpg-id.tmp.7.0''" "tmp_name ''.gitattributes'' 7 (Suc (Suc (Suc (Suc 0)))) = ''.gitattributes.tmp.7.4''"
    "tmp_name ''.gitattributes'' 7 0 = ''.gitattributes.tmp.7.0''"
    "has_gpg_binary_rule [] = False" "has_gpg_binary_rule GITATTRIBUTES_RULE = True"
    "list_all keyid_clean [KeyId ''K2''] = True" "gpg_id_body [KeyId ''K2''] = ''K2'' @ [NL]"
  by code_simp+

lemma demo_init_run: "fst (store_init demo_store [KeyId ''K2''] demo) = Inr ()"
  by (simp add: store_init_def install_gitattributes_def read_default_def unwrap_or_def demo_init fs_run cong: run_weak)

lemma demo_install_run:
  "fst (install_gitattributes demo_store demo) = Inr True"
  "fst (install_gitattributes demo_store (snd (install_gitattributes demo_store demo))) = Inr False"
  by (simp_all add: install_gitattributes_def read_default_def unwrap_or_def demo_init fs_run cong: run_weak)

section \<open>The backend itself\<close>

text \<open>C7. A write is all or nothing: whatever call fails, and whether or not the clean-up works, the blob
  afterwards is the new data (exactly when the call returned \<open>Ok\<close>) or what it was, and no other blob
  than a leftover temporary file of the backend differs.\<close>

theorem write_all_or_nothing:
  assumes "fs_ok w" "addr p" "fs_storage_write p data w = (r, w')"
  shows "fs_ok w' \<and> (case r of
      Inr _ \<Rightarrow> blobs w' = (blobs w)(p \<mapsto> data)
    | Inl _ \<Rightarrow> (\<forall>q. \<not> is_tmp_path q \<longrightarrow> blobs w' q = blobs w q))"
  using eff_postD [OF fs_write_post [OF assms(1,2)]] eff_postD_err [OF fs_write_post [OF assms(1,2)]] assms(3)
  by (cases r) auto

lemma demo_write_run: "fst (fs_storage_write (RelPath ''web/new.gpg'') ''x'' demo_bad) = Inl (IoAt [''web'', ''new.gpg.tmp.7.0''] OtherIo)"
  by (simp add: demo_new demo_bad_simps fs_run cong: run_weak)

theorem write_all_or_nothing_witness:
  "blobs (snd (fs_storage_write (RelPath ''web/new.gpg'') ''x'' demo_bad)) (RelPath ''web/a.gpg'') = Some ''!s1''"
proof -
  have "addr (RelPath ''web/new.gpg'')" by code_simp
  note w = write_all_or_nothing [OF demo_bad_ok(1) this run_eq [OF demo_write_run]]
  have "relpath_ok (RelPath ''web/a'')" by code_simp
  from gpg_not_tmp [OF this] have "\<not> is_tmp_path (RelPath ''web/a.gpg'')" by (simp add: demo_ab)
  with w have "blobs (snd (fs_storage_write (RelPath ''web/new.gpg'') ''x'' demo_bad)) (RelPath ''web/a.gpg'') = blobs demo_bad (RelPath ''web/a.gpg'')"
    by simp
  also have "\<dots> = Some ''!s1''" by code_simp
  finally show ?thesis .
qed

lemma absolute_link:
  assumes "fs_ok w" "0 < k" "k \<le> length (segments p)" "node_at w (take k (segments p)) = Some (Link t)"
  shows "\<exists>e. absolute w p = Inl e"
proof (cases "absolute w p")
  case (Inr ap)
  then have "reject_symlinks w [] (segments p) = Inr ()" using absolute_Inr by blast
  from reject_symlinks_ok [OF this assms(2,3,1), of t] assms(4) show ?thesis by simp
qed simp

text \<open>C11. Symbolic links are refused: when any component of a path, the last one included, is a symbolic
  link, every operation of the backend on that path returns an error and the world stays as it is.\<close>

theorem symlinks_refused:
  assumes "fs_ok w" "0 < k" "k \<le> length (segments p)" "node_at w (take k (segments p)) = Some (Link t)"
  shows "\<exists>e. fs_storage_read w p = Inl e \<and> fs_storage_exists w p = Inl e \<and> fs_storage_list w (Some p) = Inl e \<and>
    fs_storage_write p data w = (Inl e, w) \<and> fs_storage_remove p w = (Inl e, w)"
  using absolute_link [OF assms]
  by (auto simp: fs_storage_read_def fs_storage_exists_def fs_storage_list_def fs_storage_write_def fs_storage_remove_def)

theorem symlinks_refused_witness:
  "\<exists>e. fs_storage_write (RelPath ''web/passwd'') ''x'' (demo_world [([], Dir), ([''web''], Link ''/etc'')]) =
     (Inl e, demo_world [([], Dir), ([''web''], Link ''/etc'')])"
proof -
  let ?w = "demo_world [([], Dir), ([''web''], Link ''/etc'')]"
  have "fs_ok ?w" "1 \<le> length (segments (RelPath ''web/passwd''))"
    "node_at ?w (take 1 (segments (RelPath ''web/passwd''))) = Some (Link ''/etc'')" by code_simp+
  from symlinks_refused [OF this(1) _ this(2,3), of "''x''"] show ?thesis by auto
qed

text \<open>Shredding: when the overwrite before an unlink reports success, the file still has its length and
  none of its content: every byte comes from the generator, drawn in the last of the passes, after the
  bytes of all the earlier passes.\<close>

lemma shred_overwrites:
  assumes "fs_ok w" "0 < passes" "node_at w p = Some (File old)" "overwrite_in_place p passes w = (Inr (), w')"
  shows "node_at w' = (node_at w)(p \<mapsto> File (random_bytes w (drawn w + (passes - 1) * length old) (length old)))"
  using eff_postD [OF overwrite_post [OF assms(1)] assms(4)] assms(2,3) by auto

lemma demo_shred_run: "fst (overwrite_in_place [''mail.gpg''] SHRED_PASSES demo) = Inr ()"
  by (simp add: fs_run shred_run cong: run_weak)

end
