(* ===== verification/Cli_Commands.thy ===== *)
theory Cli_Commands
  imports Messaging_Host Tree_Render Store_Properties
begin

text \<open>
  The commands of the terminal program that act on the entries of a store (\<open>bypass-cli/src/main.rs\<close>):
  the arms of \<open>dispatch\<close> for \<open>otp\<close>, \<open>log\<close>, \<open>insert\<close>, \<open>show\<close>, \<open>ls\<close>, \<open>find\<close>, \<open>rm\<close>, \<open>generate\<close>, \<open>cp\<close>, \<open>mv\<close>
  and \<open>git\<close>.  The terminal is a record of what can be read from it and of what writing to it answers;
  what a command prints, copies or reports is a list of events beside the world of the store.  A line
  printed with \<open>println!\<close> or \<open>eprintln!\<close> is always printed (the macros panic otherwise).
\<close>

section \<open>The terminal\<close>

datatype out_event = Stdout bytes | Stderr str | Clip bytes

record console =
  cn_is_tty :: bool
  cn_stdin :: "str + bytes"            \<comment> \<open>everything up to the end of standard input\<close>
  cn_prompt :: "str \<Rightarrow> str + str"       \<comment> \<open>\<open>rpassword::prompt_password\<close>\<close>
  cn_stdout :: "bytes \<Rightarrow> str + unit"    \<comment> \<open>\<open>stdout().write_all\<close>\<close>
  cn_clip :: "bytes \<Rightarrow> str + unit"      \<comment> \<open>\<open>clipboard::copy_and_auto_clear\<close>\<close>
  cn_debug :: "str \<Rightarrow> str"             \<comment> \<open>the \<open>{:?}\<close> form of a string\<close>

datatype ('ce, 'se, 've) cli_error =
    InvalidEntryPath path_error
  | CliStore "('ce, 'se, 've) store_error"
  | EntryNotUtf8Text
  | ComputeTotp otp_error
  | ParseEntryBody entry_error
  | EntryHasNoField str
  | WriteStdout str
  | ClipboardFailed str
  | ReadStdin str
  | ReadPassword str
  | PasswordsDiffer
  | EmptyPlaintext str
  | SpawnGit str

type_synonym ('w, 'ce, 'se, 've, 'a) cli_op = "('w \<times> out_event list, ('ce, 'se, 've) cli_error, 'a) eff"

definition emit :: "out_event \<Rightarrow> 'w \<times> out_event list \<Rightarrow> 'w \<times> out_event list" where
  "emit e s = (fst s, snd s @ [e])"

text \<open>An operation of the store, in the middle of a command.\<close>

definition on_store :: "('w, ('ce, 'se, 've) store_error, 'a) eff \<Rightarrow> ('w, 'ce, 'se, 've, 'a) cli_op" where
  "on_store f s = (case f (fst s) of (r, w) \<Rightarrow> (map_err CliStore r, (w, snd s)))"

definition look :: "('w \<Rightarrow> ('ce, 'se, 've) store_error + 'a) \<Rightarrow> ('w, 'ce, 'se, 've, 'a) cli_op" where
  "look f s = (map_err CliStore (f (fst s)), s)"

definition parse_entry :: "str \<Rightarrow> ('ce, 'se, 've) cli_error + relpath" where
  "parse_entry s = map_err InvalidEntryPath (relpath_new s)"

definition parse_entry_opt :: "str option \<Rightarrow> ('ce, 'se, 've) cli_error + relpath option" where
  "parse_entry_opt x = (case x of None \<Rightarrow> Inr None | Some s \<Rightarrow> and_then (parse_entry s) (\<lambda>p. Inr (Some p)))"

text \<open>\<open>copy_and_auto_clear\<close> at its default delay, seen from a command: the helper has the bytes, and then the
  terminal is told.  Its steps are in \<open>Clipboard\<close>.\<close>

definition DEFAULT_CLEAR_SECS :: nat where "DEFAULT_CLEAR_SECS = 45"

definition clip_message :: "nat \<Rightarrow> str" where
  "clip_message seconds = ''Copied to clipboard. Will clear in '' @ show_nat seconds @ '' seconds.''"

definition to_clipboard :: "console \<Rightarrow> bytes \<Rightarrow> ('w, 'ce, 'se, 've, unit) cli_op" where
  "to_clipboard con b s =
     (case cn_clip con b of
        Inl e \<Rightarrow> (Inl (ClipboardFailed e), s)
      | Inr _ \<Rightarrow> (Inr (), emit (Stderr (clip_message DEFAULT_CLEAR_SECS)) (emit (Clip b) s)))"

definition println :: "str \<Rightarrow> 'w \<times> out_event list \<Rightarrow> 'w \<times> out_event list" where
  "println l s = emit (Stdout (l @ [NL])) s"

section \<open>Reading a secret\<close>

text \<open>\<open>Stdin::read_line\<close> on the whole input: up to and with the first line feed; not UTF-8 is an error.\<close>

definition read_line_of :: "bytes \<Rightarrow> str + str" where
  "read_line_of b =
     (let l = takeWhile (\<lambda>c. c \<noteq> NL) b; line = (if NL \<in> set b then l @ [NL] else l) in
      case from_utf8 line of None \<Rightarrow> Inl ''stream did not contain valid UTF-8'' | Some t \<Rightarrow> Inr t)"

definition strip_line_end :: "str \<Rightarrow> str" where
  "strip_line_end line =
     (if suffix [NL] line then
        (let line = butlast line in if suffix [CR] line then butlast line else line)
      else line)"

definition read_secret_from_stdin :: "console \<Rightarrow> bool \<Rightarrow> ('ce, 'se, 've) cli_error + bytes" where
  "read_secret_from_stdin con multiline =
     (if multiline then map_err ReadStdin (cn_stdin con)
      else if \<not> cn_is_tty con then
        and_then (map_err ReadStdin (and_then (cn_stdin con) read_line_of)) (\<lambda>line. Inr (strip_line_end line))
      else
        and_then (map_err ReadPassword (cn_prompt con ''Enter password: '')) (\<lambda>a.
        and_then (map_err ReadPassword (cn_prompt con ''Retype password: '')) (\<lambda>b.
          if a \<noteq> b then Inl PasswordsDiffer else Inr a)))"

section \<open>Commands\<close>

definition cmd_otp ::
  "(str \<Rightarrow> otp_error + str) \<Rightarrow> console \<Rightarrow> ('w, 'ce, 'se, 've) store \<Rightarrow> str \<Rightarrow> bool \<Rightarrow> ('w, 'ce, 'se, 've, nat) cli_op" where
  "cmd_otp totp con st path clip s =
     then_eff (parse_entry path, s) (\<lambda>e s.
     then_eff (look (store_show st e) s) (\<lambda>plaintext s.
     then_eff (case from_utf8 plaintext of None \<Rightarrow> Inl EntryNotUtf8Text | Some t \<Rightarrow> Inr t, s) (\<lambda>text s.
     then_eff (map_err ComputeTotp (totp text), s) (\<lambda>code s.
       if clip then then_eff (to_clipboard con code s) (\<lambda>_ s. (Inr 0, s))
       else (Inr 0, println code s)))))"

text \<open>\<open>c.id.get(..7).unwrap_or(c.id.as_str())\<close>: \<open>get\<close> refuses a cut inside a character.\<close>

definition short_id :: "str \<Rightarrow> str" where
  "short_id i = (if 7 \<le> length i \<and> valid_utf8 (take 7 i) then take 7 i else i)"

definition cmd_log :: "('w, 'ce, 'se, 've) store \<Rightarrow> str option \<Rightarrow> ('w, 'ce, 'se, 've, nat) cli_op" where
  "cmd_log st path s =
     then_eff (parse_entry_opt path, s) (\<lambda>e s.
     then_eff (look (\<lambda>w. store_log st e w) s) (\<lambda>commits s.
       (Inr 0, fold (\<lambda>c. println (short_id (c_id c) @ '' '' @ c_summary c)) commits s)))"

definition cmd_insert ::
  "console \<Rightarrow> ('w, 'ce, 'se, 've) store \<Rightarrow> str \<Rightarrow> bool \<Rightarrow> bool \<Rightarrow> ('w, 'ce, 'se, 've, nat) cli_op" where
  "cmd_insert con st path force multiline s =
     then_eff (parse_entry path, s) (\<lambda>e s.
     then_eff (read_secret_from_stdin con multiline, s) (\<lambda>plaintext s.
       if plaintext = [] then (Inl (EmptyPlaintext path), s)
       else
         then_eff (on_store (store_insert st e plaintext force) s) (\<lambda>_ s.
           (Inr 0, emit (Stderr ((if force then ''updated'' else ''added'') @ '' '' @ as_str e)) s))))"

definition show_output :: "(str \<Rightarrow> str) \<Rightarrow> str option \<Rightarrow> bytes \<Rightarrow> ('ce, 'se, 've) cli_error + bytes" where
  "show_output uni fld plaintext =
     (case fld of
        Some name \<Rightarrow>
          and_then (map_err ParseEntryBody (parse_entry_bytes uni plaintext)) (\<lambda>parsed.
            case field uni parsed name of None \<Rightarrow> Inl (EntryHasNoField name) | Some v \<Rightarrow> Inr v)
      | None \<Rightarrow> Inr plaintext)"

definition cmd_show ::
  "(str \<Rightarrow> str) \<Rightarrow> console \<Rightarrow> ('w, 'ce, 'se, 've) store \<Rightarrow> str \<Rightarrow> str option \<Rightarrow> bool \<Rightarrow> ('w, 'ce, 'se, 've, nat) cli_op" where
  "cmd_show uni con st path fld clip s =
     then_eff (parse_entry path, s) (\<lambda>e s.
     then_eff (look (store_show st e) s) (\<lambda>plaintext s.
     then_eff (show_output uni fld plaintext, s) (\<lambda>output s.
       if clip then
         (let to_copy = (if fld \<noteq> None then output else takeWhile (\<lambda>c. c \<noteq> NL) output) in
          then_eff (to_clipboard con to_copy s) (\<lambda>_ s. (Inr 0, s)))
       else
         then_eff (map_err WriteStdout (cn_stdout con output), s) (\<lambda>_ s.
           let s = emit (Stdout output) s in
           (Inr 0, if output \<noteq> [] \<and> last output = NL then s
                   else (case cn_stdout con [NL] of Inr _ \<Rightarrow> emit (Stdout [NL]) s | Inl _ \<Rightarrow> s))))))"

definition strip_sub :: "relpath \<Rightarrow> relpath \<Rightarrow> relpath option" where
  "strip_sub p e =
     (case strip_prefix (as_str p @ ''/'') (as_str e) of None \<Rightarrow> None
      | Some r \<Rightarrow> (case relpath_new r of Inr q \<Rightarrow> Some q | Inl _ \<Rightarrow> None))"

definition cmd_ls :: "('w, 'ce, 'se, 've) store \<Rightarrow> str option \<Rightarrow> ('w, 'ce, 'se, 've, nat) cli_op" where
  "cmd_ls st subpath s =
     then_eff (parse_entry_opt subpath, s) (\<lambda>sub s.
     then_eff (look (store_list st sub) s) (\<lambda>entries s.
       let (display, header) =
         (case sub of
            Some p \<Rightarrow> (List.map_filter (strip_sub p) entries, as_str p @ ''/'')
          | None \<Rightarrow> (entries, ''Password Store'')) in
       (Inr 0, emit (Stdout (tree_render display header)) s)))"

definition cmd_find :: "console \<Rightarrow> ('w, 'ce, 'se, 've) store \<Rightarrow> str \<Rightarrow> ('w, 'ce, 'se, 've, nat) cli_op" where
  "cmd_find con st pattern s =
     then_eff (look (store_find st pattern) s) (\<lambda>entries s.
       if entries = [] then (Inr 1, emit (Stderr (''bypass: no entries matching '' @ cn_debug con pattern)) s)
       else (Inr 0, fold (\<lambda>e. println (as_str e)) entries s))"

definition cmd_rm :: "('w, 'ce, 'se, 've) store \<Rightarrow> str \<Rightarrow> bool \<Rightarrow> ('w, 'ce, 'se, 've, nat) cli_op" where
  "cmd_rm st path rec s =
     then_eff (parse_entry path, s) (\<lambda>target s.
       if rec then
         then_eff (on_store (remove_recursive st target) s) (\<lambda>removed s.
           (Inr 0, fold (\<lambda>e. emit (Stderr (''removed '' @ as_str e))) removed s))
       else
         then_eff (on_store (store_remove st target) s) (\<lambda>_ s.
           (Inr 0, emit (Stderr (''removed '' @ as_str target)) s)))"

definition cmd_generate ::
  "(nat \<Rightarrow> nat \<Rightarrow> nat) \<Rightarrow> console \<Rightarrow> ('w, 'ce, 'se, 've) store \<Rightarrow> str \<Rightarrow> nat option \<Rightarrow> bool \<Rightarrow> bool \<Rightarrow> bool \<Rightarrow> bool \<Rightarrow>
    ('w, 'ce, 'se, 've, nat) cli_op" where
  "cmd_generate rng con st path len no_symbols in_place force clip s =
     then_eff (parse_entry path, s) (\<lambda>e s.
       let password = generate rng (unwrap_or DEFAULT_LENGTH len) (\<not> no_symbols) in
       then_eff
         (if in_place then
            then_eff (look (store_show st e) s) (\<lambda>existing s.
              on_store (store_insert st e (rotate_body password existing) True) s)
          else on_store (store_insert st e password force) s) (\<lambda>_ s.
       then_eff (if clip then to_clipboard con password s else (Inr (), println password s)) (\<lambda>_ s.
         (Inr 0, emit (Stderr ((if in_place then ''rotated'' else if force then ''updated'' else ''added'') @ '' '' @ as_str e)) s))))"

definition cmd_cp :: "('w, 'ce, 'se, 've) store \<Rightarrow> str \<Rightarrow> str \<Rightarrow> bool \<Rightarrow> ('w, 'ce, 'se, 've, nat) cli_op" where
  "cmd_cp st from to force s =
     then_eff (parse_entry from, s) (\<lambda>f s.
     then_eff (parse_entry to, s) (\<lambda>t s.
     then_eff (on_store (store_copy st f t force) s) (\<lambda>_ s.
       (Inr 0, emit (Stderr (''copied '' @ as_str f @ '' to '' @ as_str t)) s))))"

definition cmd_mv :: "('w, 'ce, 'se, 've) store \<Rightarrow> str \<Rightarrow> str \<Rightarrow> bool \<Rightarrow> ('w, 'ce, 'se, 've, nat) cli_op" where
  "cmd_mv st from to force s =
     then_eff (parse_entry from, s) (\<lambda>f s.
     then_eff (parse_entry to, s) (\<lambda>t s.
     then_eff (on_store (store_rename st f t force) s) (\<lambda>_ s.
       (Inr 0, emit (Stderr (''renamed '' @ as_str f @ '' to '' @ as_str t)) s))))"

section \<open>The git passthrough\<close>

text \<open>One constructor per warning text.\<close>

datatype git_warning = ResetHard | CleanForce | CheckoutAll | BranchDelete | PushForce

definition warn_destructive_git_args :: "str list \<Rightarrow> git_warning option" where
  "warn_destructive_git_args args =
     (case dropWhile (\<lambda>a. prefix ''-'' a) args of
        [] \<Rightarrow> None
      | verb # rest \<Rightarrow>
          if verb = ''reset'' \<and> ''--hard'' \<in> set rest then Some ResetHard
          else if verb = ''clean'' \<and> list_ex (\<lambda>a. a \<in> {''-f'', ''-fd'', ''-fdx'', ''--force''}) rest then Some CleanForce
          else if verb = ''checkout'' \<and> list_ex (\<lambda>a. a = ''.'' \<or> a = ''--'') rest then Some CheckoutAll
          else if verb = ''branch'' \<and> ''-D'' \<in> set rest then Some BranchDelete
          else if verb = ''push'' \<and> list_ex (\<lambda>a. a \<in> {''--force'', ''-f'', ''--force-with-lease''}) rest then Some PushForce
          else None)"

text \<open>\<open>u8::try_from(status.code().unwrap_or(1)).unwrap_or(1)\<close>: a child killed by a signal has no code.\<close>

definition exit_u8 :: "int option \<Rightarrow> nat" where
  "exit_u8 code = (let c = unwrap_or 1 code in if 0 \<le> c \<and> c < 256 then nat c else 1)"

definition cmd_git ::
  "(git_warning \<Rightarrow> str) \<Rightarrow> (str list \<Rightarrow> ('w, str, int option) eff) \<Rightarrow> str list \<Rightarrow> ('w, 'ce, 'se, 've, nat) cli_op" where
  "cmd_git warning_text run_git args s =
     (let s = (case warn_destructive_git_args args of Some x \<Rightarrow> emit (Stderr (''bypass: '' @ warning_text x)) s | None \<Rightarrow> s) in
      case run_git args (fst s) of
        (Inl e, w) \<Rightarrow> (Inl (SpawnGit e), (w, snd s))
      | (Inr code, w) \<Rightarrow> (Inr (exit_u8 code), (w, snd s)))"

section \<open>Facts\<close>

lemma parse_entry_Inr_iff: "parse_entry s = Inr p \<longleftrightarrow> p = RelPath s \<and> relpath_ok p"
  by (simp add: parse_entry_def relpath_new_Inr_iff)

lemma parse_entry_opt_Inr_iff: "parse_entry_opt x = Inr y \<longleftrightarrow> y = map_option RelPath x \<and> (\<forall>s. x = Some s \<longrightarrow> relpath_ok (RelPath s))"
  by (cases x) (auto simp: parse_entry_opt_def and_then_Inr_iff parse_entry_Inr_iff)

lemma on_store_Inr_iff: "on_store f s = (Inr a, s') \<longleftrightarrow> f (fst s) = (Inr a, fst s') \<and> snd s' = snd s"
  by (cases s') (auto simp: on_store_def split: prod.splits)

lemma look_Inr_iff: "look f s = (Inr a, s') \<longleftrightarrow> f (fst s) = Inr a \<and> s' = s"
  by (auto simp: look_def)

lemma to_clipboard_Inr_iff: "to_clipboard con b s = (Inr u, s') \<longleftrightarrow> cn_clip con b = Inr () \<and>
    s' = emit (Stderr (clip_message DEFAULT_CLEAR_SECS)) (emit (Clip b) s)"
  by (auto simp: to_clipboard_def split: sum.splits)

lemma emit_parts [simp]: "fst (emit e s) = fst s" "snd (emit e s) = snd s @ [e]"
  by (simp_all add: emit_def)

lemma println_parts [simp]: "fst (println l s) = fst s" "snd (println l s) = snd s @ [Stdout (l @ [NL])]"
  by (simp_all add: println_def)

lemma emit_pair [simp]: "emit e (w, out) = (w, out @ [e])" "println l (w, out) = (w, out @ [Stdout (l @ [NL])])"
  by (simp_all add: emit_def println_def)

lemmas cli_run = then_eff_Inr_iff parse_entry_Inr_iff parse_entry_opt_Inr_iff on_store_Inr_iff look_Inr_iff to_clipboard_Inr_iff

lemma strip_line_end_pipe: "strip_line_end (line @ [NL]) = strip_cr line"
  by (simp add: strip_line_end_def strip_cr_def strip_suffix_def unwrap_or_def suffix_def butlast_conv_take)

lemma read_line_pipe: "NL \<notin> set line \<Longrightarrow> valid_utf8 line \<Longrightarrow> read_line_of (line @ NL # rest) = Inr (line @ [NL])"
proof -
  assume n: "NL \<notin> set line" and v: "valid_utf8 line"
  have "valid_utf8 [NL]" by code_simp
  with v have "valid_utf8 (line @ [NL])" by (rule valid_append)
  then show ?thesis using n by (simp add: read_line_of_def takeWhile_tail_c from_utf8_def del: valid_utf8.simps)
qed

lemma append_strict_prefix: "ys \<noteq> [] \<Longrightarrow> strict_prefix xs (xs @ ys)"
  by (simp add: strict_prefix_def)

text \<open>A path below a directory is the directory, a slash and a path.\<close>

lemma segments_below: "segments (RelPath (as_str p @ SLASH # as_str q)) = segments p @ segments q"
  by (simp add: segments_def split_char_append_any)

lemma strip_below: "strip_prefix (a @ [c]) (a @ c # r) = Some r"
  using strip_prefix_append [of "a @ [c]" r] by simp

lemma strip_sub_Some_iff:
  "strip_sub p e = Some q \<longleftrightarrow> relpath_ok q \<and> e = RelPath (as_str p @ SLASH # as_str q)"
proof -
  have "strip_sub p e = Some q \<longleftrightarrow> (\<exists>r. as_str e = as_str p @ SLASH # r \<and> relpath_new r = Inr q)"
    by (auto simp: strip_sub_def strip_below strip_prefix_Some_iff split: option.splits sum.splits)
  also have "\<dots> \<longleftrightarrow> relpath_ok q \<and> as_str e = as_str p @ SLASH # as_str q"
    by (auto simp: relpath_new_Inr_iff)
  finally show ?thesis by (cases e) auto
qed

lemma below_iff:
  assumes "relpath_ok p"
  shows "relpath_ok e \<and> under (Some p) e \<longleftrightarrow> (\<exists>q. relpath_ok q \<and> e = RelPath (as_str p @ SLASH # as_str q))"
proof
  assume e: "relpath_ok e \<and> under (Some p) e"
  then obtain rest where r: "segments e = segments p @ rest" "rest \<noteq> []"
    by (auto simp: under_def strict_prefix_def prefix_def)
  then have "as_str e = join_with ''/'' (segments p @ rest)" by (metis join_segments)
  also have "\<dots> = as_str p @ SLASH # join_with ''/'' rest"
    using r(2) join_with_append [of "segments p" rest "''/''"] by (simp add: join_segments)
  finally have eq: "as_str e = as_str p @ SLASH # as_str (RelPath (join_with ''/'' rest))" by simp
  have ok: "list_all seg_ok rest" using e r(1) by (simp add: relpath_ok_def)
  have "segments (RelPath (join_with ''/'' rest)) = rest"
    using split_join [OF r(2), of SLASH] ok by (auto simp: segments_def list_all_iff seg_ok_def)
  with ok have "relpath_ok (RelPath (join_with ''/'' rest))" by (simp add: relpath_ok_def)
  moreover have "e = RelPath (as_str p @ SLASH # as_str (RelPath (join_with ''/'' rest)))" using eq by (cases e) simp
  ultimately show "\<exists>q. relpath_ok q \<and> e = RelPath (as_str p @ SLASH # as_str q)" by blast
next
  assume "\<exists>q. relpath_ok q \<and> e = RelPath (as_str p @ SLASH # as_str q)"
  then obtain q where q: "relpath_ok q" "segments e = segments p @ segments q" using segments_below by blast
  have "segments q \<noteq> []" by (simp add: segments_def)
  then have "strict_prefix (segments p) (segments e)" unfolding q(2) by (rule append_strict_prefix)
  with q assms show "relpath_ok e \<and> under (Some p) e" by (simp add: relpath_ok_def under_def)
qed

lemma set_map_filter: "y \<in> set (List.map_filter f xs) \<longleftrightarrow> (\<exists>x \<in> set xs. f x = Some y)"
  by (induction xs) (auto simp: map_filter_simps split: option.splits)

lemma map_filter_strip:
  assumes "relpath_ok p" "set es = {e. relpath_ok e \<and> P e \<and> under (Some p) e}"
  shows "set (List.map_filter (strip_sub p) es) = {q. relpath_ok q \<and> P (RelPath (as_str p @ SLASH # as_str q))}"
  (is "_ = ?R")
proof -
  have "(\<exists>e \<in> set es. strip_sub p e = Some q) \<longleftrightarrow> q \<in> ?R" for q
  proof -
    have "relpath_ok (RelPath (as_str p @ SLASH # as_str q)) \<and> under (Some p) (RelPath (as_str p @ SLASH # as_str q))" if "relpath_ok q"
      using below_iff [OF assms(1)] that by blast
    then show ?thesis unfolding assms(2) strip_sub_Some_iff by blast
  qed
  then show ?thesis by (auto simp: set_map_filter)
qed

text \<open>A destructive command behind a global option with a value is not recognised.\<close>

lemma global_option_hides_verb:
  "warn_destructive_git_args [''reset'', ''--hard''] = Some ResetHard"
  "warn_destructive_git_args [''-c'', ''core.pager=cat'', ''reset'', ''--hard''] = None"
  by code_simp+

text \<open>With \<open>-c\<close>, \<open>show\<close> without a field hands only the first line of the entry to the clipboard.\<close>

lemma clip_first_line:
  assumes "cmd_show uni con st path None True (w, out) = (Inr n, (w', out'))"
  shows "w' = w \<and> (\<exists>pt. store_show st (RelPath path) w = Inr pt \<and> out' = out @ [Clip (takeWhile (\<lambda>c. c \<noteq> NL) pt), Stderr (clip_message DEFAULT_CLEAR_SECS)])"
  using assms by (auto simp: cmd_show_def cli_run show_output_def)

lemma cmd_insert_Inr:
  assumes "cmd_insert con st path force multiline (w, out) = (Inr n, (w', out'))"
  shows "n = 0 \<and> relpath_ok (RelPath path) \<and>
    (\<exists>pt. read_secret_from_stdin con multiline = (Inr pt :: ('ce, 'se, 've) cli_error + bytes) \<and> pt \<noteq> [] \<and>
      store_insert (st :: ('w, 'ce, 'se, 've) store) (RelPath path) pt force w = (Inr (), w') \<and>
      out' = out @ [Stderr ((if force then ''updated'' else ''added'') @ '' '' @ path)])"
  using assms unfolding cmd_insert_def by (auto simp: cli_run split: if_splits)

lemma cmd_rotate_Inr:
  assumes "cmd_generate rng con st path len no_symbols True force False (w, out) = (Inr n, (w', out'))"
  shows "relpath_ok (RelPath path) \<and>
    (\<exists>old. store_show st (RelPath path) w = Inr old \<and>
      (let pw = generate rng (unwrap_or DEFAULT_LENGTH len) (\<not> no_symbols) in
       store_insert st (RelPath path) (rotate_body pw old) True w = (Inr (), w') \<and>
       out' = out @ [Stdout (pw @ [NL]), Stderr (''rotated '' @ path)]))"
  using assms unfolding cmd_generate_def Let_def by (auto simp: cli_run)

lemma alphabet_plain: "c \<in> set (alphabet b) \<Longrightarrow> c \<noteq> NL \<and> c \<noteq> CR"
proof -
  have "list_all (\<lambda>c. c \<noteq> NL \<and> c \<noteq> CR) (alphabet True)" "list_all (\<lambda>c. c \<noteq> NL \<and> c \<noteq> CR) (alphabet False)" by code_simp+
  then show "c \<in> set (alphabet b) \<Longrightarrow> c \<noteq> NL \<and> c \<noteq> CR" by (cases b) (auto simp: list_all_iff)
qed

section \<open>Properties\<close>


text \<open>Rotating a password from the command line: when \<open>bypass generate --in-place\<close> succeeds, the line it
  prints is the generated password, the entry then parses to this password with exactly the fields it
  had before, and the blob of every other entry is as it was.\<close>

lemma rotation_from_terminal:
  assumes "lawful storage_fs blobs fs_ok st" "crypto_sound (crypto st) can_read" "fs_ok w" "entry_ok (RelPath path)"
    and "\<forall>k n. 0 < n \<longrightarrow> rng k n < n"
    and "cmd_generate rng con st path len no_symbols True force False (w, out) = (Inr n, (w', out'))"
    and "\<And>rs. resolve_for st (RelPath path) w = Inr rs \<Longrightarrow> can_read w' rs"
    and "st_read (storage st) w' (entry_to_blob (RelPath path)) = Inr r"
  shows "\<exists>pw old new. out' = out @ [Stdout (pw @ [NL]), Stderr (''rotated '' @ path)] \<and> length pw = unwrap_or DEFAULT_LENGTH len \<and>
    store_show st (RelPath path) w = Inr old \<and> store_show st (RelPath path) w' = Inr new \<and>
    e_password (parse_str uni new) = pw \<and> e_fields (parse_str uni new) = e_fields (parse_str uni old) \<and>
    (\<forall>q. q \<noteq> entry_to_blob (RelPath path) \<longrightarrow> blobs w' q = blobs w q)"
proof -
  let ?pw = "generate rng (unwrap_or DEFAULT_LENGTH len) (\<not> no_symbols)"
  obtain old where old: "store_show st (RelPath path) w = Inr old"
      "store_insert st (RelPath path) (rotate_body ?pw old) True w = (Inr (), w')"
      "out' = out @ [Stdout (?pw @ [NL]), Stderr (''rotated '' @ path)]"
    using cmd_rotate_Inr [OF assms(6)] by (auto simp: Let_def)
  have "NL \<notin> set ?pw" "CR \<notin> set ?pw"
    using generate_chars [OF assms(5)] alphabet_plain by blast+
  then have "e_password (parse_str uni (rotate_body ?pw old)) = ?pw"
      "e_fields (parse_str uni (rotate_body ?pw old)) = e_fields (parse_str uni old)"
    using rotation_keeps_fields [of ?pw uni old] by (simp_all add: strip_cr_id)
  then show ?thesis
    using old inserted_shows [OF assms(1-4) old(2) assms(7,8)] by fastforce
qed

text \<open>\<open>bypass ls <dir>\<close> shows exactly the subtree: on success it prints the tree of precisely the paths
  whose entry below the directory is in the store, whatever list of them is rendered, and changes nothing.\<close>

lemma ls_shows_subtree:
  assumes "lawful storage_fs blobs fs_ok st" "fs_ok w" "addr (RelPath dir)"
    and "cmd_ls st (Some dir) (w, out) = (Inr n, (w', out'))"
    and "set ds = {q. relpath_ok q \<and> blobs w (entry_to_blob (RelPath (dir @ SLASH # as_str q))) \<noteq> None}"
  shows "n = 0 \<and> w' = w \<and> out' = out @ [Stdout (tree_render ds (dir @ ''/''))]"
proof -
  obtain es where es: "store_list st (Some (RelPath dir)) w = Inr es" "relpath_ok (RelPath dir)"
      "n = 0" "w' = w" "out' = out @ [Stdout (tree_render (List.map_filter (strip_sub (RelPath dir)) es) (dir @ ''/''))]"
    using assms(4) by (auto simp: cmd_ls_def cli_run)
  have "set es = {e. relpath_ok e \<and> blobs w (entry_to_blob e) \<noteq> None \<and> under (Some (RelPath dir)) e}"
    using fs.list_set [OF assms(1,2) _ es(1)] assms(3) by (simp add: pre_addr_def)
  from map_filter_strip [OF es(2) this] have "set (List.map_filter (strip_sub (RelPath dir)) es) = set ds"
    by (simp add: assms(5))
  from listing_is_canonical [OF this] es(3-5) show ?thesis by simp
qed

section \<open>Examples\<close>

definition demo_pipe :: console where
  "demo_pipe = \<lparr>cn_is_tty = False, cn_stdin = Inr (''pw'' @ [NL]), cn_prompt = (\<lambda>_. Inl ''no terminal''),
     cn_stdout = (\<lambda>_. Inr ()), cn_clip = (\<lambda>_. Inl ''no display''), cn_debug = id\<rparr>"

lemma demo_pipe_simps:
  "\<not> cn_is_tty demo_pipe" "cn_stdin demo_pipe = Inr (''pw'' @ [NL])" "cn_stdout demo_pipe b = Inr ()"
  by (simp_all add: demo_pipe_def)

definition after_insert :: fs_world where
  "after_insert = snd (store_insert demo_store (RelPath ''web/new'') ''pw'' False demo)"

lemma demo_cmd_insert:
  "cmd_insert demo_pipe demo_store ''web/new'' False False (demo, []) = (Inr 0, (after_insert, [Stderr ''added web/new'']))"
proof -
  have ins: "store_insert demo_store (RelPath ''web/new'') ''pw'' False demo = (Inr (), after_insert)"
    unfolding after_insert_def by (rule run_eq) (rule demo_insert_run(1))
  have "valid_utf8 ''pw''" by code_simp
  then have "read_secret_from_stdin demo_pipe False = (Inr ''pw'' :: (unit, fs_error, unit) cli_error + bytes)"
    using read_line_pipe [of "''pw''" "[]"] strip_line_end_pipe [of "''pw''"] strip_cr_id [of "''pw''"]
    by (simp add: read_secret_from_stdin_def demo_pipe_simps)
  moreover have "parse_entry ''web/new'' = (Inr (RelPath ''web/new'') :: (unit, fs_error, unit) cli_error + relpath)" by code_simp
  ultimately show ?thesis by (simp add: cmd_insert_def on_store_def ins)
qed


lemma demo_a: "entry_to_blob (RelPath ''web/a'') = RelPath ''web/a.gpg''" "segments (RelPath ''web/a.gpg'') = [''web'', ''a.gpg'']"
    "resolve_for demo_store (RelPath ''web/a'') demo = Inr [KeyId ''K1'']" "tmp_name ''a.gpg'' 7 0 = ''a.gpg.tmp.7.0''"
    "store_show demo_store (RelPath ''web/a'') demo = Inr ''s1''"
  by code_simp+

definition after_rotate :: fs_world where
  "after_rotate = snd (store_insert demo_store (RelPath ''web/a'') ''AA'' True demo)"

lemma demo_rotate_run:
  "store_insert demo_store (RelPath ''web/a'') ''AA'' True demo = (Inr (), after_rotate)"
  "st_read storage_fs after_rotate (RelPath ''web/a.gpg'') = Inr (Some ''!AA'')"
proof -
  have "fst (store_insert demo_store (RelPath ''web/a'') ''AA'' True demo) = Inr ()"
    by (simp add: store_insert_def exists_unless_def demo_a fs_run cong: run_weak)
  then show "store_insert demo_store (RelPath ''web/a'') ''AA'' True demo = (Inr (), after_rotate)"
    unfolding after_rotate_def by (rule run_eq)
  show "st_read storage_fs after_rotate (RelPath ''web/a.gpg'') = Inr (Some ''!AA'')"
    unfolding after_rotate_def by (simp add: store_insert_def exists_unless_def demo_a fs_run cong: run_weak)
qed

lemma demo_cmd_rotate:
  "cmd_generate (\<lambda>_ _. 0) demo_pipe demo_store ''web/a'' (Some 2) True True False False (demo, []) =
     (Inr 0, (after_rotate, [Stdout (''AA'' @ [NL]), Stderr ''rotated web/a'']))"
proof -
  have "generate (\<lambda>_ _. 0) 2 False = ''AA''" "rotate_body ''AA'' ''s1'' = ''AA''" by code_simp+
  moreover have "parse_entry ''web/a'' = (Inr (RelPath ''web/a'') :: (unit, fs_error, unit) cli_error + relpath)" by code_simp
  ultimately show ?thesis
    by (simp add: cmd_generate_def look_def on_store_def demo_a demo_rotate_run unwrap_or_def Let_def)
qed

end
