(* ===== verification/Bulk_Writes.thy ===== *)
theory Bulk_Writes
  imports Store_Properties
begin

text \<open>
  Writing many entries with \<open>insert_no_commit\<close>, as restore and import do: what each call leaves, what a
  sequence of calls leaves, and what \<open>show\<close> says afterwards.
\<close>

context storage_laws
begin

lemma insert_no_commit_post:
  assumes "lawful S view ok st" "ok w" "entry_ok e"
  shows "eff_post (insert_no_commit st e pt w)
    (\<lambda>b w'. ok w' \<and> b = entry_to_blob e \<and>
       (\<exists>rs ct w1. resolve_for st e w = Inr rs \<and> cr_encrypt (crypto st) pt rs w = (Inr ct, w1) \<and>
          view w' = (view w)(entry_to_blob e \<mapsto> ct)))
    (\<lambda>err w'. ok w' \<and> (\<forall>q. \<not> scratch q \<and> q \<noteq> entry_to_blob e \<longrightarrow> view w' q = view w q))"
  using assms entry_ok_blob [OF assms(3)]
  unfolding insert_no_commit_def Let_def
  by (auto simp: post_simps lawful_storage intro!: post_intros)

end

text \<open>The blob of an entry is an encryption of a plaintext for recipients its path resolved to.\<close>

definition sealed :: "('w, 'ce, 'se, 've) store \<Rightarrow> (relpath \<Rightarrow> bytes option) \<Rightarrow> relpath \<times> bytes \<Rightarrow> bool" where
  "sealed st v x \<longleftrightarrow> (\<exists>ct rs w0 w1 w2. v (entry_to_blob (fst x)) = Some ct \<and>
     resolve_for st (fst x) w0 = Inr rs \<and> cr_encrypt (crypto st) (snd x) rs w1 = (Inr ct, w2))"

definition blobs_of :: "(relpath \<times> bytes) list \<Rightarrow> relpath set" where
  "blobs_of xs = (\<lambda>x. entry_to_blob (fst x)) ` set xs"

fun written_in_turn :: "('w, 'ce, 'se, 've) store \<Rightarrow> (relpath \<times> bytes) list \<Rightarrow> 'w \<Rightarrow> 'w \<Rightarrow> bool" where
  "written_in_turn st [] w w' \<longleftrightarrow> w' = w"
| "written_in_turn st (x # xs) w w' \<longleftrightarrow>
     (\<exists>b w1. insert_no_commit st (fst x) (snd x) w = (Inr b, w1) \<and> written_in_turn st xs w1 w')"

context storage_laws
begin

text \<open>At the end each entry has a blob made of its plaintext, and no other blob has changed.\<close>

lemma written_in_turn_post:
  assumes "lawful S view ok st" "ok w" "\<forall>x \<in> set xs. entry_ok (fst x)"
    and "\<forall>x \<in> set xs. \<forall>y \<in> set xs. fst x = fst y \<longrightarrow> x = y" "written_in_turn st xs w w'"
  shows "ok w' \<and> (\<forall>q. q \<notin> blobs_of xs \<longrightarrow> view w' q = view w q) \<and> (\<forall>x \<in> set xs. sealed st (view w') x)"
  using assms(2-)
proof (induction xs arbitrary: w)
  case (Cons x xs)
  have eok: "entry_ok (fst x)" using Cons.prems(2) by simp
  obtain b w1 where ins: "insert_no_commit st (fst x) (snd x) w = (Inr b, w1)" "written_in_turn st xs w1 w'"
    using Cons.prems(4) by auto
  from eff_postD [OF insert_no_commit_post [OF assms(1) Cons.prems(1) eok] ins(1)]
  obtain rs ct u where i: "ok w1" "resolve_for st (fst x) w = Inr rs" "cr_encrypt (crypto st) (snd x) rs w = (Inr ct, u)"
      "view w1 = (view w)(entry_to_blob (fst x) \<mapsto> ct)" by blast
  have ih: "ok w'" "\<And>q. q \<notin> blobs_of xs \<Longrightarrow> view w' q = view w1 q" "\<And>y. y \<in> set xs \<Longrightarrow> sealed st (view w') y"
    using Cons.IH [OF i(1) _ _ ins(2)] Cons.prems(2,3) by auto
  have "sealed st (view w') x"
  proof (cases "x \<in> set xs")
    case False
    have "entry_to_blob (fst x) \<noteq> entry_to_blob (fst y)" if y: "y \<in> set xs" for y
    proof -
      have "relpath_ok (fst x)" "relpath_ok (fst y)" using Cons.prems(2) y by (simp_all add: entry_ok_def)
      moreover have "fst x \<noteq> fst y" using Cons.prems(3) y False by auto
      ultimately show ?thesis by (simp add: blob_inj)
    qed
    then have "entry_to_blob (fst x) \<notin> blobs_of xs" unfolding blobs_of_def by blast
    then have "view w' (entry_to_blob (fst x)) = Some ct" using ih(2) i(4) by simp
    with i(2,3) show ?thesis unfolding sealed_def by blast
  qed (rule ih(3))
  with ih i(4) show ?case by (auto simp: blobs_of_def)
qed (simp add: blobs_of_def)

text \<open>Without distinct paths: only the blobs of the sequence change.\<close>

lemma written_in_turn_frame:
  assumes "lawful S view ok st" "ok w" "\<forall>x \<in> set xs. entry_ok (fst x)" "written_in_turn st xs w w'"
  shows "ok w' \<and> (\<forall>q. q \<notin> blobs_of xs \<longrightarrow> view w' q = view w q)"
  using assms(2-)
proof (induction xs arbitrary: w)
  case (Cons x xs)
  obtain b w1 where ins: "insert_no_commit st (fst x) (snd x) w = (Inr b, w1)" "written_in_turn st xs w1 w'"
    using Cons.prems(3) by auto
  from eff_postD [OF insert_no_commit_post [OF assms(1) Cons.prems(1)] ins(1)] Cons.prems(2)
  obtain ct where "ok w1" "view w1 = (view w)(entry_to_blob (fst x) \<mapsto> ct)" by auto
  with Cons.IH [OF _ _ ins(2)] Cons.prems(2) show ?case by (auto simp: blobs_of_def)
qed (simp add: blobs_of_def)

end

lemma sealed_shows:
  assumes "lawful storage_fs blobs fs_ok st" "fs_ok w" "entry_ok (fst x)" "sealed st (blobs w) x" "crypto_sound (crypto st) can_read"
    and "\<And>rs w0. resolve_for st (fst x) w0 = Inr rs \<Longrightarrow> can_read w rs" "st_read storage_fs w (entry_to_blob (fst x)) = Inr r"
  shows "store_show st (fst x) w = Inr (snd x)"
proof -
  obtain ct rs w0 w1 w2 where h: "blobs w (entry_to_blob (fst x)) = Some ct" "resolve_for st (fst x) w0 = Inr rs"
      "cr_encrypt (crypto st) (snd x) rs w1 = (Inr ct, w2)" using assms(4) unfolding sealed_def by blast
  have sto: "storage st = storage_fs" using assms(1) by (simp add: lawful_def)
  have "st_read (storage st) w (entry_to_blob (fst x)) = Inr (Some ct)"
    using fs.read_step [OF assms(1,2) entry_ok_blob [OF assms(3)]] assms(7) h(1) sto by auto
  moreover have "cr_decrypt (crypto st) w ct = Inr (snd x)"
    using assms(5,6) h(2,3) unfolding crypto_sound_def by blast
  ultimately show ?thesis by (simp add: store_show_def)
qed

section \<open>Example\<close>

text \<open>One entry written into an initialised empty store.\<close>

definition target :: fs_world where
  "target = demo_world [([], Dir), ([''.gpg-id''], File (''K2'' @ [NL]))]"

definition stored :: "bytes \<Rightarrow> fs_world" where
  "stored pt = snd (insert_no_commit demo_store (RelPath ''a'') pt target)"

lemma demo_insert:
  "insert_no_commit demo_store (RelPath ''a'') pt target = (Inr (RelPath ''a.gpg''), stored pt)"
  "st_read storage_fs (stored pt) (RelPath ''a.gpg'') = Inr (Some (CHR ''!'' # pt))"
  "st_read storage_fs (stored pt) (RelPath ''.gpg-id'') = Inr (Some (''K2'' @ [NL]))"
proof -
  have t: "tree target = [([], Dir), ([''.gpg-id''], File (''K2'' @ [NL]))]" "no_stat target = (\<lambda>_. False)" "no_read target = (\<lambda>_. False)"
    "faults target = (\<lambda>_. None)" "tick target = 0" "pid target = 7" "nanos target = (\<lambda>n. n)"
    by (simp_all add: target_def demo_world_def)
  have p: "entry_to_blob (RelPath ''a'') = RelPath ''a.gpg''" "segments (RelPath ''a.gpg'') = [''a.gpg'']" "segments (RelPath ''.gpg-id'') = [''.gpg-id'']"
    "resolve_for demo_store (RelPath ''a'') target = Inr [KeyId ''K2'']" "tmp_name ''a.gpg'' 7 0 = ''a.gpg.tmp.7.0''"
    by code_simp+
  have "fst (insert_no_commit demo_store (RelPath ''a'') pt target) = Inr (RelPath ''a.gpg'')"
    by (simp add: insert_no_commit_def p t fs_storage_remove_def fs_run cong: run_weak)
  then show "insert_no_commit demo_store (RelPath ''a'') pt target = (Inr (RelPath ''a.gpg''), stored pt)"
    unfolding stored_def by (rule run_eq)
  show "st_read storage_fs (stored pt) (RelPath ''a.gpg'') = Inr (Some (CHR ''!'' # pt))"
    "st_read storage_fs (stored pt) (RelPath ''.gpg-id'') = Inr (Some (''K2'' @ [NL]))"
    by (simp_all add: stored_def insert_no_commit_def p t fs_storage_remove_def fs_run cong: run_weak)
qed

end
