(* ===== verification/Importing.thy ===== *)
theory Importing
  imports Rel_Path Entry_Format
begin

text \<open>
  The format-agnostic half of \<open>bypass import\<close> (\<open>bypass-core/src/import.rs\<close>): slugging of paths,
  suffixing of collisions within a batch, refusal of collisions with the store, and the rendering of
  an imported entry as a body.  A message of the lossiness report is the constructor of its format
  string with the arguments; \<open>expect\<close> on a path that is not valid is the error \<open>ImportPanic\<close>.
\<close>

section \<open>Data\<close>

record imported_entry =
  ie_folder :: "str list"
  ie_name :: str
  ie_password :: bytes
  ie_username :: "str option"
  ie_fields :: "(str \<times> str) list"
  ie_totp :: "str option"
  ie_notes :: "str option"
  ie_uris :: "str list"

datatype lossiness =
    CollisionSuffixed str
  | PasswordNotUtf8
  | PasswordNewlines
  | EmptyKeyDropped
  | FieldNewlines str
  | RowNamedByFolder nat
  | LinkedFieldsDropped nat
  | SecureNoteNoPassword
  | ItemTypeSkipped nat
  | ItemTypeUnknown nat
  | UntitledSkipped str
  | AttachmentsDropped nat

record lossiness_note =
  ln_entry :: str
  ln_message :: lossiness

type_synonym lossiness_report = "lossiness_note list"

definition report_push :: "str \<Rightarrow> lossiness \<Rightarrow> lossiness_report \<Rightarrow> lossiness_report" where
  "report_push e m report = report @ [\<lparr>ln_entry = e, ln_message = m\<rparr>]"

record prepared_entry =
  pre_path :: relpath
  pre_body :: bytes

datatype import_error = StoreCollision "str list" | UnnamedEntry nat | ImportPanic str

section \<open>Slugs\<close>

definition slug_char :: "str \<Rightarrow> str" where
  "slug_char c =
     (case c of
        [b] \<Rightarrow> (if is_ascii_alnum b then [to_ascii_lower b]
                else if b = CHR ''.'' \<or> b = CHR ''_'' \<or> b = DASH \<or> b = SLASH then [b]
                else if is_whitespace c then [DASH] else [])
      | _ \<Rightarrow> (if is_whitespace c then [DASH] else []))"

fun collapse_dashes :: "bool \<Rightarrow> str \<Rightarrow> str" where
  "collapse_dashes last_dash [] = []"
| "collapse_dashes last_dash (c # cs) =
     (if c = DASH then (if last_dash then collapse_dashes True cs else c # collapse_dashes True cs)
      else c # collapse_dashes False cs)"

definition trim_matches :: "char \<Rightarrow> str \<Rightarrow> str" where
  "trim_matches c s = rev (dropWhile (\<lambda>x. x = c) (rev (dropWhile (\<lambda>x. x = c) s)))"

definition slug_segment :: "str \<Rightarrow> str" where
  "slug_segment seg = trim_matches DASH (collapse_dashes False seg)"

definition slug_path :: "str \<Rightarrow> str" where
  "slug_path s =
     (let buf = concat (map slug_char (chars s)) in
      join_with ''/'' (filter (\<lambda>seg. seg \<noteq> []) (map slug_segment (split_char SLASH buf))))"

section \<open>Bodies\<close>

definition flatten_newlines :: "str \<Rightarrow> str" where
  "flatten_newlines s = replace_char CR [] (replace_char NL [BACKSLASH, CHR ''n''] s)"

definition push_kv :: "str \<Rightarrow> str \<Rightarrow> str \<Rightarrow> str \<times> lossiness_report \<Rightarrow> str \<times> lossiness_report" where
  "push_kv path key val st =
     (case st of (body, report) \<Rightarrow>
       (body @ key @ '': '' @ flatten_newlines val @ [NL],
        if NL \<in> set val then report_push path (FieldNewlines key) report else report))"

fun push_fields :: "str \<Rightarrow> (str \<times> str) list \<Rightarrow> str \<times> lossiness_report \<Rightarrow> str \<times> lossiness_report" where
  "push_fields path [] st = st"
| "push_fields path ((k, v) # kvs) st =
     push_fields path kvs
       (if trim k = [] then (fst st, report_push path EmptyKeyDropped (snd st))
        else push_kv path (trim k) v st)"

fun push_uris :: "str \<Rightarrow> nat \<Rightarrow> str list \<Rightarrow> str \<times> lossiness_report \<Rightarrow> str \<times> lossiness_report" where
  "push_uris path i [] st = st"
| "push_uris path i (uri # uris) st =
     push_uris path (i + 1) uris
       (push_kv path (if i = 0 then ''url'' else ''url-'' @ show_nat (i + 1)) uri st)"

text \<open>The first line: the password; then \<open>if let Some(v)\<close> for the optional fields, and the notes.\<close>

definition push_password :: "str \<Rightarrow> bytes \<Rightarrow> lossiness_report \<Rightarrow> str \<times> lossiness_report" where
  "push_password path pw report =
     (let password_str = from_utf8_lossy pw;
          report = (if replacement \<in> set (chars password_str) then report_push path PasswordNotUtf8 report else report);
          report = (if NL \<in> set password_str then report_push path PasswordNewlines report else report) in
      (flatten_newlines password_str @ [NL], report))"

definition push_opt :: "str \<Rightarrow> str \<Rightarrow> str option \<Rightarrow> str \<times> lossiness_report \<Rightarrow> str \<times> lossiness_report" where
  "push_opt path key x st = (case x of None \<Rightarrow> st | Some v \<Rightarrow> push_kv path key v st)"

definition push_notes :: "str option \<Rightarrow> str \<times> lossiness_report \<Rightarrow> str \<times> lossiness_report" where
  "push_notes x st =
     (case x of None \<Rightarrow> st
      | Some notes \<Rightarrow>
          (if notes = [] then st
           else (fst st @ [NL] @ notes @ (if last notes = NL then [] else [NL]), snd st)))"

definition serialise_body :: "imported_entry \<Rightarrow> str \<Rightarrow> lossiness_report \<Rightarrow> bytes \<times> lossiness_report" where
  "serialise_body e path report =
     (let st = push_password path (ie_password e) report;
          st = push_opt path ''login'' (ie_username e) st;
          st = push_fields path (ie_fields e) st;
          st = push_opt path ''otpauth'' (ie_totp e) st;
          st = push_uris path 0 (ie_uris e) st in
      push_notes (ie_notes e) st)"

section \<open>The batch\<close>

fun desired_paths :: "nat \<Rightarrow> imported_entry list \<Rightarrow> import_error + relpath list" where
  "desired_paths idx [] = Inr []"
| "desired_paths idx (e # es) =
     (let raw = join_with ''/'' (filter (\<lambda>s. s \<noteq> []) (ie_folder e @ [ie_name e]));
          slugged = slug_path raw in
      if slugged = [] then Inl (UnnamedEntry idx)
      else (case relpath_new slugged of
          Inl _ \<Rightarrow> Inl (ImportPanic slugged)
        | Inr path \<Rightarrow> and_then (desired_paths (idx + 1) es) (\<lambda>paths. Inr (path # paths))))"

text \<open>The occurrence counts are a \<open>u32\<close> per path: the model is for batches of fewer than \<open>2^32\<close> entries.\<close>

fun resolve_batch :: "(str \<Rightarrow> nat) \<Rightarrow> relpath list \<Rightarrow> lossiness_report \<Rightarrow> import_error + relpath list \<times> lossiness_report" where
  "resolve_batch counts [] report = Inr ([], report)"
| "resolve_batch counts (base # rest) report =
     (let n = counts (as_str base) + 1;
          counts = counts(as_str base := n) in
      if n = 1 then and_then (resolve_batch counts rest report) (\<lambda>(ps, report). Inr (base # ps, report))
      else
        (let suffixed = as_str base @ ''-'' @ show_nat n in
         case relpath_new suffixed of
           Inl _ \<Rightarrow> Inl (ImportPanic suffixed)
         | Inr resolved \<Rightarrow>
             and_then (resolve_batch counts rest (report_push (as_str resolved) (CollisionSuffixed (as_str base)) report))
               (\<lambda>(ps, report). Inr (resolved # ps, report))))"

definition store_collisions :: "relpath list \<Rightarrow> relpath list \<Rightarrow> str list" where
  "store_collisions existing paths =
     remdups_adj (sort (map as_str (filter (\<lambda>p. as_str p \<in> as_str ` set existing) paths)))"

fun serialise_all :: "(imported_entry \<times> relpath) list \<Rightarrow> lossiness_report \<Rightarrow> prepared_entry list \<times> lossiness_report" where
  "serialise_all [] report = ([], report)"
| "serialise_all ((e, path) # rest) report =
     (let (body, report) = serialise_body e (as_str path) report;
          (prepared, report) = serialise_all rest report in
      (\<lparr>pre_path = path, pre_body = body\<rparr> # prepared, report))"

definition prepare :: "imported_entry list \<Rightarrow> relpath list \<Rightarrow> import_error + prepared_entry list \<times> lossiness_report" where
  "prepare entries existing =
     and_then (desired_paths 0 entries) (\<lambda>desired.
     and_then (resolve_batch (\<lambda>_. 0) desired []) (\<lambda>(final_paths, report).
       let collisions = store_collisions existing final_paths in
       if collisions \<noteq> [] then Inl (StoreCollision collisions)
       else Inr (serialise_all (zip entries final_paths) report)))"

section \<open>Lemmas on slugs\<close>

definition slug_letter :: "char \<Rightarrow> bool" where
  "slug_letter c \<longleftrightarrow> is_ascii_lower c \<or> is_ascii_digit c \<or> c = CHR ''.'' \<or> c = CHR ''_'' \<or> c = DASH"

text \<open>A segment of a slug: not empty, of slug letters, no dash at either end and never two in a row.\<close>

definition slug_seg :: "str \<Rightarrow> bool" where
  "slug_seg s \<longleftrightarrow> s \<noteq> [] \<and> list_all slug_letter s \<and> hd s \<noteq> DASH \<and> last s \<noteq> DASH \<and> \<not> sublist [DASH, DASH] s"

lemma slug_letter_ascii: "slug_letter c \<Longrightarrow> byte c < 128 \<and> c \<noteq> SLASH"
  by (auto simp: slug_letter_def ascii_defs byte_def)

lemma slug_char_set: "c \<in> set (slug_char x) \<Longrightarrow> slug_letter c \<or> c = SLASH"
  by (auto simp: slug_char_def slug_letter_def ascii_defs byte_to_ascii_lower split: list.splits if_splits)

lemma slug_char_id: "slug_letter c \<or> c = SLASH \<Longrightarrow> slug_char [c] = [c]"
  by (auto simp: slug_char_def slug_letter_def to_ascii_lower_def ascii_defs byte_def)

lemma collapse_set: "set (collapse_dashes d s) \<subseteq> set s"
  by (induction d s rule: collapse_dashes.induct) auto

lemma collapse_hd: "collapse_dashes True s = [] \<or> hd (collapse_dashes True s) \<noteq> DASH"
  by (induction s) auto

lemma no_double_Cons: "\<not> sublist [DASH, DASH] (c # s) \<longleftrightarrow> \<not> sublist [DASH, DASH] s \<and> \<not> (c = DASH \<and> s \<noteq> [] \<and> hd s = DASH)"
  by (cases s) (auto simp: sublist_Cons_right)

lemma collapse_no_double: "\<not> sublist [DASH, DASH] (collapse_dashes d s)"
  using collapse_hd by (induction d s rule: collapse_dashes.induct) (auto simp: no_double_Cons)

lemma collapse_id: "\<not> sublist [DASH, DASH] s \<Longrightarrow> (d \<longrightarrow> s = [] \<or> hd s \<noteq> DASH) \<Longrightarrow> collapse_dashes d s = s"
  by (induction d s rule: collapse_dashes.induct) (auto simp: no_double_Cons)

lemma trim_matches_parts: "\<exists>a b. s = a @ trim_matches c s @ b"
proof -
  let ?d = "dropWhile (\<lambda>x. x = c) s"
  have "?d = trim_matches c s @ rev (takeWhile (\<lambda>x. x = c) (rev ?d))"
    unfolding trim_matches_def by (metis rev_append rev_rev_ident takeWhile_dropWhile_id)
  then show ?thesis by (metis takeWhile_dropWhile_id)
qed

lemma trim_matches_ends:
  assumes "trim_matches c s \<noteq> []"
  shows "hd (trim_matches c s) \<noteq> c \<and> last (trim_matches c s) \<noteq> c"
proof -
  let ?d = "dropWhile (\<lambda>x. x = c) s" and ?e = "dropWhile (\<lambda>x. x = c) (rev (dropWhile (\<lambda>x. x = c) s))"
  have "trim_matches c s = []" if "?d = []"
    unfolding trim_matches_def that by simp
  with assms have ne: "?d \<noteq> []" "?e \<noteq> []" by (blast, simp add: trim_matches_def)
  have "hd ?e \<noteq> c" using ne(2) hd_dropWhile by blast
  then have l: "last (trim_matches c s) \<noteq> c" by (simp add: trim_matches_def last_rev)
  obtain b where "?d = trim_matches c s @ b"
    unfolding trim_matches_def by (metis rev_append rev_rev_ident takeWhile_dropWhile_id)
  then have "hd ?d = hd (trim_matches c s)" using assms by (metis hd_append)
  moreover have "hd ?d \<noteq> c" using ne(1) hd_dropWhile by blast
  ultimately show ?thesis using l by simp
qed

lemma trim_matches_id: "s \<noteq> [] \<Longrightarrow> hd s \<noteq> c \<Longrightarrow> last s \<noteq> c \<Longrightarrow> trim_matches c s = s"
proof -
  assume h: "s \<noteq> []" "hd s \<noteq> c" "last s \<noteq> c"
  then have 1: "dropWhile (\<lambda>x. x = c) s = s" by (cases s) auto
  have "dropWhile (\<lambda>x. x = c) (rev s) = rev s" using h by (cases "rev s") (auto simp: hd_rev)
  with 1 show ?thesis by (simp add: trim_matches_def)
qed

lemma slug_segment_ok:
  assumes "list_all slug_letter s" "slug_segment s \<noteq> []"
  shows "slug_seg (slug_segment s)"
proof -
  obtain a b where ab: "collapse_dashes False s = a @ slug_segment s @ b"
    using trim_matches_parts [of "collapse_dashes False s" DASH] by (auto simp: slug_segment_def)
  then have "\<not> sublist [DASH, DASH] (slug_segment s)"
    using collapse_no_double [of False s] by (metis sublist_appendI sublist_order.order_trans)
  moreover have "set (slug_segment s) \<subseteq> set s"
    using arg_cong [OF ab, of set] collapse_set [of False s] by auto
  ultimately show ?thesis
    using assms trim_matches_ends [of DASH "collapse_dashes False s"]
    by (auto simp: slug_seg_def slug_segment_def list_all_iff)
qed

lemma slug_segment_id: "slug_seg s \<Longrightarrow> slug_segment s = s"
  by (simp add: slug_seg_def slug_segment_def collapse_id trim_matches_id)

lemma slug_path_form: "\<exists>segs. slug_path s = join_with ''/'' segs \<and> list_all slug_seg segs"
proof -
  let ?buf = "concat (map slug_char (chars s))"
  have l: "list_all slug_letter seg" if "seg \<in> set (split_char SLASH ?buf)" for seg
    using split_char_set [OF that] split_char_no_sep [OF that] slug_char_set
    by (fastforce simp: list_all_iff)
  then have "list_all slug_seg (filter (\<lambda>seg. seg \<noteq> []) (map slug_segment (split_char SLASH ?buf)))"
    by (auto simp: list_all_iff intro!: slug_segment_ok)
  then show ?thesis by (auto simp: slug_path_def)
qed

lemma slug_path_fixed:
  assumes "list_all slug_seg segs"
  shows "slug_path (join_with ''/'' segs) = join_with ''/'' segs"
proof (cases "segs = []")
  case True
  have "split_char SLASH [] = [[]]" "slug_segment [] = []" by (simp_all add: slug_segment_def trim_matches_def)
  with True show ?thesis by (simp add: slug_path_def)
next
  case False
  let ?s = "join_with ''/'' segs"
  have c: "slug_letter c \<or> c = SLASH" if "c \<in> set ?s" for c
    using that join_with_set [of "''/''" segs] assms by (auto simp: list_all_iff slug_seg_def)
  have "is_ascii_str ?s"
    using c slug_letter_ascii by (force simp: is_ascii_str_def list_all_iff byte_def)
  then have "concat (map slug_char (chars ?s)) = concat (map (\<lambda>c. slug_char [c]) ?s)"
    by (simp add: ascii_chars comp_def)
  also have "\<dots> = concat (map (\<lambda>c. [c]) ?s)"
    using c slug_char_id by (intro arg_cong [where f = concat] map_cong) auto
  finally have buf: "concat (map slug_char (chars ?s)) = ?s" by simp
  have "split_char SLASH ?s = segs"
    using False assms slug_letter_ascii by (intro split_join) (auto simp: list_all_iff slug_seg_def)
  moreover have "map slug_segment segs = segs"
    using assms by (intro map_idI) (auto simp: list_all_iff slug_segment_id)
  moreover have "filter (\<lambda>seg. seg \<noteq> []) segs = segs"
    using assms by (auto simp: list_all_iff slug_seg_def)
  ultimately show ?thesis by (simp add: slug_path_def buf)
qed

section \<open>Lemmas on batches\<close>

text \<open>A path with the number of its occurrence, as the batch names it.\<close>

definition numbered :: "relpath \<Rightarrow> nat \<Rightarrow> str" where
  "numbered b n = (if n = 1 then as_str b else as_str b @ ''-'' @ show_nat n)"

lemma suffix_inj: "a @ ''-'' @ show_nat m = b @ ''-'' @ show_nat n \<longleftrightarrow> a = b \<and> m = n"
proof
  assume h: "a @ ''-'' @ show_nat m = b @ ''-'' @ show_nat n"
  have d: "DASH \<notin> set (show_nat k)" for k
    using show_nat_digits [of DASH k] by (auto simp: is_ascii_digit_def byte_def)
  from h have "rsplit_once DASH (a @ ''-'' @ show_nat m) = Some (b, show_nat n)"
    by (simp add: rsplit_once_Some_iff d)
  then show "a = b \<and> m = n"
    using d show_nat_inj [of m n] by (auto simp: rsplit_once_Some_iff)
      (metis append_Cons append_Nil rsplit_once_Some_iff Pair_inject d option.inject)+
qed simp

text \<open>No path of the batch looks like the suffixed form of another.\<close>

definition suffix_free :: "relpath list \<Rightarrow> bool" where
  "suffix_free bs \<longleftrightarrow> (\<forall>a \<in> set bs. \<forall>b \<in> set bs. \<forall>n. as_str a \<noteq> as_str b @ ''-'' @ show_nat n)"

lemma numbered_inj:
  assumes "suffix_free bs" "a \<in> set bs" "b \<in> set bs"
  shows "numbered a m = numbered b n \<longleftrightarrow> a = b \<and> m = n"
proof -
  have 1: "as_str a = as_str b \<longleftrightarrow> a = b" by (auto intro: relpath.expand)
  have "as_str a \<noteq> as_str b @ ''-'' @ show_nat n" "as_str b \<noteq> as_str a @ ''-'' @ show_nat m"
    using assms by (auto simp only: suffix_free_def)
  then show ?thesis using suffix_inj [of "as_str a" m "as_str b" n] 1 unfolding numbered_def by metis
qed

lemma resolve_batch_paths:
  assumes "resolve_batch counts bs report = Inr (ps, report')"
  shows "length ps = length bs \<and> (\<forall>p \<in> set ps. \<exists>b \<in> set bs. \<exists>n. counts (as_str b) < n \<and> as_str p = numbered b n)"
  using assms
proof (induction bs arbitrary: counts report ps)
  case (Cons b bs)
  let ?n = "counts (as_str b) + 1" and ?c = "counts(as_str b := counts (as_str b) + 1)"
  from Cons.prems obtain q qs rep where q: "ps = q # qs" "as_str q = numbered b ?n" "resolve_batch ?c bs rep = Inr (qs, report')"
    by (auto simp: Let_def and_then_Inr_iff numbered_def relpath_new_Inr_iff split: if_splits sum.splits)
  have "\<exists>b' \<in> set (b # bs). \<exists>n. counts (as_str b') < n \<and> as_str p = numbered b' n" if "p \<in> set qs" for p
  proof -
    from Cons.IH [OF q(3)] that obtain b' n where n: "b' \<in> set bs" "?c (as_str b') < n" "as_str p = numbered b' n"
      by blast
    then have "counts (as_str b') < n" by (simp split: if_splits)
    with n show ?thesis by auto
  qed
  with q Cons.IH [OF q(3)] show ?case by (auto intro!: exI [of _ ?n])
qed simp

lemma resolve_batch_distinct:
  assumes "resolve_batch counts bs report = Inr (ps, report')" "suffix_free bs"
  shows "distinct ps"
  using assms
proof (induction bs arbitrary: counts report ps)
  case (Cons b bs)
  let ?n = "counts (as_str b) + 1" and ?c = "counts(as_str b := counts (as_str b) + 1)"
  from Cons.prems(1) obtain q qs rep where q: "ps = q # qs" "as_str q = numbered b ?n" "resolve_batch ?c bs rep = Inr (qs, report')"
    by (auto simp: Let_def and_then_Inr_iff numbered_def relpath_new_Inr_iff split: if_splits sum.splits)
  have "q \<notin> set qs"
  proof
    assume "q \<in> set qs"
    with resolve_batch_paths [OF q(3)] obtain b' n where n: "b' \<in> set bs" "?c (as_str b') < n" "as_str q = numbered b' n"
      by blast
    with q(2) numbered_inj [OF Cons.prems(2), of b b' ?n n] have "b' = b" "n = ?n" by auto
    with n(2) show False by simp
  qed
  moreover have "suffix_free bs" using Cons.prems(2) by (auto simp: suffix_free_def)
  ultimately show ?case using q Cons.IH by simp
qed simp

lemma desired_paths_length: "desired_paths i es = Inr ds \<Longrightarrow> length ds = length es"
  by (induction es arbitrary: i ds) (auto simp: Let_def and_then_Inr_iff split: if_splits sum.splits)

lemma serialise_all_paths: "length es = length ps \<Longrightarrow> map pre_path (fst (serialise_all (zip es ps) report)) = ps"
proof (induction es ps arbitrary: report rule: list_induct2)
  case (Cons e es p ps)
  obtain body rep where "serialise_body e (as_str p) report = (body, rep)" by (metis surj_pair)
  with Cons.IH [of rep] show ?case by (simp add: case_prod_unfold Let_def)
qed simp

lemma sorted_remdups_adj_distinct: "sorted (xs :: str list) \<Longrightarrow> distinct (remdups_adj xs)"
  by (induction xs rule: remdups_adj.induct) (auto simp: remdups_adj_set order.antisym)

lemma store_collisions_exact:
  "sorted (store_collisions existing ps) \<and> distinct (store_collisions existing ps) \<and>
   set (store_collisions existing ps) = as_str ` (set ps \<inter> set existing)"
proof -
  have "as_str p \<in> as_str ` set existing \<longleftrightarrow> p \<in> set existing" for p
    by (metis imageE image_eqI relpath.expand)
  then show ?thesis
    by (auto simp: store_collisions_def sorted_remdups_adj sorted_remdups_adj_distinct)
qed

lemma prepare_split:
  "prepare es existing = r \<longleftrightarrow>
     (case desired_paths 0 es of Inl e \<Rightarrow> r = Inl e
      | Inr ds \<Rightarrow> (case resolve_batch (\<lambda>_. 0) ds [] of Inl e \<Rightarrow> r = Inl e
         | Inr (ps, report) \<Rightarrow> r = (if store_collisions existing ps \<noteq> [] then Inl (StoreCollision (store_collisions existing ps))
             else Inr (serialise_all (zip es ps) report))))"
  by (auto simp: prepare_def split: sum.splits)

section \<open>Lemmas on bodies\<close>

text \<open>The fields an imported entry is rendered to, in order, when nothing has to be altered.\<close>

fun url_fields :: "nat \<Rightarrow> str list \<Rightarrow> (str \<times> str) list" where
  "url_fields i [] = []"
| "url_fields i (u # us) = (if i = 0 then ''url'' else ''url-'' @ show_nat (i + 1), u) # url_fields (i + 1) us"

definition opt_field :: "str \<Rightarrow> str option \<Rightarrow> (str \<times> str) list" where
  "opt_field k x = (case x of None \<Rightarrow> [] | Some v \<Rightarrow> [(k, v)])"

definition body_fields :: "imported_entry \<Rightarrow> (str \<times> str) list" where
  "body_fields e = opt_field ''login'' (ie_username e) @ ie_fields e @ opt_field ''otpauth'' (ie_totp e) @ url_fields 0 (ie_uris e)"

definition lines_of :: "(str \<times> str) list \<Rightarrow> str" where
  "lines_of kvs = concat (map (\<lambda>kv. field_line kv @ [NL]) kvs)"

lemma flatten_id: "NL \<notin> set s \<Longrightarrow> CR \<notin> set s \<Longrightarrow> flatten_newlines s = s"
  by (simp add: flatten_newlines_def replace_char_id)

lemma flatten_clean: "NL \<notin> set (flatten_newlines s)" "CR \<notin> set (flatten_newlines s)"
  using replace_char_set [of CR "[]" "replace_char NL [BACKSLASH, CHR ''n''] s"]
  by (auto simp: flatten_newlines_def)

lemma push_kv_ok: "field_ok (k, v) \<Longrightarrow> push_kv path k v (body, report) = (body @ field_line (k, v) @ [NL], report)"
  by (simp add: push_kv_def flatten_id field_ok_def field_line_def)

lemma push_fields_ok:
  "list_all field_ok kvs \<Longrightarrow> push_fields path kvs (body, report) = (body @ lines_of kvs, report)"
proof (induction kvs arbitrary: body)
  case (Cons kv kvs)
  obtain k v where kv: "kv = (k, v)" by (cases kv)
  with Cons.prems have "trim k = k" "k \<noteq> []" by (simp_all add: field_ok_def)
  with kv Cons show ?case by (simp add: push_kv_ok lines_of_def)
qed (simp add: lines_of_def)

lemma push_uris_ok:
  "list_all field_ok (url_fields i us) \<Longrightarrow> push_uris path i us (body, report) = (body @ lines_of (url_fields i us), report)"
  by (induction us arbitrary: i body) (simp_all add: push_kv_ok lines_of_def)

lemma push_opt_ok:
  "list_all field_ok (opt_field k x) \<Longrightarrow> push_opt path k x (body, report) = (body @ lines_of (opt_field k x), report)"
  by (cases x) (simp_all add: push_opt_def opt_field_def push_kv_ok lines_of_def)

definition grows :: "str \<times> 'a \<Rightarrow> str \<times> 'a \<Rightarrow> bool" where
  "grows st st' \<longleftrightarrow> prefix (fst st) (fst st')"

lemma grows_trans: "grows a b \<Longrightarrow> grows b c \<Longrightarrow> grows a c"
  by (auto simp: grows_def)

lemma push_kv_grows: "grows st (push_kv path k v st)"
  by (cases st) (simp add: push_kv_def grows_def)

lemma push_opt_grows: "grows st (push_opt path k x st)"
  using push_kv_grows by (cases x) (auto simp: push_opt_def grows_def)

lemma push_fields_grows: "grows st (push_fields path kvs st)"
proof (induction path kvs st rule: push_fields.induct)
  case (2 path k v kvs st)
  have "grows st (if trim k = [] then (fst st, report_push path EmptyKeyDropped (snd st)) else push_kv path (trim k) v st)"
    using push_kv_grows by (simp add: grows_def)
  then show ?case unfolding push_fields.simps by (rule grows_trans [OF _ 2])
qed (simp add: grows_def)

lemma push_uris_grows: "grows st (push_uris path i us st)"
proof (induction path i us st rule: push_uris.induct)
  case (2 path i uri uris st)
  then show ?case unfolding push_uris.simps by (rule grows_trans [OF push_kv_grows])
qed (simp add: grows_def)

lemma push_notes_grows: "grows st (push_notes x st)"
  by (auto simp: push_notes_def grows_def split: option.split)

text \<open>Whatever the entry holds, its body starts with the flattened password and a line end.\<close>

lemma serialise_body_first:
  "\<exists>r. fst (serialise_body e path report) = flatten_newlines (from_utf8_lossy (ie_password e)) @ NL # r"
proof -
  have "grows (push_password path (ie_password e) report) (serialise_body e path report)"
    unfolding serialise_body_def Let_def
    by (intro grows_trans [OF _ push_notes_grows] grows_trans [OF _ push_uris_grows] grows_trans [OF _ push_opt_grows]
        grows_trans [OF _ push_fields_grows] push_opt_grows)
  then show ?thesis by (auto simp: grows_def push_password_def Let_def prefix_def)
qed

section \<open>Where a batch can panic\<close>

lemma append_leaf_ok:
  assumes "relpath_ok p" "SLASH \<notin> set t" "\<And>s. seg_ok s \<Longrightarrow> seg_ok (s @ t)"
  shows "relpath_ok (RelPath (as_str p @ t))"
  using assms list_all_last [of seg_ok "segments p"]
  by (simp add: relpath_ok_def segments_def split_char_append_nosep)

lemma suffixed_ok: "relpath_ok b \<Longrightarrow> relpath_new (as_str b @ ''-'' @ show_nat n) = Inr (RelPath (as_str b @ ''-'' @ show_nat n))"
proof (intro relpath_new_ok append_leaf_ok)
  have d: "c \<notin> set (show_nat n)" if "\<not> is_ascii_digit c" for c
    using show_nat_digits [of c n] that by blast
  have n: "\<not> is_ascii_digit SLASH" "\<not> is_ascii_digit NUL" "\<not> is_ascii_digit BACKSLASH"
    by (simp_all add: is_ascii_digit_def byte_def)
  show "SLASH \<notin> set (''-'' @ show_nat n)" using d n by auto
  show "seg_ok (s @ ''-'' @ show_nat n)" if "seg_ok s" for s
    using that d n by (auto simp: seg_ok_def append_eq_Cons_conv)
qed

lemma slug_panics:
  assumes "relpath_new (slug_path s) = Inl e" "slug_path s \<noteq> []"
  shows "\<exists>seg \<in> set (split_char SLASH (slug_path s)). seg = ''.'' \<or> seg = ''..''"
proof -
  obtain segs where segs: "slug_path s = join_with ''/'' segs" "list_all slug_seg segs"
    using slug_path_form by blast
  from assms(2) segs have "segs \<noteq> []" by auto
  with segs have split: "split_char SLASH (slug_path s) = segs"
    using slug_letter_ascii by (auto simp: list_all_iff slug_seg_def intro!: split_join)
  have "\<not> relpath_ok (RelPath (slug_path s))"
    using assms(1) relpath_new_ok by fastforce
  then obtain seg where seg: "seg \<in> set segs" "\<not> seg_ok seg"
    by (auto simp: relpath_ok_def segments_def split list_all_iff)
  with segs(2) have "seg \<noteq> []" "list_all slug_letter seg" by (auto simp: slug_seg_def list_all_iff)
  moreover have "\<not> slug_letter SLASH" "\<not> slug_letter NUL" "\<not> slug_letter BACKSLASH"
    by (auto simp: slug_letter_def ascii_defs byte_def)
  ultimately have "seg = ''.'' \<or> seg = ''..''"
    using seg(2) by (auto simp: seg_ok_def list_all_iff)
  with seg(1) show ?thesis by (auto simp: split)
qed

lemma desired_paths_ok: "desired_paths i es = Inr ds \<Longrightarrow> list_all relpath_ok ds"
  by (induction es arbitrary: i ds) (auto simp: Let_def and_then_Inr_iff relpath_new_Inr_ok split: if_splits sum.splits)

lemma desired_paths_err:
  "desired_paths i es = Inl e \<Longrightarrow>
    (\<exists>k. e = UnnamedEntry k) \<or> (\<exists>s. e = ImportPanic s \<and> (\<exists>seg \<in> set (split_char SLASH s). seg = ''.'' \<or> seg = ''..''))"
proof (induction es arbitrary: i)
  case (Cons x es)
  let ?s = "slug_path (join_with ''/'' (filter (\<lambda>s. s \<noteq> []) (ie_folder x @ [ie_name x])))"
  show ?case
  proof (cases "?s = []")
    case True
    with Cons.prems show ?thesis by (auto simp: Let_def)
  next
    case False
    show ?thesis
    proof (cases "relpath_new ?s")
      case (Inl p)
      with False Cons.prems have "e = ImportPanic ?s" by (auto simp: Let_def)
      with slug_panics [OF Inl False] show ?thesis by blast
    next
      case (Inr p)
      with False Cons.prems have "desired_paths (i + 1) es = Inl e"
        by (cases "desired_paths (i + 1) es") (auto simp: Let_def)
      with Cons.IH show ?thesis by blast
    qed
  qed
qed simp

lemma resolve_batch_total: "list_all relpath_ok bs \<Longrightarrow> \<exists>r. resolve_batch counts bs report = Inr r"
proof (induction bs arbitrary: counts report)
  case (Cons b bs)
  have b: "relpath_ok b" using Cons.prems by simp
  let ?c = "counts(as_str b := counts (as_str b) + 1)"
  have IH: "\<exists>r. resolve_batch c bs rep = Inr r" for c rep using Cons by simp
  obtain r1 where r1: "resolve_batch ?c bs report = Inr r1" using IH by blast
  obtain r2 where r2: "resolve_batch ?c bs (report_push (as_str b @ ''-'' @ show_nat (counts (as_str b) + 1)) (CollisionSuffixed (as_str b)) report) = Inr r2"
    using IH by blast
  show ?case
    unfolding resolve_batch.simps Let_def suffixed_ok [OF b] sum.case relpath.sel r1 r2 by (simp add: case_prod_unfold)
qed simp

text \<open>What a prepared batch is made of: the paths of the batch, none of them in the store.\<close>

lemma prepare_Inr:
  assumes "prepare es existing = Inr (prepared, remarks)"
  shows "\<exists>ds report. desired_paths 0 es = Inr ds \<and> resolve_batch (\<lambda>_. 0) ds [] = Inr (map pre_path prepared, report) \<and>
    length prepared = length es \<and> pre_path ` set prepared \<inter> set existing = {}"
proof -
  obtain ds ps report where d: "desired_paths 0 es = Inr ds" "resolve_batch (\<lambda>_. 0) ds [] = Inr (ps, report)"
      "store_collisions existing ps = []" "(prepared, remarks) = serialise_all (zip es ps) report"
    using assms by (auto simp: prepare_def Let_def and_then_Inr_iff split: if_splits)
  have l: "length es = length ps" using resolve_batch_paths [OF d(2)] desired_paths_length [OF d(1)] by simp
  have m: "map pre_path prepared = ps" using serialise_all_paths [OF l, of report] by (simp add: d(4) [symmetric])
  have "set ps \<inter> set existing = {}" using store_collisions_exact [of existing ps] d(3) by simp
  moreover have "pre_path ` set prepared = set ps" "length prepared = length ps" using m by auto
  ultimately show ?thesis using d(1,2) m l by auto
qed

section \<open>Properties\<close>

text \<open>Imported paths: slugging gives \<open>/\<close>-joined segments that are not empty and made of \<open>[a-z0-9._-]\<close>,
  with no dash at an end and no two dashes in a row, and slugging such a path again changes nothing.\<close>

lemma slug_normal_form:
  "(\<exists>segs. slug_path s = join_with ''/'' segs \<and> list_all slug_seg segs) \<and> slug_path (slug_path s) = slug_path s"
  using slug_path_form [of s] slug_path_fixed by auto

text \<open>An import is atomic and loses nothing: when \<open>prepare\<close> succeeds there is one prepared entry per
  imported entry, in order, none at a path the store has, and no two at one path unless some name of
  the batch already looks like the suffixed form of another; when it reports a collision, the report is
  the sorted list, without repetitions, of all colliding paths; it can panic only on an entry whose
  slug has a segment \<open>.\<close> or \<open>..\<close>.\<close>

lemma prepare_atomic:
  assumes "prepare es existing = r"
  shows "case r of
      Inr (prepared, _) \<Rightarrow> length prepared = length es \<and> pre_path ` set prepared \<inter> set existing = {} \<and>
        (\<exists>ds. desired_paths 0 es = Inr ds \<and> (suffix_free ds \<longrightarrow> distinct (map pre_path prepared)))
    | Inl (StoreCollision cs) \<Rightarrow> (\<exists>ds ps report. desired_paths 0 es = Inr ds \<and> resolve_batch (\<lambda>_. 0) ds [] = Inr (ps, report) \<and>
        length ps = length es \<and> sorted cs \<and> distinct cs \<and> cs \<noteq> [] \<and> set cs = as_str ` (set ps \<inter> set existing))
    | Inl (UnnamedEntry _) \<Rightarrow> True
    | Inl (ImportPanic s) \<Rightarrow> \<exists>seg \<in> set (split_char SLASH s). seg = ''.'' \<or> seg = ''..''"
proof (cases "desired_paths 0 es")
  case (Inl e)
  with assms have "r = Inl e" by (simp add: prepare_def)
  with desired_paths_err [OF Inl] show ?thesis by auto
next
  case (Inr ds)
  obtain ps report where ps: "resolve_batch (\<lambda>_. 0) ds [] = Inr (ps, report)"
    using resolve_batch_total [OF desired_paths_ok [OF Inr]] by (metis surj_pair)
  have len: "length ps = length es" "length es = length ps"
    using resolve_batch_paths [OF ps] desired_paths_length [OF Inr] by simp_all
  note ex = store_collisions_exact [of existing ps]
  show ?thesis
  proof (cases "store_collisions existing ps = []")
    case False
    with assms Inr ps have "r = Inl (StoreCollision (store_collisions existing ps))" by (simp add: prepare_def Let_def)
    with Inr ps len ex False show ?thesis by auto
  next
    case True
    with assms Inr ps have r: "r = Inr (serialise_all (zip es ps) report)" by (simp add: prepare_def)
    moreover obtain prepared remarks where "serialise_all (zip es ps) report = (prepared, remarks)" by fastforce
    ultimately have r: "r = Inr (prepared, remarks)" by simp
    obtain ds' report' where "desired_paths 0 es = Inr ds'" "resolve_batch (\<lambda>_. 0) ds' [] = Inr (map pre_path prepared, report')"
        "length prepared = length es" "pre_path ` set prepared \<inter> set existing = {}"
      using prepare_Inr [OF assms [unfolded r]] by blast
    then show ?thesis using r resolve_batch_distinct by auto
  qed
qed

text \<open>What is imported is what is read back: the first line of a rendered body is the flattened password
  whatever the entry holds; and an entry whose parts are clean (no line ends, keys in the form the
  parser gives them, no notes) is rendered without a lossiness note to a body that parses back to its
  password and its login, fields, one-time-password URI and URLs, in this order.\<close>

lemma imported_body_roundtrip:
  assumes "from_utf8_lossy (ie_password e) = pw" "NL \<notin> set pw" "CR \<notin> set pw" "replacement \<notin> set (chars pw)"
    and "list_all field_ok (body_fields e)" "ie_notes e = None"
  shows "e_password (parse_str uni (fst (serialise_body e' path report))) = flatten_newlines (from_utf8_lossy (ie_password e')) \<and>
    parse_str uni (fst (serialise_body e path report)) = \<lparr>e_password = pw, e_fields = body_fields e\<rparr> \<and>
    snd (serialise_body e path report) = report"
proof (intro conjI)
  obtain r where "fst (serialise_body e' path report) = flatten_newlines (from_utf8_lossy (ie_password e')) @ NL # r"
    using serialise_body_first by blast
  then show "e_password (parse_str uni (fst (serialise_body e' path report))) = flatten_newlines (from_utf8_lossy (ie_password e'))"
    by (simp add: parse_str_cons flatten_clean strip_cr_id)
next
  have pw: "push_password path (ie_password e) report = (pw @ [NL], report)"
    using assms(1-4) by (simp add: push_password_def flatten_id)
  have ok: "list_all field_ok (opt_field ''login'' (ie_username e))" "list_all field_ok (ie_fields e)"
    "list_all field_ok (opt_field ''otpauth'' (ie_totp e))" "list_all field_ok (url_fields 0 (ie_uris e))"
    using assms(5) by (simp_all add: body_fields_def)
  have s: "serialise_body e path report = (pw @ NL # lines_of (body_fields e), report)"
    unfolding serialise_body_def Let_def pw push_opt_ok [OF ok(1)] push_fields_ok [OF ok(2)] push_opt_ok [OF ok(3)] push_uris_ok [OF ok(4)]
    by (simp add: push_notes_def assms(6) body_fields_def lines_of_def)
  show "snd (serialise_body e path report) = report" by (simp add: s)
  show "parse_str uni (fst (serialise_body e path report)) = \<lparr>e_password = pw, e_fields = body_fields e\<rparr>"
    using assms(2,3,5) parse_field_lines [of "body_fields e" uni "[]"]
    by (simp add: s lines_of_def parse_str_cons strip_cr_id)
qed

section \<open>Examples\<close>

definition imported :: "str list \<Rightarrow> str \<Rightarrow> str \<Rightarrow> imported_entry" where
  "imported folder name pw = \<lparr>ie_folder = folder, ie_name = name, ie_password = pw, ie_username = Some ''alice'', ie_fields = [(''pin'', ''12'')],
     ie_totp = None, ie_notes = None, ie_uris = [''https://a'', ''https://b'']\<rparr>"

text \<open>Two names that slug alike are told apart by a suffix, but a third one that spells the suffix is not;
  a name that slugs to \<open>..\<close> panics.\<close>

lemma batch_clash:
  "desired_paths 0 [imported [] ''A'' ''x'', imported [] ''a'' ''y'', imported [] ''a-2'' ''z''] = Inr [RelPath ''a'', RelPath ''a'', RelPath ''a-2'']"
  "resolve_batch (\<lambda>_. 0) [RelPath ''a'', RelPath ''a'', RelPath ''a-2''] [] =
     Inr ([RelPath ''a'', RelPath ''a-2'', RelPath ''a-2''], [\<lparr>ln_entry = ''a-2'', ln_message = CollisionSuffixed ''a''\<rparr>])"
proof -
  show "desired_paths 0 [imported [] ''A'' ''x'', imported [] ''a'' ''y'', imported [] ''a-2'' ''z''] = Inr [RelPath ''a'', RelPath ''a'', RelPath ''a-2'']"
    by code_simp
  have "relpath_new ''a-2'' = Inr (RelPath ''a-2'')" "show_nat 2 = ''2''" by code_simp+
  then show "resolve_batch (\<lambda>_. 0) [RelPath ''a'', RelPath ''a'', RelPath ''a-2''] [] =
     Inr ([RelPath ''a'', RelPath ''a-2'', RelPath ''a-2''], [\<lparr>ln_entry = ''a-2'', ln_message = CollisionSuffixed ''a''\<rparr>])"
    by (simp add: Let_def report_push_def numeral_2_eq_2)
qed

lemma dotdot_panics: "desired_paths 0 [imported [''..''] ''x'' ''pw''] = Inl (ImportPanic ''../x'')"
  by code_simp

lemma collision_run: "prepare [imported [''Web''] ''Site'' ''x'', imported [] ''b'' ''y''] [RelPath ''web/site''] = Inl (StoreCollision [''web/site''])"
proof -
  have "desired_paths 0 [imported [''Web''] ''Site'' ''x'', imported [] ''b'' ''y''] = Inr [RelPath ''web/site'', RelPath ''b'']"
    "store_collisions [RelPath ''web/site''] [RelPath ''web/site'', RelPath ''b''] = [''web/site'']"
    by code_simp+
  then show ?thesis by (simp add: prepare_def)
qed

end
