(* ===== verification/Import_Formats.thy ===== *)
theory Import_Formats
  imports Importing
begin

text \<open>
  The three first-party parsers behind \<open>bypass import\<close>: CSV with a declared schema
  (\<open>bypass-core/src/import/csv.rs\<close>), Bitwarden JSON (\<open>import/bitwarden.rs\<close>) and KeePass XML
  (\<open>import/keepass.rs\<close>).  The crates that split a CSV file into records, decode JSON and parse XML are
  parameters: a list of records or errors, an \<open>bw_export\<close>, a tree of nodes.
\<close>

section \<open>CSV\<close>

datatype csv_error =
    CsvEmptySchema
  | CsvParse str
  | CsvColumnCount nat nat nat  \<comment> \<open>row, columns it has, columns the schema has\<close>
  | CsvUnnamedRow nat
  | CsvMissingPassword nat
  | CsvSchemaMissingPassword

datatype role = RName | RFolder | RPassword | RUsername | RUrl | RTotp | RNotes | RSkip | RField str

definition role_of :: "str \<Rightarrow> role" where
  "role_of s =
     (let l = to_ascii_lowercase s in
      if l = ''name'' then RName
      else if l = ''folder'' then RFolder
      else if l = ''password'' then RPassword
      else if l = ''username'' \<or> l = ''login'' then RUsername
      else if l = ''url'' \<or> l = ''uri'' then RUrl
      else if l = ''totp'' \<or> l = ''otpauth'' then RTotp
      else if l = ''notes'' \<or> l = ''note'' then RNotes
      else if l = [] \<or> l = ''-'' \<or> l = ''_'' \<or> l = ''skip'' then RSkip
      else RField s)"

definition csv_schema_parse :: "str \<Rightarrow> csv_error + role list" where
  "csv_schema_parse spec =
     (let roles = map (\<lambda>s. role_of (trim s)) (split_char (CHR '','') spec) in
      if roles = [] then Inl CsvEmptySchema
      else if \<not> list_ex (\<lambda>r. r = RPassword) roles then Inl CsvSchemaMissingPassword
      else Inr roles)"

record csv_row =
  cr_name :: str
  cr_folder :: "str list"
  cr_password :: "str option"
  cr_username :: "str option"
  cr_uris :: "str list"
  cr_totp :: "str option"
  cr_notes :: "str option"
  cr_fields :: "(str \<times> str) list"

definition empty_row :: csv_row where
  "empty_row = \<lparr>cr_name = [], cr_folder = [], cr_password = None, cr_username = None, cr_uris = [], cr_totp = None,
     cr_notes = None, cr_fields = []\<rparr>"

definition csv_cell :: "role \<Rightarrow> str \<Rightarrow> csv_row \<Rightarrow> csv_row" where
  "csv_cell role raw_value row =
     (let val = trim raw_value in
      if val = [] \<and> role \<noteq> RSkip then row
      else (case role of
          RName \<Rightarrow> row\<lparr>cr_name := val\<rparr>
        | RFolder \<Rightarrow> row\<lparr>cr_folder := filter (\<lambda>s. s \<noteq> []) (map trim (split_char SLASH val))\<rparr>
        | RPassword \<Rightarrow> row\<lparr>cr_password := Some val\<rparr>
        | RUsername \<Rightarrow> row\<lparr>cr_username := Some val\<rparr>
        | RUrl \<Rightarrow> row\<lparr>cr_uris := cr_uris row @ [val]\<rparr>
        | RTotp \<Rightarrow> row\<lparr>cr_totp := Some val\<rparr>
        | RNotes \<Rightarrow> row\<lparr>cr_notes := Some val\<rparr>
        | RField key \<Rightarrow> row\<lparr>cr_fields := cr_fields row @ [(key, val)]\<rparr>
        | RSkip \<Rightarrow> row))"

fun csv_cells :: "(role \<times> str) list \<Rightarrow> csv_row \<Rightarrow> csv_row" where
  "csv_cells [] row = row"
| "csv_cells ((role, raw_value) # cells) row = csv_cells cells (csv_cell role raw_value row)"

definition csv_build_entry ::
  "nat \<Rightarrow> role list \<Rightarrow> str list \<Rightarrow> lossiness_report \<Rightarrow> csv_error + imported_entry \<times> lossiness_report" where
  "csv_build_entry row schema rec report =
     (let r = csv_cells (zip schema rec) empty_row in
      if cr_name r = [] \<and> cr_folder r = [] then Inl (CsvUnnamedRow row)
      else
        (let (name, folder, report) =
           (if cr_name r = [] then
              (let last_seg = last (cr_folder r); folder = butlast (cr_folder r) in
               (last_seg, folder, report_push (if folder = [] then last_seg else join_with ''/'' folder @ ''/'' @ last_seg)
                  (RowNamedByFolder row) report))
            else (cr_name r, cr_folder r, report)) in
         case cr_password r of None \<Rightarrow> Inl (CsvMissingPassword row)
         | Some pw \<Rightarrow>
             Inr (\<lparr>ie_folder = folder, ie_name = name, ie_password = pw, ie_username = cr_username r, ie_fields = cr_fields r,
               ie_totp = cr_totp r, ie_notes = cr_notes r, ie_uris = cr_uris r\<rparr>, report)))"

fun csv_rows ::
  "role list \<Rightarrow> bool \<Rightarrow> nat \<Rightarrow> (str + str list) list \<Rightarrow> lossiness_report \<Rightarrow> csv_error + imported_entry list \<times> lossiness_report" where
  "csv_rows schema has_header row_idx [] report = Inr ([], report)"
| "csv_rows schema has_header row_idx (r # rs) report =
     (let row = (if has_header then row_idx + 2 else row_idx + 1) in
      and_then (map_err CsvParse r) (\<lambda>rec.
      if length rec \<noteq> length schema then Inl (CsvColumnCount row (length rec) (length schema))
      else
        and_then (csv_build_entry row schema rec report) (\<lambda>(entry, report).
        and_then (csv_rows schema has_header (row_idx + 1) rs report) (\<lambda>(entries, report).
          Inr (entry # entries, report)))))"

text \<open>\<open>reader has_header\<close> is what the CSV reader delivers: the records after the header row, if any.\<close>

definition csv_parse :: "(bool \<Rightarrow> (str + str list) list) \<Rightarrow> role list \<Rightarrow> bool \<Rightarrow> csv_error + imported_entry list \<times> lossiness_report" where
  "csv_parse reader schema has_header = csv_rows schema has_header 0 (reader has_header) []"

section \<open>Bitwarden\<close>

datatype bitwarden_error = NotBitwarden | BwEncrypted | BwParse str

record bw_field =
  bf_name :: "str option"
  bf_value :: "str option"
  bf_type :: nat

record bw_login =
  bl_username :: "str option"
  bl_password :: "str option"
  bl_totp :: "str option"
  bl_uris :: "str option list"

record bw_item =
  bi_type :: nat
  bi_name :: "str option"
  bi_folder_id :: "str option"
  bi_notes :: "str option"
  bi_fields :: "bw_field list"
  bi_login :: "bw_login option"

record bw_export =
  bx_encrypted :: bool
  bx_folders :: "(str \<times> str) list"
  bx_items :: "bw_item list"

fun collect_fields :: "bw_field list \<Rightarrow> (str \<times> str) list \<times> nat" where
  "collect_fields [] = ([], 0)"
| "collect_fields (f # fs) =
     (let (out, dropped_linked) = collect_fields fs in
      if bf_type f = 3 then (out, dropped_linked + 1)
      else (case bf_name f of None \<Rightarrow> (out, dropped_linked)
        | Some name \<Rightarrow>
            (if trim name = [] then (out, dropped_linked)
             else ((name, unwrap_or [] (bf_value f)) # out, dropped_linked))))"

definition looks_like_bitwarden :: "bw_export \<Rightarrow> bool" where
  "looks_like_bitwarden x \<longleftrightarrow> bx_items x \<noteq> [] \<or> bx_folders x \<noteq> []"

definition nonempty :: "str option \<Rightarrow> str option" where
  "nonempty x = (case x of None \<Rightarrow> None | Some s \<Rightarrow> (if s = [] then None else Some s))"

definition bw_item_entry ::
  "(str \<rightharpoonup> str) \<Rightarrow> bw_item \<Rightarrow> imported_entry list \<times> lossiness_report \<Rightarrow> imported_entry list \<times> lossiness_report" where
  "bw_item_entry folder_names item st =
     (let (entries, report) = st;
          name = unwrap_or [] (bi_name item);
          folder = (case bi_folder_id item of None \<Rightarrow> []
            | Some i \<Rightarrow> (case folder_names i of None \<Rightarrow> [] | Some s \<Rightarrow> split_char SLASH s));
          entry_id = (if name \<noteq> [] then name else ''<unnamed>'') in
      if bi_type item = 1 then
        (let login = unwrap_or \<lparr>bl_username = None, bl_password = None, bl_totp = None, bl_uris = []\<rparr> (bi_login item);
             uris = filter (\<lambda>u. u \<noteq> []) (map the (filter (\<lambda>u. u \<noteq> None) (bl_uris login)));
             (fields, dropped_linked) = collect_fields (bi_fields item);
             report = (if 0 < dropped_linked then report_push entry_id (LinkedFieldsDropped dropped_linked) report else report) in
         (entries @ [\<lparr>ie_folder = folder, ie_name = name, ie_password = unwrap_or [] (bl_password login),
            ie_username = nonempty (bl_username login), ie_fields = fields, ie_totp = nonempty (bl_totp login),
            ie_notes = nonempty (bi_notes item), ie_uris = uris\<rparr>], report))
      else if bi_type item = 2 then
        (let (fields, dropped_linked) = collect_fields (bi_fields item);
             report = (if 0 < dropped_linked then report_push entry_id (LinkedFieldsDropped dropped_linked) report else report);
             report = report_push entry_id SecureNoteNoPassword report in
         (entries @ [\<lparr>ie_folder = folder, ie_name = name, ie_password = [], ie_username = None, ie_fields = fields,
            ie_totp = None, ie_notes = nonempty (bi_notes item), ie_uris = []\<rparr>], report))
      else if bi_type item = 3 \<or> bi_type item = 4 then
        (entries, report_push entry_id (ItemTypeSkipped (bi_type item)) report)
      else (entries, report_push entry_id (ItemTypeUnknown (bi_type item)) report))"

text \<open>Collecting pairs into a \<open>HashMap\<close> keeps the last value of a key.\<close>

definition bitwarden_parse :: "(bytes \<Rightarrow> str + bw_export) \<Rightarrow> bytes \<Rightarrow> bitwarden_error + imported_entry list \<times> lossiness_report" where
  "bitwarden_parse from_json b =
     and_then (map_err BwParse (from_json b)) (\<lambda>x.
     if bx_encrypted x then Inl BwEncrypted
     else if \<not> looks_like_bitwarden x then Inl NotBitwarden
     else
       (let folder_names = map_of (rev (bx_folders x)) in
        Inr (foldl (\<lambda>st item. bw_item_entry folder_names item st) ([], []) (bx_items x))))"

section \<open>KeePass\<close>

text \<open>A node of the XML tree; the tag is the one \<open>has_tag_name\<close> compares.\<close>

datatype xnode = XElem str "xnode list" | XText str | XOther

datatype keepass_error = KpParse str | NotKeepass | LooksLikeBinaryKdbx

fun is_elem :: "str \<Rightarrow> xnode \<Rightarrow> bool" where
  "is_elem tag (XElem t kids) = (t = tag)"
| "is_elem tag _ = False"

fun kids_of :: "xnode \<Rightarrow> xnode list" where
  "kids_of (XElem t kids) = kids"
| "kids_of _ = []"

text \<open>\<open>Node::text\<close> of an element: its first child, when that is text.\<close>

definition text_of_child :: "xnode list \<Rightarrow> str \<Rightarrow> str option" where
  "text_of_child kids tag =
     (case find (is_elem tag) kids of None \<Rightarrow> None
      | Some n \<Rightarrow> (case kids_of n of XText s # _ \<Rightarrow> Some s | _ \<Rightarrow> None))"

record kp_entry =
  ke_title :: str
  ke_username :: "str option"
  ke_password :: str
  ke_url :: "str option"
  ke_notes :: "str option"
  ke_totp :: "str option"
  ke_fields :: "(str \<times> str) list"
  ke_binaries :: nat

definition kp_string :: "str \<Rightarrow> str \<Rightarrow> kp_entry \<Rightarrow> kp_entry" where
  "kp_string key val e =
     (if key = ''Title'' then e\<lparr>ke_title := val\<rparr>
      else if key = ''UserName'' \<and> val \<noteq> [] then e\<lparr>ke_username := Some val\<rparr>
      else if key = ''Password'' then e\<lparr>ke_password := val\<rparr>
      else if key = ''URL'' \<and> val \<noteq> [] then e\<lparr>ke_url := Some val\<rparr>
      else if key = ''Notes'' \<and> val \<noteq> [] then e\<lparr>ke_notes := Some val\<rparr>
      else if (key = ''otp'' \<or> key = ''TOTP'' \<or> key = ''totp'') \<and> val \<noteq> [] then e\<lparr>ke_totp := Some val\<rparr>
      else if key \<noteq> [] \<and> val \<noteq> [] then e\<lparr>ke_fields := ke_fields e @ [(key, val)]\<rparr>
      else e)"

fun kp_children :: "xnode list \<Rightarrow> kp_entry \<Rightarrow> kp_entry" where
  "kp_children [] e = e"
| "kp_children (child # rest) e =
     kp_children rest
       (if is_elem ''String'' child then
          kp_string (unwrap_or [] (text_of_child (kids_of child) ''Key'')) (unwrap_or [] (text_of_child (kids_of child) ''Value'')) e
        else if is_elem ''Binary'' child then e\<lparr>ke_binaries := ke_binaries e + 1\<rparr>
        else e)"

type_synonym kp_state = "imported_entry list \<times> lossiness_report \<times> nat"

definition kp_build_entry :: "xnode list \<Rightarrow> str list \<Rightarrow> kp_state \<Rightarrow> kp_state" where
  "kp_build_entry kids folder st =
     (let (out, report, binary_total) = st;
          e = kp_children kids \<lparr>ke_title = [], ke_username = None, ke_password = [], ke_url = None, ke_notes = None,
                ke_totp = None, ke_fields = [], ke_binaries = 0\<rparr> in
      if ke_title e = [] then
        (out, report_push ''<untitled>'' (UntitledSkipped (if folder = [] then ''<root>'' else join_with ''/'' folder)) report, binary_total)
      else
        (out @ [\<lparr>ie_folder = folder, ie_name = ke_title e, ie_password = ke_password e, ie_username = ke_username e,
           ie_fields = ke_fields e, ie_totp = ke_totp e, ie_notes = ke_notes e,
           ie_uris = (case ke_url e of None \<Rightarrow> [] | Some u \<Rightarrow> [u])\<rparr>], report, binary_total + ke_binaries e))"

definition group_folder :: "xnode list \<Rightarrow> str list \<Rightarrow> bool \<Rightarrow> str list" where
  "group_folder kids folder_so_far drop_own_name =
     (let name = unwrap_or [] (text_of_child kids ''Name'') in
      if \<not> drop_own_name \<and> name \<noteq> [] then folder_so_far @ [name] else folder_so_far)"

text \<open>\<open>walk_group\<close> is \<open>walk_children\<close> on the group's children in the group's folder.\<close>

fun walk_child :: "xnode \<Rightarrow> str list \<Rightarrow> kp_state \<Rightarrow> kp_state"
  and walk_children :: "xnode list \<Rightarrow> str list \<Rightarrow> kp_state \<Rightarrow> kp_state" where
  "walk_child (XElem tag kids) folder st =
     (if tag = ''Entry'' then kp_build_entry kids folder st
      else if tag = ''Group'' then walk_children kids (group_folder kids folder False) st
      else st)"
| "walk_child (XText s) folder st = st"
| "walk_child XOther folder st = st"
| "walk_children [] folder st = st"
| "walk_children (child # rest) folder st = walk_children rest folder (walk_child child folder st)"

definition walk_group :: "xnode list \<Rightarrow> str list \<Rightarrow> bool \<Rightarrow> kp_state \<Rightarrow> kp_state" where
  "walk_group kids folder_so_far drop_own_name st = walk_children kids (group_folder kids folder_so_far drop_own_name) st"

definition keepass_parse :: "(str \<Rightarrow> str + xnode) \<Rightarrow> bytes \<Rightarrow> keepass_error + imported_entry list \<times> lossiness_report" where
  "keepass_parse parse_xml b =
     (if prefix [CHR 0x03, CHR 0xD9, CHR 0xA2, CHR 0x9A] b then Inl LooksLikeBinaryKdbx
      else (case from_utf8 b of None \<Rightarrow> Inl NotKeepass
        | Some text \<Rightarrow>
            and_then (map_err KpParse (parse_xml text)) (\<lambda>root.
            if \<not> is_elem ''KeePassFile'' root then Inl NotKeepass
            else (case find (is_elem ''Root'') (kids_of root) of None \<Rightarrow> Inl NotKeepass
              | Some root_section \<Rightarrow>
                  (let (entries, report, binary_total) =
                     foldl (\<lambda>st group. walk_group (kids_of group) [] True st) ([], [], 0)
                       (filter (is_elem ''Group'') (kids_of root_section)) in
                   Inr (entries, if 0 < binary_total then report_push [] (AttachmentsDropped binary_total) report else report))))))"

section \<open>Lemmas\<close>

definition row_ok :: "csv_row \<Rightarrow> bool" where
  "row_ok r \<longleftrightarrow> cr_password r \<noteq> Some [] \<and> [] \<notin> set (cr_folder r)"

lemma csv_cells_ok: "row_ok r \<Longrightarrow> row_ok (csv_cells cells r)"
  by (induction cells r rule: csv_cells.induct) (auto simp: csv_cell_def row_ok_def Let_def split: role.splits)

lemma csv_build_entry_ok:
  assumes "csv_build_entry row schema rec report = Inr (e, report')"
  shows "ie_name e \<noteq> [] \<and> ie_password e \<noteq> []"
proof -
  let ?r = "csv_cells (zip schema rec) empty_row"
  have ok: "row_ok ?r" by (rule csv_cells_ok) (simp add: row_ok_def empty_row_def)
  then have "cr_folder ?r \<noteq> [] \<Longrightarrow> last (cr_folder ?r) \<noteq> []"
    by (metis last_in_set row_ok_def)
  with assms ok show ?thesis
    by (auto simp: csv_build_entry_def Let_def row_ok_def split: if_splits option.splits)
qed

lemma csv_rows_ok:
  "csv_rows schema hh i rs report = Inr (entries, report') \<Longrightarrow>
     length entries = length rs \<and> list_all (\<lambda>r. \<exists>rec. r = Inr rec \<and> length rec = length schema) rs \<and>
     list_all (\<lambda>e. ie_name e \<noteq> [] \<and> ie_password e \<noteq> []) entries"
proof (induction rs arbitrary: i report entries)
  case (Cons r rs)
  from Cons.prems obtain rec e es rep where s: "r = Inr rec" "length rec = length schema"
      "csv_build_entry (if hh then i + 2 else i + 1) schema rec report = Inr (e, rep)"
      "csv_rows schema hh (i + 1) rs rep = Inr (es, report')" "entries = e # es"
    by (auto simp: Let_def and_then_Inr_iff split: if_splits)
  from Cons.IH [OF s(4)] csv_build_entry_ok [OF s(3)] s show ?case by simp
qed simp

lemma csv_build_entry_err:
  "csv_build_entry row schema rec report = Inl err \<Longrightarrow> err = CsvUnnamedRow row \<or> err = CsvMissingPassword row"
  by (auto simp: csv_build_entry_def Let_def split: if_splits option.splits)

lemma csv_rows_err:
  "csv_rows schema hh i rs report = Inl err \<Longrightarrow>
    \<exists>k < length rs. list_all (\<lambda>r. \<exists>rec. r = Inr rec \<and> length rec = length schema) (take k rs) \<and>
      (case rs ! k of Inl e \<Rightarrow> err = CsvParse e
       | Inr rec \<Rightarrow> (let row = i + k + (if hh then 2 else 1) in
           if length rec \<noteq> length schema then err = CsvColumnCount row (length rec) (length schema)
           else err = CsvUnnamedRow row \<or> err = CsvMissingPassword row))"
proof (induction rs arbitrary: i report)
  case (Cons r rs)
  let ?row = "if hh then i + 2 else i + 1"
  show ?case
  proof (cases "\<exists>rec e rep. r = Inr rec \<and> length rec = length schema \<and> csv_build_entry ?row schema rec report = Inr (e, rep)")
    case True
    then obtain rec e rep where s: "r = Inr rec" "length rec = length schema" "csv_build_entry ?row schema rec report = Inr (e, rep)"
      by blast
    with Cons.prems have "csv_rows schema hh (i + 1) rs rep = Inl err"
      by (cases "csv_rows schema hh (i + 1) rs rep") (auto simp: Let_def)
    from Cons.IH [OF this] obtain k where k: "k < length rs"
        "list_all (\<lambda>r. \<exists>rec. r = Inr rec \<and> length rec = length schema) (take k rs)"
        "case rs ! k of Inl e \<Rightarrow> err = CsvParse e
         | Inr rec \<Rightarrow> (let row = i + 1 + k + (if hh then 2 else 1) in
             if length rec \<noteq> length schema then err = CsvColumnCount row (length rec) (length schema)
             else err = CsvUnnamedRow row \<or> err = CsvMissingPassword row)"
      by blast
    with s(1,2) show ?thesis by (intro exI [of _ "Suc k"]) (cases "rs ! k"; cases hh; auto simp: Let_def)
  next
    case False
    have "case r of Inl e \<Rightarrow> err = CsvParse e
         | Inr rec \<Rightarrow> (if length rec \<noteq> length schema then err = CsvColumnCount ?row (length rec) (length schema)
             else err = CsvUnnamedRow ?row \<or> err = CsvMissingPassword ?row)"
    proof (cases r)
      case (Inr rec)
      show ?thesis
      proof (cases "length rec = length schema")
        case True
        with False Inr obtain x where x: "csv_build_entry ?row schema rec report = Inl x"
          by (cases "csv_build_entry ?row schema rec report") auto
        with Cons.prems Inr True have "err = x" by (simp add: Let_def)
        with csv_build_entry_err [OF x] Inr True show ?thesis by simp
      qed (use Cons.prems Inr in \<open>simp add: Let_def\<close>)
    qed (use Cons.prems in simp)
    then show ?thesis by (intro exI [of _ 0]) (auto simp: Let_def split: sum.splits)
  qed
qed simp

text \<open>Notes that stand for an item that became no entry.\<close>

fun is_skip :: "lossiness \<Rightarrow> bool" where
  "is_skip (ItemTypeSkipped _) = True"
| "is_skip (ItemTypeUnknown _) = True"
| "is_skip (UntitledSkipped _) = True"
| "is_skip _ = False"

definition skips :: "lossiness_report \<Rightarrow> nat" where
  "skips report = length (filter (\<lambda>n. is_skip (ln_message n)) report)"

lemma skips_push: "skips (report_push e m report) = skips report + (if is_skip m then 1 else 0)"
  by (simp add: skips_def report_push_def)

definition importable :: "bw_item \<Rightarrow> bool" where
  "importable item \<longleftrightarrow> bi_type item = 1 \<or> bi_type item = 2"

lemma bw_item_step:
  "bw_item_entry fn item (es, report) = (es', report') \<Longrightarrow>
     map ie_name es' = map ie_name es @ (if importable item then [unwrap_or [] (bi_name item)] else []) \<and>
     skips report' = skips report + (if importable item then 0 else 1)"
  by (auto simp: bw_item_entry_def Let_def skips_push importable_def split: if_splits prod.splits)

lemma bw_items:
  "foldl (\<lambda>st item. bw_item_entry fn item st) (es, report) items = (es', report') \<Longrightarrow>
     map ie_name es' = map ie_name es @ map (\<lambda>i. unwrap_or [] (bi_name i)) (filter importable items) \<and>
     skips report' = skips report + length (filter (\<lambda>i. \<not> importable i) items)"
proof (induction items arbitrary: es report)
  case (Cons item items)
  obtain es1 report1 where s: "bw_item_entry fn item (es, report) = (es1, report1)" by (metis surj_pair)
  with Cons.prems Cons.IH [of es1 report1] bw_item_step [OF s] show ?case by auto
qed simp

text \<open>All entries below a group, each with the folder it is in, in document order: the names of the groups around
  it, nameless groups left out.\<close>

fun entries_in :: "str list \<Rightarrow> xnode \<Rightarrow> (str list \<times> xnode list) list" where
  "entries_in folder (XElem tag kids) =
     (if tag = ''Entry'' then [(folder, kids)]
      else if tag = ''Group'' then
        concat (map (entries_in (folder @ filter (\<lambda>n. n \<noteq> []) [unwrap_or [] (text_of_child kids ''Name'')])) kids)
      else [])"
| "entries_in folder _ = []"

text \<open>The title of an entry: the value of its last \<open>String\<close> whose key is \<open>Title\<close>.\<close>

definition title_of :: "xnode list \<Rightarrow> str" where
  "title_of kids = last ([] # map (\<lambda>n. unwrap_or [] (text_of_child (kids_of n) ''Value''))
     (filter (\<lambda>n. is_elem ''String'' n \<and> text_of_child (kids_of n) ''Key'' = Some ''Title'') kids))"

lemma kp_string_title: "ke_title (kp_string key val e) = (if key = ''Title'' then val else ke_title e)"
  by (simp add: kp_string_def)

lemma unwrap_title: "unwrap_or [] x = ''Title'' \<longleftrightarrow> x = Some ''Title''"
  by (cases x) (simp_all add: unwrap_or_def)

lemma kp_children_title:
  "ke_title (kp_children kids e) = last (ke_title e # map (\<lambda>n. unwrap_or [] (text_of_child (kids_of n) ''Value''))
     (filter (\<lambda>n. is_elem ''String'' n \<and> text_of_child (kids_of n) ''Key'' = Some ''Title'') kids))"
  by (induction kids e rule: kp_children.induct) (simp_all add: kp_string_title unwrap_title)

lemma group_folder_names: "group_folder kids folder False = folder @ filter (\<lambda>n. n \<noteq> []) [unwrap_or [] (text_of_child kids ''Name'')]"
  by (simp add: group_folder_def Let_def)

definition kp_adds :: "(str list \<times> xnode list) list \<Rightarrow> kp_state \<Rightarrow> kp_state \<Rightarrow> bool" where
  "kp_adds l st st' \<longleftrightarrow>
     map (\<lambda>e. (ie_folder e, ie_name e)) (fst st') =
       map (\<lambda>e. (ie_folder e, ie_name e)) (fst st) @ map (\<lambda>(f, k). (f, title_of k)) (filter (\<lambda>(f, k). title_of k \<noteq> []) l) \<and>
     skips (fst (snd st')) = skips (fst (snd st)) + length (filter (\<lambda>(f, k). title_of k = []) l)"

lemma kp_adds_trans: "kp_adds k a b \<Longrightarrow> kp_adds l b c \<Longrightarrow> kp_adds (k @ l) a c"
  by (simp add: kp_adds_def)

lemma kp_adds_refl: "kp_adds [] a a"
  by (simp add: kp_adds_def)

lemma kp_build_adds: "kp_adds [(folder, kids)] st (kp_build_entry kids folder st)"
  by (cases st) (auto simp: kp_adds_def kp_build_entry_def Let_def title_of_def kp_children_title skips_push)

lemma walk_adds:
  "kp_adds (entries_in folder n) st (walk_child n folder st)"
  "kp_adds (concat (map (entries_in folder) ns)) st (walk_children ns folder st)"
proof (induction n folder st and ns folder st rule: walk_child_walk_children.induct)
  case (5 child rest folder st)
  then show ?case by (auto intro: kp_adds_trans)
qed (auto simp: kp_build_adds kp_adds_refl group_folder_names)

section \<open>Properties\<close>

text \<open>A CSV import takes every row or names the first bad one: on success there is one entry per record,
  every record has exactly the declared columns, and no entry has an empty name or password; on an
  error every record before the offending one had the declared width, and the error carries that
  record's line number, counting the header line when there is one.\<close>

lemma csv_all_or_first_bad_row:
  assumes "csv_parse reader schema has_header = r"
  shows "case r of
      Inr (entries, _) \<Rightarrow> length entries = length (reader has_header) \<and>
        list_all (\<lambda>x. \<exists>rec. x = Inr rec \<and> length rec = length schema) (reader has_header) \<and>
        list_all (\<lambda>e. ie_name e \<noteq> [] \<and> ie_password e \<noteq> []) entries
    | Inl err \<Rightarrow> \<exists>k < length (reader has_header).
        list_all (\<lambda>x. \<exists>rec. x = Inr rec \<and> length rec = length schema) (take k (reader has_header)) \<and>
        (case reader has_header ! k of Inl e \<Rightarrow> err = CsvParse e
         | Inr rec \<Rightarrow> (let row = k + (if has_header then 2 else 1) in
             if length rec \<noteq> length schema then err = CsvColumnCount row (length rec) (length schema)
             else err = CsvUnnamedRow row \<or> err = CsvMissingPassword row))"
proof (cases r)
  case (Inl err)
  with assms have "csv_rows schema has_header 0 (reader has_header) [] = Inl err" by (simp add: csv_parse_def)
  from csv_rows_err [OF this] show ?thesis unfolding Inl sum.case add_0_left .
next
  case (Inr x)
  with assms show ?thesis using csv_rows_ok [of schema has_header 0 "reader has_header" "[]"]
    by (cases x) (auto simp: csv_parse_def)
qed

definition demo_rows :: "bool \<Rightarrow> (str + str list) list" where
  "demo_rows hh = [Inr [''Web/'', '' s3 '', ''x''], Inr [''b'', '''', ''y'']]"

lemma demo_csv: "csv_parse demo_rows [RFolder, RPassword, RField ''pin''] True = Inl (CsvMissingPassword 3)"
  by code_simp


definition demo_bw :: bw_export where
  "demo_bw = \<lparr>bx_encrypted = False, bx_folders = [(''f1'', ''Web/Mail'')], bx_items =
     [\<lparr>bi_type = 1, bi_name = Some ''gmail'', bi_folder_id = Some ''f1'', bi_notes = None, bi_fields = [], bi_login = None\<rparr>,
      \<lparr>bi_type = 3, bi_name = Some ''visa'', bi_folder_id = None, bi_notes = None, bi_fields = [], bi_login = None\<rparr>]\<rparr>"

definition kp_str :: "str \<Rightarrow> str \<Rightarrow> xnode" where
  "kp_str k v = XElem ''String'' [XElem ''Key'' [XText k], XElem ''Value'' [XText v]]"

definition demo_kp :: xnode where
  "demo_kp = XElem ''KeePassFile'' [XElem ''Root'' [XElem ''Group'' [XElem ''Name'' [XText ''db''],
     XElem ''Group'' [XElem ''Name'' [XText ''Email''], XElem ''Entry'' [kp_str ''Title'' ''gmail'', kp_str ''Password'' ''s3''],
       XElem ''Entry'' [kp_str ''Password'' ''x'']]]]]"

lemma demo_foreign:
  "bitwarden_parse (\<lambda>_. Inr demo_bw) ''b'' = Inr
     ([\<lparr>ie_folder = [''Web'', ''Mail''], ie_name = ''gmail'', ie_password = [], ie_username = None, ie_fields = [], ie_totp = None,
        ie_notes = None, ie_uris = []\<rparr>], [\<lparr>ln_entry = ''visa'', ln_message = ItemTypeSkipped 3\<rparr>])"
  "keepass_parse (\<lambda>_. Inr demo_kp) ''b'' = Inr
     ([\<lparr>ie_folder = [''Email''], ie_name = ''gmail'', ie_password = ''s3'', ie_username = None, ie_fields = [], ie_totp = None,
        ie_notes = None, ie_uris = []\<rparr>], [\<lparr>ln_entry = ''<untitled>'', ln_message = UntitledSkipped ''Email''\<rparr>])"
  by code_simp+


end
