(* ===== verification/Extensions.thy ===== *)
theory Extensions
  imports Storage_Fs "HOL-Library.Word"
begin

text \<open>
  The environment of the process and the programs found through it: the default places of the store
  and the configuration (\<open>storage_fs.rs\<close>, \<open>sync/mod.rs\<close>, \<open>peers.rs\<close>, \<open>identity.rs\<close>), and
  the discovery and execution of extensions (\<open>bypass-cli/src/extensions.rs\<close>).  Native paths are strings.
\<close>

unbundle bit_operations_syntax

section \<open>The environment\<close>

record process_env =
  pv_var_os :: "str \<Rightarrow> bytes option"
  pv_home :: "str option"              \<comment> \<open>\<open>dirs::home_dir\<close>\<close>
  pv_exe :: "str + str"                \<comment> \<open>\<open>std::env::current_exe\<close>\<close>

text \<open>\<open>std::env::var\<close> fails on a value that is not UTF-8.\<close>

definition env_var :: "process_env \<Rightarrow> str \<Rightarrow> str option" where
  "env_var E n = (case pv_var_os E n of None \<Rightarrow> None | Some b \<Rightarrow> from_utf8 b)"

text \<open>\<open>Path::join\<close>: an absolute component replaces what is before it.\<close>

definition native_join :: "str \<Rightarrow> str \<Rightarrow> str" where
  "native_join d x =
     (if prefix ''/'' x \<or> d = [] then x
      else if suffix ''/'' d then d @ x
      else d @ ''/'' @ x)"

definition resolve_default_root :: "process_env \<Rightarrow> str option" where
  "resolve_default_root E =
     (case env_var E ''PASSWORD_STORE_DIR'' of
        Some p \<Rightarrow> (if p \<noteq> [] then Some p else map_option (\<lambda>h. native_join h ''.password-store'') (pv_home E))
      | None \<Rightarrow> map_option (\<lambda>h. native_join h ''.password-store'') (pv_home E))"

definition config_dir :: "process_env \<Rightarrow> str option" where
  "config_dir E =
     (case pv_var_os E ''XDG_CONFIG_HOME'' of
        Some xdg \<Rightarrow> (if xdg \<noteq> [] then Some (native_join xdg ''bypass'')
                    else map_option (\<lambda>h. native_join (native_join h ''.config'') ''bypass'') (pv_home E))
      | None \<Rightarrow> map_option (\<lambda>h. native_join (native_join h ''.config'') ''bypass'') (pv_home E))"

definition peers_default_path :: "process_env \<Rightarrow> str option" where
  "peers_default_path E = map_option (\<lambda>d. native_join d ''peers.toml'') (config_dir E)"

definition identity_default_path :: "process_env \<Rightarrow> str option" where
  "identity_default_path E = map_option (\<lambda>d. native_join d ''identity.key'') (config_dir E)"

section \<open>Extensions\<close>

text \<open>What the system answers: \<open>metadata\<close> (follows links) as whether it is a regular file and its mode,
  and a process run to its end as its exit code, \<open>None\<close> when a signal ended it.\<close>

record 'w ext_system =
  xs_metadata :: "str \<Rightarrow> (bool \<times> 32 word) option"
  xs_status :: "str \<Rightarrow> str list \<Rightarrow> (str \<times> str) list \<Rightarrow> ('w, str, int option) eff"

datatype ext_error =
    InvalidExtensionName str
  | NoStoreRootFound
  | ExtensionNotFound str "str list"
  | LocateSelf str
  | SpawnExtension str str

definition valid_ext_name :: "str \<Rightarrow> bool" where
  "valid_ext_name name \<longleftrightarrow> \<not> (name = [] \<or> CHR ''/'' \<in> set name \<or> BACKSLASH \<in> set name \<or> name = ''..'')"

definition candidate_paths :: "process_env \<Rightarrow> str \<Rightarrow> str \<Rightarrow> str list" where
  "candidate_paths E name store_root =
     [native_join (native_join store_root ''.extensions'') name]
     @ (case env_var E ''PASSWORD_STORE_EXTENSIONS_DIR'' of
          Some dir \<Rightarrow> (if dir \<noteq> [] then [native_join dir name] else [])
        | None \<Rightarrow> [])
     @ (case pv_home E of Some home \<Rightarrow> [native_join (native_join home ''.password-store-extensions'') name] | None \<Rightarrow> [])"

definition is_executable_file :: "(str \<Rightarrow> (bool \<times> 32 word) option) \<Rightarrow> str \<Rightarrow> bool" where
  "is_executable_file metadata p =
     (case metadata p of Some (is_file, mode) \<Rightarrow> is_file \<and> mode AND 0x49 \<noteq> 0 | None \<Rightarrow> False)"

definition exit_byte :: "int option \<Rightarrow> nat" where
  "exit_byte code = (let c = unwrap_or 1 code in if 0 \<le> c \<and> c < 256 then nat c else 1)"

definition dispatch_extension :: "'w ext_system \<Rightarrow> process_env \<Rightarrow> str \<Rightarrow> str list \<Rightarrow> ('w, ext_error, nat) eff" where
  "dispatch_extension X E name args w =
     (if \<not> valid_ext_name name then (Inl (InvalidExtensionName name), w)
      else case resolve_default_root E of
        None \<Rightarrow> (Inl NoStoreRootFound, w)
      | Some root \<Rightarrow>
          (let candidates = candidate_paths E name root in
           case find (is_executable_file (xs_metadata X)) candidates of
             None \<Rightarrow> (Inl (ExtensionNotFound name candidates), w)
           | Some exe \<Rightarrow>
               then_eff (map_err LocateSelf (pv_exe E), w) (\<lambda>bypass_bin w.
               then_eff (map_err_st (SpawnExtension exe)
                   (xs_status X exe args [(''PASSWORD_STORE_DIR'', root), (''PASSWORD_STORE_BIN'', bypass_bin)] w)) (\<lambda>status w.
                 (Inr (exit_byte status), w)))))"

section \<open>Lemmas\<close>

text \<open>A program is looked for in three directories only, under the name that was asked for.\<close>

definition ext_dirs :: "process_env \<Rightarrow> str \<Rightarrow> str list" where
  "ext_dirs E root =
     [native_join root ''.extensions''] @
     (case env_var E ''PASSWORD_STORE_EXTENSIONS_DIR'' of Some d \<Rightarrow> (if d \<noteq> [] then [d] else []) | None \<Rightarrow> []) @
     (case pv_home E of Some h \<Rightarrow> [native_join h ''.password-store-extensions''] | None \<Rightarrow> [])"

lemma candidates_are_dirs: "candidate_paths E name root = map (\<lambda>d. native_join d name) (ext_dirs E root)"
  by (auto simp: candidate_paths_def ext_dirs_def split: option.split)

lemma find_first: "find P xs = Some x \<Longrightarrow> \<exists>ys zs. xs = ys @ x # zs \<and> P x \<and> (\<forall>y \<in> set ys. \<not> P y)"
proof (induction xs)
  case (Cons a xs)
  show ?case
  proof (cases "P a")
    case True
    with Cons.prems have "a # xs = [] @ x # xs \<and> P x \<and> (\<forall>y \<in> set []. \<not> P y)" by simp
    then show ?thesis by blast
  next
    case False
    then obtain ys zs where "xs = ys @ x # zs" "P x" "\<forall>y \<in> set ys. \<not> P y" using Cons by auto
    with False have "a # xs = (a # ys) @ x # zs \<and> P x \<and> (\<forall>y \<in> set (a # ys). \<not> P y)" by simp
    then show ?thesis by blast
  qed
qed simp

lemma exit_byte_bound: "exit_byte c < 256"
  by (auto simp: exit_byte_def Let_def)

lemma native_join_name:
  assumes "valid_ext_name name"
  shows "\<exists>base. native_join d name = base @ name \<and> (base = [] \<or> last base = CHR ''/'')"
proof -
  have "\<not> prefix ''/'' name" using assms by (cases name) (auto simp: valid_ext_name_def)
  then show ?thesis by (auto simp: native_join_def suffix_def intro: exI [of _ d] exI [of _ "d @ ''/''"])
qed

text \<open>What \<open>dispatch\<close> runs is the first executable regular file of that name in the three directories.\<close>

lemma dispatch_runs_first:
  assumes "dispatch_extension X E name args w = (Inr code, w')"
  shows "\<exists>root exe bin before after status. resolve_default_root E = Some root \<and> pv_exe E = Inr bin \<and>
    map (\<lambda>d. native_join d name) (ext_dirs E root) = before @ exe # after \<and>
    is_executable_file (xs_metadata X) exe \<and> (\<forall>p \<in> set before. \<not> is_executable_file (xs_metadata X) p) \<and>
    xs_status X exe args [(''PASSWORD_STORE_DIR'', root), (''PASSWORD_STORE_BIN'', bin)] w = (Inr status, w') \<and> code = exit_byte status"
proof -
  obtain root exe where r: "valid_ext_name name" "resolve_default_root E = Some root"
      "find (is_executable_file (xs_metadata X)) (candidate_paths E name root) = Some exe"
    using assms by (auto simp: dispatch_extension_def Let_def split: if_splits option.splits)
  obtain before after where c: "candidate_paths E name root = before @ exe # after" "is_executable_file (xs_metadata X) exe"
      "\<forall>p \<in> set before. \<not> is_executable_file (xs_metadata X) p" using find_first [OF r(3)] by blast
  obtain bin where bin: "pv_exe E = Inr bin"
    using assms r by (auto simp: dispatch_extension_def then_eff_Inr_iff)
  obtain status where "xs_status X exe args [(''PASSWORD_STORE_DIR'', root), (''PASSWORD_STORE_BIN'', bin)] w = (Inr status, w')"
      "code = exit_byte status"
    using assms r bin by (auto simp: dispatch_extension_def then_eff_Inr_iff map_err_st_Inr_iff)
  with c r(2) bin show ?thesis unfolding candidates_are_dirs by blast
qed

end
