(* ===== verification/Import_Command.thy ===== *)
theory Import_Command
  imports Bulk_Writes Import_Formats Extensions
begin

text \<open>
  \<open>bypass import\<close> (\<open>bypass-cli/src/import.rs\<close>): entries from one of the three parsers or from an extension
  that prints one JSON record per line, mapped with \<open>prepare\<close> and written without commits, then one commit
  for all.  JSON, XML and the CSV reader are parameters; the extension is a process with an effect on the
  world, an output that may break off, and an exit code.  What is printed is a list of events.
\<close>

section \<open>The wire format of extensions\<close>

record wire_entry =
  we_folder :: "str list"
  we_name :: str
  we_password :: str
  we_username :: "str option"
  we_fields :: "(str \<times> str) list"
  we_totp :: "str option"
  we_notes :: "str option"
  we_uris :: "str list"

definition from_wire :: "wire_entry \<Rightarrow> imported_entry" where
  "from_wire w = \<lparr>ie_folder = we_folder w, ie_name = we_name w, ie_password = we_password w,
     ie_username = nonempty (we_username w), ie_fields = we_fields w, ie_totp = nonempty (we_totp w),
     ie_notes = nonempty (we_notes w), ie_uris = we_uris w\<rparr>"

datatype ndjson_error = NdjsonRead str | NdjsonLine nat str

text \<open>The lines of a stream, each with its line feed but perhaps the last.\<close>

fun ndjson_lines :: "(str \<Rightarrow> str + wire_entry) \<Rightarrow> nat \<Rightarrow> bytes list \<Rightarrow> ndjson_error + imported_entry list" where
  "ndjson_lines from_json lineno [] = Inr []"
| "ndjson_lines from_json lineno (l # ls) =
     (case from_utf8 l of
        None \<Rightarrow> Inl (NdjsonRead ''stream did not contain valid UTF-8'')
      | Some line \<Rightarrow>
          (let trimmed = trim line in
           if trimmed = [] then ndjson_lines from_json (lineno + 1) ls
           else
             and_then (map_err (NdjsonLine (lineno + 1)) (from_json trimmed)) (\<lambda>wire.
             and_then (ndjson_lines from_json (lineno + 1) ls) (\<lambda>entries. Inr (from_wire wire # entries)))))"

text \<open>A stream is its bytes and perhaps the error that ends it: a line it cuts short is not parsed.\<close>

definition read_ndjson_stream :: "(str \<Rightarrow> str + wire_entry) \<Rightarrow> bytes \<times> str option \<Rightarrow> ndjson_error + imported_entry list" where
  "read_ndjson_stream from_json src =
     (case src of
        (b, None) \<Rightarrow> ndjson_lines from_json 0 (split_inclusive NL b)
      | (b, Some e) \<Rightarrow>
          and_then (ndjson_lines from_json 0 (filter (suffix [NL]) (split_inclusive NL b))) (\<lambda>_. Inl (NdjsonRead e)))"

section \<open>Running an importer extension\<close>

record 'w importer_system =
  is_metadata :: "str \<Rightarrow> (bool \<times> 32 word) option"
  is_spawn :: "str \<Rightarrow> str \<Rightarrow> (str \<times> str) list \<Rightarrow> ('w, str, (bytes \<times> str option) \<times> (str + int option)) eff"

datatype importer_error =
    ImporterSetup ext_error
  | DecodeNdjson str ndjson_error
  | WaitImporter str
  | ImporterFailed str int

definition locate_importer :: "(str \<Rightarrow> (bool \<times> 32 word) option) \<Rightarrow> process_env \<Rightarrow> str \<Rightarrow> ext_error + str" where
  "locate_importer metadata E name =
     (case resolve_default_root E of
        None \<Rightarrow> Inl NoStoreRootFound
      | Some store_root \<Rightarrow>
          (let candidates = candidate_paths E (''bypass-import-'' @ name) store_root in
           case find (is_executable_file metadata) candidates of
             None \<Rightarrow> Inl (ExtensionNotFound name candidates)
           | Some exe \<Rightarrow> Inr exe))"

definition run_extension ::
  "'w importer_system \<Rightarrow> (str \<Rightarrow> str + wire_entry) \<Rightarrow> process_env \<Rightarrow> str \<Rightarrow> str \<Rightarrow> ('w, importer_error, imported_entry list) eff" where
  "run_extension X from_json E name source w =
     (if \<not> valid_ext_name name then (Inl (ImporterSetup (InvalidExtensionName name)), w)
      else
        then_eff (map_err ImporterSetup (locate_importer (is_metadata X) E name), w) (\<lambda>exe w.
        then_eff (case resolve_default_root E of None \<Rightarrow> Inl (ImporterSetup NoStoreRootFound) | Some r \<Rightarrow> Inr r, w) (\<lambda>store_root w.
        then_eff (map_err (ImporterSetup \<circ> LocateSelf) (pv_exe E), w) (\<lambda>bypass_bin w.
        then_eff (map_err_st (ImporterSetup \<circ> SpawnExtension exe)
            (is_spawn X exe source [(''PASSWORD_STORE_DIR'', store_root), (''PASSWORD_STORE_BIN'', bypass_bin)] w)) (\<lambda>child w.
        then_eff (map_err (DecodeNdjson exe) (read_ndjson_stream from_json (fst child)), w) (\<lambda>entries w.
        then_eff (map_err WaitImporter (snd child), w) (\<lambda>status w.
          if status \<noteq> Some 0 then (Inl (ImporterFailed name (unwrap_or (-1) status)), w)
          else (Inr entries, w))))))))"

section \<open>The command\<close>

datatype import_format = Bitwarden | Csv | Keepass

datatype gather_error =
    BothSources
  | NeitherSource
  | ReadSource str str
  | SchemaNotApplicable str
  | SchemaRequired
  | ParseBitwarden bitwarden_error
  | ParseSchema csv_error
  | ParseCsv csv_error
  | ParseKeepass keepass_error
  | InvokeImporter str importer_error

datatype ('ce, 'se, 've) import_cmd_error =
    GatherFailed gather_error
  | NothingImportable
  | ImportStore "('ce, 'se, 've) store_error"
  | CanonicalMapping import_error

text \<open>The crates the parsers use, and reading the source file.\<close>

record import_env =
  im_read :: "str \<Rightarrow> str + bytes"
  im_csv :: "bytes \<Rightarrow> bool \<Rightarrow> (str + str list) list"
  im_bitwarden :: "bytes \<Rightarrow> str + bw_export"
  im_xml :: "str \<Rightarrow> str + xnode"
  im_wire :: "str \<Rightarrow> str + wire_entry"

type_synonym gathered = "imported_entry list \<times> lossiness_report \<times> str"

definition parse_in_tree ::
  "import_env \<Rightarrow> import_format \<Rightarrow> bytes \<Rightarrow> str option \<Rightarrow> bool \<Rightarrow> gather_error + gathered" where
  "parse_in_tree L format b csv_schema csv_has_header =
     (case format of
        Bitwarden \<Rightarrow>
          if csv_schema \<noteq> None then Inl (SchemaNotApplicable ''--format=bitwarden'')
          else and_then (map_err ParseBitwarden (bitwarden_parse (im_bitwarden L) b)) (\<lambda>(e, r). Inr (e, r, ''Bitwarden''))
      | Csv \<Rightarrow>
          (case csv_schema of
             None \<Rightarrow> Inl SchemaRequired
           | Some schema_str \<Rightarrow>
               and_then (map_err ParseSchema (csv_schema_parse schema_str)) (\<lambda>schema.
               and_then (map_err ParseCsv (csv_parse (im_csv L b) schema csv_has_header)) (\<lambda>(e, r). Inr (e, r, ''CSV''))))
      | Keepass \<Rightarrow>
          if csv_schema \<noteq> None then Inl (SchemaNotApplicable ''--format=keepass'')
          else and_then (map_err ParseKeepass (keepass_parse (im_xml L) b)) (\<lambda>(e, r). Inr (e, r, ''KeePass'')))"

definition import_gather ::
  "import_env \<Rightarrow> 'w importer_system \<Rightarrow> process_env \<Rightarrow> import_format option \<Rightarrow> str option \<Rightarrow> str \<Rightarrow> str option \<Rightarrow> bool \<Rightarrow>
    ('w, gather_error, gathered) eff" where
  "import_gather L X E format from_ext source csv_schema csv_has_header w =
     (case (format, from_ext) of
        (Some _, Some _) \<Rightarrow> (Inl BothSources, w)
      | (None, None) \<Rightarrow> (Inl NeitherSource, w)
      | (Some fmt, None) \<Rightarrow>
          (and_then (map_err (ReadSource source) (im_read L source)) (\<lambda>b. parse_in_tree L fmt b csv_schema csv_has_header), w)
      | (None, Some ext_name) \<Rightarrow>
          if csv_schema \<noteq> None then (Inl (SchemaNotApplicable ''--from-ext''), w)
          else
            then_eff (map_err_st (InvokeImporter ext_name) (run_extension X (im_wire L) E ext_name source w)) (\<lambda>entries w.
              (Inr (entries, [], ''ext:'' @ ext_name), w)))"

datatype import_event = Imported nat str | Lossiness lossiness_report

definition emit_report :: "lossiness_report \<Rightarrow> import_event list \<Rightarrow> import_event list" where
  "emit_report report out = (if report = [] then out else out @ [Lossiness report])"

fun import_inserts ::
  "('w, 'ce, 'se, 've) store \<Rightarrow> prepared_entry list \<Rightarrow> relpath list \<Rightarrow> ('w, ('ce, 'se, 've) import_cmd_error, relpath list) eff" where
  "import_inserts st [] bs w = (Inr bs, w)"
| "import_inserts st (entry # rest) bs w =
     then_eff (map_err_st ImportStore (insert_no_commit st (pre_path entry) (pre_body entry) w)) (\<lambda>blob w.
       import_inserts st rest (bs @ [blob]) w)"

definition import_message :: "nat \<Rightarrow> str \<Rightarrow> str" where
  "import_message n label = ''bypass: Import '' @ show_nat n @ '' entries from '' @ label"

definition import_run ::
  "import_env \<Rightarrow> 'w importer_system \<Rightarrow> process_env \<Rightarrow> ('w, 'ce, 'se, 've) store \<Rightarrow> import_format option \<Rightarrow> str option \<Rightarrow> str \<Rightarrow>
    str option \<Rightarrow> bool \<Rightarrow> 'w \<Rightarrow> ((('ce, 'se, 've) import_cmd_error + nat) \<times> import_event list) \<times> 'w" where
  "import_run L X E st format from_ext source csv_schema csv_has_header w =
     (case import_gather L X E format from_ext source csv_schema csv_has_header w of
        (Inl e, w) \<Rightarrow> ((Inl (GatherFailed e), []), w)
      | (Inr (entries, report, label), w) \<Rightarrow>
          if entries = [] then ((Inl NothingImportable, emit_report report []), w)
          else (case store_list st None w of
            Inl e \<Rightarrow> ((Inl (ImportStore e), []), w)
          | Inr existing \<Rightarrow> (case prepare entries existing of
              Inl e \<Rightarrow> ((Inl (CanonicalMapping e), []), w)
            | Inr (prepared, mapping_report) \<Rightarrow> (case import_inserts st prepared [] w of
                (Inl e, w) \<Rightarrow> ((Inl e, []), w)
              | (Inr bs, w) \<Rightarrow>
                  (let n = length bs;
                       (r, w) = (if bs \<noteq> [] then map_err_st ImportStore (commit_changes st bs (import_message n label) w) else (Inr (), w)) in
                   case r of
                     Inl e \<Rightarrow> ((Inl e, []), w)
                   | Inr _ \<Rightarrow> ((Inr 0, emit_report (report @ mapping_report) [Imported n label]), w))))))"

section \<open>Lemmas\<close>

lemma import_inserts_Inr:
  "import_inserts st es bs w = (Inr bs', w') \<Longrightarrow>
     written_in_turn st (map (\<lambda>p. (pre_path p, pre_body p)) es) w w' \<and> length bs' = length bs + length es"
proof (induction es arbitrary: bs w)
  case (Cons e es)
  then obtain b w1 where "insert_no_commit st (pre_path e) (pre_body e) w = (Inr b, w1)" and
    step: "import_inserts st es (bs @ [b]) w1 = (Inr bs', w')"
    by (auto simp: then_eff_Inr_iff)
  then show ?case using Cons.IH [OF step] by auto
qed simp

text \<open>The paths \<open>prepare\<close> makes are well formed and ASCII.\<close>

lemma slug_path_ascii: "is_ascii_str (slug_path s)"
proof -
  obtain segs where "slug_path s = join_with ''/'' segs" "list_all slug_seg segs" using slug_path_form by blast
  moreover note join_with_set
  moreover have "byte c < 128" if "list_all slug_seg xs" "seg \<in> set xs" "c \<in> set seg" for xs seg c
    using that slug_letter_ascii by (auto simp: slug_seg_def list_all_iff)
  ultimately have "\<forall>c \<in> set (slug_path s). byte c < 128" by (fastforce simp: byte_def)
  then show ?thesis by (simp add: is_ascii_str_def list_all_iff)
qed

lemma desired_paths_ascii: "desired_paths i es = Inr ds \<Longrightarrow> p \<in> set ds \<Longrightarrow> is_ascii_str (as_str p)"
  by (induction es arbitrary: i ds)
    (auto simp: Let_def and_then_Inr_iff slug_path_ascii relpath_new_def split: if_splits sum.splits)

lemma resolve_batch_ok: "resolve_batch counts bs report = Inr (ps, report') \<Longrightarrow> list_all relpath_ok bs \<Longrightarrow> list_all relpath_ok ps"
  by (induction bs arbitrary: counts report ps)
    (auto simp: Let_def and_then_Inr_iff relpath_new_Inr_ok split: if_splits sum.splits)

lemma prepared_wf:
  assumes "prepare es existing = Inr (prepared, remarks)" "p \<in> set prepared"
  shows "relpath_wf (pre_path p)"
proof -
  obtain ds report where d: "desired_paths 0 es = Inr ds" "resolve_batch (\<lambda>_. 0) ds [] = Inr (map pre_path prepared, report)"
    using prepare_Inr [OF assms(1)] by blast
  have m: "pre_path p \<in> set (map pre_path prepared)" using assms(2) by simp
  have ok: "relpath_ok (pre_path p)"
    using resolve_batch_ok [OF d(2) desired_paths_ok [OF d(1)]] assms(2) by (simp add: list_all_iff)
  obtain b n where b: "b \<in> set ds" "as_str (pre_path p) = numbered b n" using resolve_batch_paths [OF d(2)] m by blast
  have "byte c < 128" if "c \<in> set (show_nat n)" for c using show_nat_digits [OF that] by (simp add: ascii_defs)
  then have "is_ascii_str (as_str (pre_path p))" using desired_paths_ascii [OF d(1) b(1)]
    by (auto simp: b(2) numbered_def is_ascii_str_def byte_def list_all_iff)
  with ok show ?thesis by (simp add: relpath_wf_def ascii_valid del: valid_utf8.simps)
qed

lemma import_run_Inr:
  assumes "import_run L X E st format from_ext source schema hdr w = ((Inr n, out), w')"
    and "import_gather L X E format from_ext source schema hdr w = (Inr (entries, report, label), w1)"
  shows "\<exists>existing prepared remarks w2. entries \<noteq> [] \<and> store_list st None w1 = Inr existing \<and>
    prepare entries existing = Inr (prepared, remarks) \<and> length prepared = length entries \<and>
    written_in_turn st (map (\<lambda>p. (pre_path p, pre_body p)) prepared) w1 w2 \<and>
    (w' = w2 \<or> (\<exists>bs msg. commit_changes st bs msg w2 = (Inr (), w'))) \<and>
    out = emit_report (report @ remarks) [Imported (length entries) label]"
proof -
  obtain existing prepared remarks where p: "entries \<noteq> []" "store_list st None w1 = Inr existing" "prepare entries existing = Inr (prepared, remarks)"
    using assms by (auto simp: import_run_def split: if_splits sum.splits)
  obtain bs w2 where b: "import_inserts st prepared [] w1 = (Inr bs, w2)"
    using assms p by (cases "import_inserts st prepared [] w1") (auto simp: import_run_def split: sum.splits)
  have l: "length prepared = length entries" using prepare_Inr [OF p(3)] by blast
  have w: "written_in_turn st (map (\<lambda>p. (pre_path p, pre_body p)) prepared) w1 w2" "length bs = length entries"
    using import_inserts_Inr [OF b] l by simp_all
  have n: "bs \<noteq> []" using w(2) p(1) by auto
  obtain r w3 where c: "commit_changes st bs (import_message (length entries) label) w2 = (r, w3)" by fastforce
  have "(w' = w2 \<or> (\<exists>bs msg. commit_changes st bs msg w2 = (Inr (), w'))) \<and> out = emit_report (report @ remarks) [Imported (length entries) label]"
    using assms p b w(2) n c by (cases r) (auto simp: import_run_def Let_def)
  with p l w(1) show ?thesis by blast
qed

section \<open>Property\<close>



section \<open>Example\<close>

text \<open>A Bitwarden export of one login imported into an initialised empty store.\<close>

definition one_login :: bw_export where
  "one_login = \<lparr>bx_encrypted = False, bx_folders = [], bx_items =
     [\<lparr>bi_type = 1, bi_name = Some ''A'', bi_folder_id = None, bi_notes = None, bi_fields = [],
       bi_login = Some \<lparr>bl_username = Some ''me'', bl_password = Some ''s1'', bl_totp = None, bl_uris = []\<rparr>\<rparr>]\<rparr>"

definition demo_libs :: import_env where
  "demo_libs = \<lparr>im_read = (\<lambda>_. Inr ''{}''), im_csv = (\<lambda>_ _. []), im_bitwarden = (\<lambda>_. Inr one_login), im_xml = (\<lambda>_. Inr XOther),
     im_wire = (\<lambda>_. Inl [])\<rparr>"

definition demo_importers :: "fs_world importer_system" where
  "demo_importers = \<lparr>is_metadata = (\<lambda>_. None), is_spawn = (\<lambda>_ _ _ w. (Inl [], w))\<rparr>"

definition no_env :: process_env where
  "no_env = \<lparr>pv_var_os = (\<lambda>_. None), pv_home = None, pv_exe = Inl []\<rparr>"

definition login_entry :: imported_entry where
  "login_entry = \<lparr>ie_folder = [], ie_name = ''A'', ie_password = ''s1'', ie_username = Some ''me'', ie_fields = [], ie_totp = None,
     ie_notes = None, ie_uris = []\<rparr>"

definition login_body :: bytes where
  "login_body = ''s1'' @ [NL] @ ''login: me'' @ [NL]"

lemma demo_gather:
  "import_gather demo_libs demo_importers no_env (Some Bitwarden) None ''x.json'' None False target =
     (Inr ([login_entry], [], ''Bitwarden''), target)"
proof -
  have "bitwarden_parse (\<lambda>_. Inr one_login) ''{}'' = Inr ([login_entry], [])" by code_simp
  then show ?thesis by (simp add: import_gather_def parse_in_tree_def demo_libs_def)
qed

lemma demo_import:
  "import_run demo_libs demo_importers no_env demo_store (Some Bitwarden) None ''x.json'' None False target =
     ((Inr 0, [Imported 1 ''Bitwarden'']), stored login_body)"
proof -
  have p: "prepare [login_entry] [] = Inr ([\<lparr>pre_path = RelPath ''a'', pre_body = login_body\<rparr>], [])"
    "store_list demo_store None target = Inr []" by code_simp+
  then show ?thesis
    by (simp add: import_run_def demo_gather demo_insert(1) commit_changes_def demo_simps no_vcs_def emit_report_def)
qed


end
