(* ===== verification/Peers.thy ===== *)
theory Peers
  imports Fs_World
begin

text \<open>
  The pinned-peer table (\<open>bypass-cli/src/sync/peers.rs\<close>).  TOML is a parameter: \<open>of_toml\<close> and \<open>to_toml\<close>
  stand for \<open>toml::from_str\<close> and \<open>toml::to_string_pretty\<close> on the table.
\<close>

section \<open>Operations\<close>

record peer_record =
  pr_name :: str
  pr_peer_id :: str
  pr_noise_key :: str
  pr_paired_at :: str

type_synonym peers = "peer_record list"

datatype peers_error = PeersIo path io_kind | PeersNotUtf8 path | PeersToml str

definition peers_load :: "(str \<Rightarrow> str + peers) \<Rightarrow> path \<Rightarrow> 'z fs_world_scheme \<Rightarrow> peers_error + peers" where
  "peers_load of_toml path w =
     (case fs_read w path of
        Inl NotFound \<Rightarrow> Inr []
      | Inl source \<Rightarrow> Inl (PeersIo path source)
      | Inr b \<Rightarrow>
          (case from_utf8 b of None \<Rightarrow> Inl (PeersNotUtf8 path)
           | Some text \<Rightarrow> map_err PeersToml (of_toml text)))"

definition peers_tmp_name :: "str \<Rightarrow> nat \<Rightarrow> str" where
  "peers_tmp_name file process =
     ''.'' @ (if valid_utf8 file then file else ''peers.toml'') @ ''.tmp.'' @ show_nat process"

definition peers_save :: "(peers \<Rightarrow> str + str) \<Rightarrow> peers \<Rightarrow> path \<Rightarrow> ('z fs_world_scheme, peers_error, unit) eff" where
  "peers_save to_toml ps path w =
     (let parent = butlast path in
      then_eff (map_err_st (PeersIo parent) (create_dir_all parent w)) (\<lambda>_ w.
      then_eff (map_err PeersToml (to_toml ps), w) (\<lambda>text w.
      (let tmp = parent @ [peers_tmp_name (last path) (pid w)] in
       then_eff (map_err_st (PeersIo tmp) (create_new tmp w)) (\<lambda>_ w.
       then_eff (catch_eff (then_eff (write_at tmp 0 text w) (\<lambda>_. sync_all))
                   (\<lambda>e w. (Inl (PeersIo tmp e), snd (unlink tmp w)))) (\<lambda>_ w.
       then_eff (catch_eff (fs_rename tmp path w)
                   (\<lambda>e w. (Inl (PeersIo path e), snd (unlink tmp w)))) (\<lambda>_ w.
         (Inr (), w))))))))"

definition peers_find :: "str \<Rightarrow> peers \<Rightarrow> peer_record option" where
  "peers_find needle ps = find (\<lambda>r. pr_peer_id r = needle) ps"

definition peers_find_by_name :: "str \<Rightarrow> peers \<Rightarrow> peer_record option" where
  "peers_find_by_name name ps = find (\<lambda>r. pr_name r = name) ps"

fun position :: "('a \<Rightarrow> bool) \<Rightarrow> 'a list \<Rightarrow> nat option" where
  "position P [] = None"
| "position P (x # xs) = (if P x then Some 0 else map_option Suc (position P xs))"

definition peers_upsert :: "peer_record \<Rightarrow> peers \<Rightarrow> bool \<times> peers" where
  "peers_upsert rec ps =
     (case position (\<lambda>r. pr_peer_id r = pr_peer_id rec) ps of
        Some pos \<Rightarrow> (False, ps[pos := rec])
      | None \<Rightarrow> (True, ps @ [rec]))"

definition peers_remove :: "str \<Rightarrow> peers \<Rightarrow> peer_record option \<times> peers" where
  "peers_remove name ps =
     (case position (\<lambda>r. pr_name r = name) ps of
        None \<Rightarrow> (None, ps)
      | Some pos \<Rightarrow> (Some (ps ! pos), take pos ps @ drop (Suc pos) ps))"

definition peers_clear :: "peers \<Rightarrow> peers" where
  "peers_clear ps = []"

section \<open>Lemmas\<close>

lemma position_None: "position P xs = None \<longleftrightarrow> (\<forall>x \<in> set xs. \<not> P x)"
  by (induction xs) auto

lemma position_Some:
  "position P xs = Some i \<Longrightarrow> i < length xs \<and> P (xs ! i) \<and> (\<forall>j < i. \<not> P (xs ! j))"
  by (induction xs arbitrary: i) (auto simp: less_Suc_eq_0_disj split: if_splits)

definition ids_distinct :: "peers \<Rightarrow> bool" where
  "ids_distinct ps \<longleftrightarrow> distinct (map pr_peer_id ps)"

lemma find_append: "find P (xs @ ys) = (case find P xs of None \<Rightarrow> find P ys | Some x \<Rightarrow> Some x)"
  by (induction xs) auto

lemma upsert_map_ids: "position (\<lambda>r. pr_peer_id r = pr_peer_id rec) ps = Some pos \<Longrightarrow>
    map pr_peer_id (ps[pos := rec]) = map pr_peer_id ps"
  using position_Some [of "\<lambda>r. pr_peer_id r = pr_peer_id rec" ps pos] by (simp add: map_update list_update_same_conv)

lemma find_id_distinct:
  "ids_distinct ps \<Longrightarrow> r \<in> set ps \<Longrightarrow> peers_find (pr_peer_id r) ps = Some r"
  by (induction ps) (auto simp: ids_distinct_def peers_find_def)

lemma upsert_set:
  assumes "ids_distinct ps"
  shows "set (snd (peers_upsert rec ps)) = insert rec {r \<in> set ps. pr_peer_id r \<noteq> pr_peer_id rec}"
proof (cases "position (\<lambda>r. pr_peer_id r = pr_peer_id rec) ps")
  case None
  then have "peers_upsert rec ps = (True, ps @ [rec])" "\<forall>r \<in> set ps. pr_peer_id r \<noteq> pr_peer_id rec"
    by (simp add: peers_upsert_def, simp add: position_None)
  then show ?thesis by auto
next
  case (Some pos)
  note p = position_Some [OF Some]
  have split: "ps = take pos ps @ ps ! pos # drop (Suc pos) ps" using p by (simp add: id_take_nth_drop)
  have "ids_distinct (take pos ps @ ps ! pos # drop (Suc pos) ps)" using assms split by simp
  then have d: "\<forall>r \<in> set (take pos ps) \<union> set (drop (Suc pos) ps). pr_peer_id r \<noteq> pr_peer_id rec"
    using p unfolding ids_distinct_def by (simp add: image_iff ball_Un eq_commute [of "pr_peer_id rec"])
  have "set (ps[pos := rec]) = insert rec (set (take pos ps) \<union> set (drop (Suc pos) ps))"
    using p by (simp add: upd_conv_take_nth_drop)
  moreover have "set ps = insert (ps ! pos) (set (take pos ps) \<union> set (drop (Suc pos) ps))"
    by (subst split) auto
  ultimately show ?thesis using Some d p by (auto simp: peers_upsert_def)
qed

lemma upsert_distinct: "ids_distinct ps \<Longrightarrow> ids_distinct (snd (peers_upsert rec ps))"
proof (cases "position (\<lambda>r. pr_peer_id r = pr_peer_id rec) ps")
  case None
  moreover assume "ids_distinct ps"
  moreover from None have "peers_upsert rec ps = (True, ps @ [rec])" "\<forall>r \<in> set ps. pr_peer_id r \<noteq> pr_peer_id rec"
    by (simp add: peers_upsert_def, simp add: position_None)
  ultimately show ?thesis by (auto simp: ids_distinct_def)
next
  case (Some pos)
  moreover assume "ids_distinct ps"
  ultimately show ?thesis using upsert_map_ids [OF Some] by (simp add: peers_upsert_def ids_distinct_def)
qed

lemma remove_distinct:
  assumes "ids_distinct ps" shows "ids_distinct (snd (peers_remove name ps))"
proof (cases "position (\<lambda>r. pr_name r = name) ps")
  case (Some pos)
  then have "ps = take pos ps @ ps ! pos # drop (Suc pos) ps" using position_Some [OF Some] by (simp add: id_take_nth_drop)
  then have "distinct (map pr_peer_id (take pos ps @ ps ! pos # drop (Suc pos) ps))" using assms by (simp add: ids_distinct_def)
  then show ?thesis using Some by (simp add: peers_remove_def ids_distinct_def)
qed (use assms in \<open>simp add: peers_remove_def\<close>)

section \<open>Pinning\<close>

text \<open>Pinning a peer: in a table with one record per peer id, \<open>upsert\<close> keeps that invariant, makes the
  given record the one found for its id, leaves what is found for every other id as it was, and reports
  \<open>true\<close> exactly when the id was not in the table.\<close>

lemma upsert_pins:
  assumes "ids_distinct ps"
  shows "ids_distinct (snd (peers_upsert rec ps)) \<and>
    (\<forall>i. peers_find i (snd (peers_upsert rec ps)) = (if i = pr_peer_id rec then Some rec else peers_find i ps)) \<and>
    (fst (peers_upsert rec ps) \<longleftrightarrow> peers_find (pr_peer_id rec) ps = None)"
proof (intro conjI allI)
  show d: "ids_distinct (snd (peers_upsert rec ps))" by (rule upsert_distinct [OF assms])
  show "peers_find i (snd (peers_upsert rec ps)) = (if i = pr_peer_id rec then Some rec else peers_find i ps)" for i
  proof (cases "i = pr_peer_id rec")
    case True
    then show ?thesis using find_id_distinct [OF d, of rec] upsert_set [OF assms, of rec] by simp
  next
    case False
    show ?thesis
    proof (cases "peers_find i ps")
      case None
      then have "\<forall>r \<in> set (snd (peers_upsert rec ps)). pr_peer_id r \<noteq> i"
        using False upsert_set [OF assms, of rec] by (auto simp: peers_find_def find_None_iff)
      then have "peers_find i (snd (peers_upsert rec ps)) = None" by (simp add: peers_find_def find_None_iff)
      with None False show ?thesis by simp
    next
      case (Some r)
      then have r: "r \<in> set ps" "pr_peer_id r = i" by (auto simp: peers_find_def find_Some_iff)
      then have "r \<in> set (snd (peers_upsert rec ps))" using False upsert_set [OF assms, of rec] by auto
      from find_id_distinct [OF d this] r(2) Some False show ?thesis by simp
    qed
  qed
  show "fst (peers_upsert rec ps) \<longleftrightarrow> peers_find (pr_peer_id rec) ps = None"
  proof (cases "position (\<lambda>r. pr_peer_id r = pr_peer_id rec) ps")
    case None
    then have "peers_upsert rec ps = (True, ps @ [rec])" "\<forall>r \<in> set ps. pr_peer_id r \<noteq> pr_peer_id rec"
      by (simp add: peers_upsert_def, simp add: position_None)
    then show ?thesis by (auto simp: peers_find_def find_None_iff)
  next
    case (Some pos)
    have "ps ! pos \<in> set ps" "pr_peer_id (ps ! pos) = pr_peer_id rec" using position_Some [OF Some] by simp_all
    then show ?thesis using Some by (auto simp: peers_upsert_def peers_find_def find_None_iff)
  qed
qed

end
