(* ===== verification/Calendar.thy ===== *)
theory Calendar
  imports Rust_Text
begin

text \<open>
  The wall-clock stamps of the pairing and backup code: \<open>format_unix_ts\<close> and \<open>civil_from_days\<close> in
  \<open>bypass-cli/src/sync/pairing.rs\<close>, with the proof that the day arithmetic is the Gregorian calendar.
  The input is a \<open>u64\<close> number of seconds, so no intermediate value leaves the \<open>i64\<close> range.
\<close>

section \<open>Operations\<close>

definition civil_from_days :: "int \<Rightarrow> int \<times> int \<times> int" where
  "civil_from_days z0 =
     (let z = z0 + 719468;
          era = (if z \<ge> 0 then z else z - 146096) div 146097;
          doe = z - era * 146097;
          yoe = (doe - doe div 1460 + doe div 36524 - doe div 146096) div 365;
          y = yoe + era * 400;
          doy = doe - (365 * yoe + yoe div 4 - yoe div 100);
          mp = (5 * doy + 2) div 153;
          d = doy - (153 * mp + 2) div 5 + 1;
          m = (if mp < 10 then mp + 3 else mp - 9);
          y = y + (if m \<le> 2 then 1 else 0) in
      (y, m, d))"

definition format_unix_ts :: "nat \<Rightarrow> str" where
  "format_unix_ts secs =
     (let days = int (secs div 86400);
          (y, m, d) = civil_from_days days;
          rem = secs mod 86400;
          hh = rem div 3600; mm = rem mod 3600 div 60; ss = rem mod 60 in
      pad0 4 (nat y) @ ''-'' @ pad0 2 (nat m) @ ''-'' @ pad0 2 (nat d) @ ''T'' @
      pad0 2 hh @ '':'' @ pad0 2 mm @ '':'' @ pad0 2 ss @ ''Z'')"

section \<open>The calendar as a specification\<close>

definition leap :: "int \<Rightarrow> bool" where
  "leap y \<longleftrightarrow> y mod 4 = 0 \<and> (y mod 100 \<noteq> 0 \<or> y mod 400 = 0)"

definition month_days :: "int \<Rightarrow> int \<Rightarrow> int" where
  "month_days y m = (if m = 2 then (if leap y then 29 else 28) else if m \<in> {4, 6, 9, 11} then 30 else 31)"

definition next_day :: "int \<times> int \<times> int \<Rightarrow> int \<times> int \<times> int" where
  "next_day dt = (case dt of (y, m, d) \<Rightarrow>
     if d < month_days y m then (y, m, d + 1) else if m < 12 then (y, m + 1, 1) else (y + 1, 1, 1))"

section \<open>Correctness\<close>

text \<open>Years of an era start in March: year \<open>y\<close> of the era starts on day \<open>year_start y\<close>.\<close>

definition year_start :: "int \<Rightarrow> int" where
  "year_start y = 365 * y + y div 4 - y div 100"

definition yoe_of :: "int \<Rightarrow> int" where
  "yoe_of doe = (doe - doe div 1460 + doe div 36524 - doe div 146096) div 365"

definition md_of :: "int \<Rightarrow> int \<times> int" where
  "md_of doy = (let mp = (5 * doy + 2) div 153 in (if mp < 10 then mp + 3 else mp - 9, doy - (153 * mp + 2) div 5 + 1))"

lemma yoe_mono_step: "0 \<le> a \<Longrightarrow> a < 146096 \<Longrightarrow> yoe_of a \<le> yoe_of (a + 1)"
proof -
  assume a: "0 \<le> a" "a < 146096"
  have "a - a div 1460 + a div 36524 - a div 146096 \<le> (a + 1) - (a + 1) div 1460 + (a + 1) div 36524 - (a + 1) div 146096"
  proof (cases "a = 146095")
    case False
    have "(a + 1) div 1460 \<le> (a + 1460) div 1460" "a div 36524 \<le> (a + 1) div 36524" by (rule zdiv_mono1; simp)+
    moreover have "(a + 1460) div 1460 = a div 1460 + 1" by simp
    moreover have "a div 146096 = 0" "(a + 1) div 146096 = 0" using a False by simp_all
    ultimately show ?thesis by linarith
  qed simp
  then show ?thesis unfolding yoe_of_def by (rule zdiv_mono1) simp
qed

lemma yoe_mono:
  assumes "0 \<le> a" "a \<le> b" "b \<le> 146096"
  shows "yoe_of a \<le> yoe_of b"
  using assms(2,3)
proof (induction b rule: int_ge_induct)
  case (step i)
  then show ?case using yoe_mono_step [of i] assms(1) by simp
qed simp

lemma yoe_ends: "\<forall>y \<in> set [0..399]. yoe_of (year_start y) = y \<and> (y < 399 \<longrightarrow> yoe_of (year_start (y + 1) - 1) = y)"
  by code_simp

lemma yoe_last: "yoe_of 146096 = 399"
  by code_simp

definition year_end :: "int \<Rightarrow> int" where
  "year_end y = (if y = 399 then 146096 else year_start (y + 1) - 1)"

lemma yoe_interval:
  assumes "0 \<le> doe" "doe \<le> 146096"
  defines "y \<equiv> yoe_of doe"
  shows "0 \<le> y" "y \<le> 399" "year_start y \<le> doe" "doe \<le> year_end y"
proof -
  have "yoe_of 0 = 0" by code_simp
  then show y: "0 \<le> y" "y \<le> 399"
    using yoe_mono [of 0 doe] yoe_mono [of doe 146096] yoe_last assms by auto
  show "year_start y \<le> doe"
  proof (rule ccontr)
    assume neg: "\<not> year_start y \<le> doe"
    have "0 < y" using neg y assms(1) by (cases "y = 0") (auto simp: year_start_def)
    then have "yoe_of (year_start (y - 1 + 1) - 1) = y - 1" using y bspec [OF yoe_ends, of "y - 1"] by simp
    moreover have "year_start y \<le> 146096" using y by (simp add: year_start_def)
    ultimately show False using neg yoe_mono [of doe "year_start y - 1"] assms by simp
  qed
  show "doe \<le> year_end y"
  proof (rule ccontr)
    assume neg: "\<not> doe \<le> year_end y"
    then have "y < 399" using y assms(2) by (cases "y = 399") (auto simp: year_end_def)
    then have "yoe_of (year_start (y + 1)) = y + 1" using y bspec [OF yoe_ends, of "y + 1"] by simp
    moreover have "0 \<le> year_start (y + 1)" using y by (simp add: year_start_def)
    ultimately show False using neg \<open>y < 399\<close> yoe_mono [of "year_start (y + 1)" doe] assms by (simp add: year_end_def)
  qed
qed

lemma yoe_unique:
  assumes "0 \<le> y" "y \<le> 399" "year_start y \<le> doe" "doe \<le> year_end y"
  shows "yoe_of doe = y"
proof -
  have lo: "yoe_of (year_start y) = y" using assms(1,2) bspec [OF yoe_ends, of y] by simp
  have hi: "yoe_of (year_end y) = y"
    using assms(1,2) bspec [OF yoe_ends, of y] yoe_last by (cases "y = 399") (auto simp: year_end_def)
  have b: "0 \<le> year_start y" "year_end y \<le> 146096" using assms(1,2) by (auto simp: year_start_def year_end_def)
  show ?thesis using yoe_mono [of "year_start y" doe] yoe_mono [of doe "year_end y"] lo hi b assms by simp
qed

lemma year_len: "\<forall>y \<in> set [0..399]. year_end y = year_start y + (if leap (y + 1) then 365 else 364)"
  by code_simp

lemma leap_era: "leap (y + era * 400) = leap y"
proof -
  have "(y + era * 400) mod 4 = y mod 4" using mod_mult_self1 [of y "era * 100" 4] by (simp add: mult.assoc)
  moreover have "(y + era * 400) mod 100 = y mod 100" using mod_mult_self1 [of y "era * 4" 100] by (simp add: mult.assoc)
  moreover have "(y + era * 400) mod 400 = y mod 400" by simp
  ultimately show ?thesis by (simp add: leap_def)
qed

lemma md_steps:
  "\<forall>doy \<in> set [0..364]. md_of (doy + 1) =
     (let (m, d) = md_of doy in
      if d < (if m = 2 then 29 else if m \<in> {4, 6, 9, 11} then 30 else 31) then (m, d + 1) else (if m = 12 then (1, 1) else (m + 1, 1)))"
  by code_simp

lemma md_range: "\<forall>doy \<in> set [0..365]. (let (m, d) = md_of doy in 1 \<le> m \<and> m \<le> 12 \<and> 1 \<le> d \<and>
    (m = 2 \<longrightarrow> d = doy - 336) \<and> (m \<noteq> 2 \<longrightarrow> doy < 337))"
  by code_simp

lemma md_ends: "md_of 364 = (2, 28)" "md_of 365 = (2, 29)" "md_of 0 = (3, 1)"
  by code_simp+

lemma civil_split:
  "civil_from_days z =
     (let n = z + 719468; era = (if n \<ge> 0 then n else n - 146096) div 146097; doe = n - era * 146097;
          (m, d) = md_of (doe - year_start (yoe_of doe)) in
      (yoe_of doe + era * 400 + (if m \<le> 2 then 1 else 0), m, d))"
  by (simp only: civil_from_days_def Let_def yoe_of_def year_start_def md_of_def prod.case)

text \<open>The date of day \<open>doe\<close> of an era.\<close>

definition era_date :: "int \<Rightarrow> int \<Rightarrow> int \<times> int \<times> int" where
  "era_date era doe = (let (m, d) = md_of (doe - year_start (yoe_of doe)) in
      (yoe_of doe + era * 400 + (if m \<le> 2 then 1 else 0), m, d))"

lemma civil_era: "0 \<le> z \<Longrightarrow> civil_from_days z = era_date ((z + 719468) div 146097) ((z + 719468) mod 146097)"
  by (simp add: civil_split era_date_def Let_def minus_div_mult_eq_mod)

lemma era_date_next:
  assumes "0 \<le> doe" "doe < 146096"
  shows "era_date era (doe + 1) = next_day (era_date era doe)"
proof -
  let ?y = "yoe_of doe"
  have y: "0 \<le> ?y" "?y \<le> 399" "year_start ?y \<le> doe" "doe \<le> year_end ?y"
    using yoe_interval [of doe] assms by auto
  have len: "year_end ?y = year_start ?y + (if leap (?y + 1) then 365 else 364)"
    using year_len y by simp
  show ?thesis
  proof (cases "doe = year_end ?y")
    case False
    then have y1: "yoe_of (doe + 1) = ?y" using y by (intro yoe_unique) auto
    define doy where "doy = doe - year_start ?y"
    have doy: "0 \<le> doy" "doy \<le> 364" "doy = 364 \<longrightarrow> leap (?y + 1)"
      using y len False by (auto simp: doy_def split: if_splits)
    obtain m d where md: "md_of doy = (m, d)" by (cases "md_of doy")
    have st: "md_of (doy + 1) = (if d < (if m = 2 then 29 else if m \<in> {4, 6, 9, 11} then 30 else 31) then (m, d + 1)
        else (if m = 12 then (1, 1) else (m + 1, 1)))"
      using bspec [OF md_steps, of doy] doy md by simp
    have rg: "1 \<le> m" "m \<le> 12" "m = 2 \<Longrightarrow> d = doy - 336"
      using bspec [OF md_range, of doy] doy md by auto
    have lp: "leap (?y + era * 400 + 1) = leap (?y + 1)" using leap_era [of "?y + 1" era] by (simp add: algebra_simps)
    have eq: "doe + 1 - year_start ?y = doy + 1" "doe - year_start ?y = doy" by (simp_all add: doy_def)
    show ?thesis
      unfolding era_date_def y1 eq st md
      using rg doy lp by (auto simp: next_day_def month_days_def)
  next
    case True
    then have lt: "?y < 399" using assms(2) y by (cases "?y = 399") (auto simp: year_end_def)
    then have d1: "doe + 1 = year_start (?y + 1)" using True by (simp add: year_end_def)
    have y1: "yoe_of (doe + 1) = ?y + 1"
      using lt y(1) by (intro yoe_unique) (auto simp: d1 bspec [OF year_len, of "?y + 1"])
    have lp: "leap (?y + era * 400 + 1) = leap (?y + 1)" using leap_era [of "?y + 1" era] by (simp add: algebra_simps)
    have doy: "doe - year_start ?y = (if leap (?y + 1) then 365 else 364)" using True len by simp
    show ?thesis
      unfolding era_date_def y1 doy
      using lp by (simp add: d1 md_ends next_day_def month_days_def)
  qed
qed

lemma era_date_wrap: "era_date (era + 1) 0 = next_day (era_date era 146096)"
proof -
  have "yoe_of 0 = 0" "year_start 0 = 0" "146096 - year_start 399 = 365" "leap 400" by code_simp+
  moreover have "leap (399 + era * 400 + 1)" using leap_era [of 400 era] \<open>leap 400\<close> by (simp add: algebra_simps)
  ultimately show ?thesis
    by (simp add: era_date_def yoe_last md_ends next_day_def month_days_def algebra_simps)
qed

lemma succ_div_mod:
  fixes k n :: int
  assumes "0 < k"
  shows "(n + 1) div k = (if n mod k + 1 = k then n div k + 1 else n div k) \<and>
    (n + 1) mod k = (if n mod k + 1 = k then 0 else n mod k + 1)"
proof -
  have n: "n = k * (n div k) + n mod k" by simp
  have r: "0 \<le> n mod k" "n mod k < k" using assms by simp_all
  show ?thesis
  proof (cases "n mod k + 1 = k")
    case True
    then have "n + 1 = k * (n div k + 1) + 0" using n unfolding distrib_left by linarith
    with True assms show ?thesis using int_div_pos_eq [of "n + 1" k "n div k + 1" 0] int_mod_pos_eq [of "n + 1" k "n div k + 1" 0] by simp
  next
    case False
    have "n + 1 = k * (n div k) + (n mod k + 1)" using n by simp
    with False r show ?thesis
      using int_div_pos_eq [of "n + 1" k "n div k" "n mod k + 1"] int_mod_pos_eq [of "n + 1" k "n div k" "n mod k + 1"] by simp
  qed
qed

lemma civil_next:
  assumes "0 \<le> z"
  shows "civil_from_days (z + 1) = next_day (civil_from_days z)"
proof -
  let ?n = "z + 719468"
  have n: "0 \<le> ?n mod 146097" "?n mod 146097 \<le> 146096" by simp_all
  show ?thesis
  proof (cases "?n mod 146097 = 146096")
    case True
    then have "(?n + 1) mod 146097 = 0" "(?n + 1) div 146097 = ?n div 146097 + 1"
      using succ_div_mod [of 146097 ?n] by simp_all
    with True assms era_date_wrap [of "?n div 146097"] show ?thesis by (simp add: civil_era add.assoc)
  next
    case False
    then have "(?n + 1) mod 146097 = ?n mod 146097 + 1" "(?n + 1) div 146097 = ?n div 146097"
      using n succ_div_mod [of 146097 ?n] by simp_all
    with False n assms era_date_next [of "?n mod 146097" "?n div 146097"] show ?thesis by (simp add: civil_era add.assoc)
  qed
qed

text \<open>C29. The dates in pairing records are right: the day arithmetic is exactly the Gregorian calendar.
  Day 0 is 1 January 1970, and every later day is the calendar successor of the day before, through
  month ends, leap years, centuries and eras, for every day count a \<open>u64\<close> of seconds can give.\<close>

theorem civil_is_gregorian:
  "civil_from_days (int n) = (next_day ^^ n) (1970, 1, 1)"
proof (induction n)
  case 0
  show ?case by code_simp
next
  case (Suc n)
  then show ?case using civil_next [of "int n"] by (simp add: add.commute)
qed

end
