(* ===== verification/Pairing.thy ===== *)
theory Pairing
  imports Peers Calendar "HOL-Library.Word"
begin

text \<open>
  Pairing two devices with a PIN (\<open>bypass-cli/src/sync/pairing.rs\<close>): both sides as sequences of
  exchanges on a transport, whose calls are effects.  SPAKE2, SHA-256, JSON and the key types come from
  packages and are the fields of the record \<open>pair_env\<close>.
\<close>

unbundle bit_operations_syntax

section \<open>Messages and results\<close>

definition PROTOCOL_ID :: bytes where "PROTOCOL_ID = ''bypass-pair-v1''"

definition PIN_LEN :: nat where "PIN_LEN = 6"

definition PIN_LIFETIME :: nat where "PIN_LIFETIME = 5 * 60"

definition PAIR_MAGIC :: bytes where "PAIR_MAGIC = ''BYPS-PAR''"

record identity_bundle =
  ib_name :: str
  ib_peer_id :: str
  ib_pubkey_hex :: str

type_synonym tag = "8 word list"

datatype pair_body =
    Spake bytes
  | SpakeAck bytes tag
  | PairIdentity tag identity_bundle
  | IdentityAck identity_bundle

record pair_msg =
  pm_magic :: bytes
  pm_body :: pair_body

datatype pairing_error =
    InvalidPin str
  | Spake2Failed str
  | BadConfirmation
  | PairWire str
  | PairTransport str
  | PeerDropped

record paired_peer =
  pp_remote :: identity_bundle
  pp_record :: peer_record

record 's pair_env =
  pe_start :: "nat \<Rightarrow> str \<Rightarrow> bytes \<Rightarrow> 's \<times> bytes"
  pe_finish :: "'s \<Rightarrow> bytes \<Rightarrow> str + bytes"
  pe_sha256 :: "bytes \<Rightarrow> tag"
  pe_to_json :: "pair_msg \<Rightarrow> bytes"
  pe_from_json :: "bytes \<Rightarrow> str + pair_msg"

section \<open>Helpers\<close>

definition hex_digit :: "nat \<Rightarrow> char" where
  "hex_digit d = (if d < 10 then char_of (48 + d) else char_of (87 + d))"

definition hex_encode :: "bytes \<Rightarrow> str" where
  "hex_encode b = concat (map (\<lambda>c. [hex_digit (byte c div 16), hex_digit (byte c mod 16)]) b)"

definition bundle_from_local :: "bytes \<Rightarrow> str \<Rightarrow> str \<Rightarrow> identity_bundle" where
  "bundle_from_local pubkey peer_b58 name = \<lparr>ib_name = name, ib_peer_id = peer_b58, ib_pubkey_hex = hex_encode pubkey\<rparr>"

definition generate_pin :: "nat \<Rightarrow> str" where
  "generate_pin n = pad0 PIN_LEN n"

definition validate_pin :: "str \<Rightarrow> pairing_error + unit" where
  "validate_pin pin =
     (if length pin \<noteq> PIN_LEN \<or> \<not> list_all is_ascii_digit pin then Inl (InvalidPin pin) else Inr ())"

definition confirmation_tag :: "'s pair_env \<Rightarrow> bytes \<Rightarrow> bytes \<Rightarrow> tag" where
  "confirmation_tag env key domain = pe_sha256 env (''bypass-conf-v1'' @ domain @ key)"

definition constant_time_eq :: "tag \<Rightarrow> tag \<Rightarrow> bool" where
  "constant_time_eq a b \<longleftrightarrow> foldl (\<lambda>acc i. acc OR (a ! i XOR b ! i)) 0 [0..<32] = 0"

definition pair_encode :: "'s pair_env \<Rightarrow> pair_body \<Rightarrow> bytes" where
  "pair_encode env b = pe_to_json env \<lparr>pm_magic = PAIR_MAGIC, pm_body = b\<rparr>"

definition pair_decode :: "'s pair_env \<Rightarrow> bytes \<Rightarrow> pairing_error + pair_msg" where
  "pair_decode env b =
     (case pe_from_json env b of
        Inl e \<Rightarrow> Inl (PairWire (''decode pairing message: '' @ e))
      | Inr msg \<Rightarrow> (if pm_magic msg \<noteq> PAIR_MAGIC then Inl (PairWire ''wrong protocol magic'') else Inr msg))"

definition peer_record_of :: "identity_bundle \<Rightarrow> nat \<Rightarrow> peer_record" where
  "peer_record_of remote secs =
     \<lparr>pr_name = ib_name remote, pr_peer_id = ib_peer_id remote, pr_noise_key = ib_pubkey_hex remote,
      pr_paired_at = format_unix_ts secs\<rparr>"

section \<open>The two sides\<close>

text \<open>The transport of the show side: take the next request, send a reply to it.\<close>

record 'w server =
  sv_next :: "('w, str, bytes) eff"
  sv_reply :: "bytes \<Rightarrow> 'w \<Rightarrow> 'w"

definition run_show_side ::
  "'s pair_env \<Rightarrow> 'w server \<Rightarrow> nat \<Rightarrow> nat \<Rightarrow> str \<Rightarrow> identity_bundle \<Rightarrow> ('w, pairing_error, paired_peer) eff" where
  "run_show_side env srv rnd secs pin local_bundle w =
     then_eff (validate_pin pin, w) (\<lambda>_ w.
     then_eff (map_err_st PairTransport (sv_next srv w)) (\<lambda>first_bytes w.
     then_eff (pair_decode env first_bytes, w) (\<lambda>first w.
     case pm_body first of
       Spake peer_spake_msg \<Rightarrow>
         (let (state, our_spake_msg) = pe_start env rnd pin PROTOCOL_ID in
          then_eff (map_err Spake2Failed (pe_finish env state peer_spake_msg), w) (\<lambda>key w.
          (let our_confirmation = confirmation_tag env key ''show-confirms'';
               w = sv_reply srv (pair_encode env (SpakeAck our_spake_msg our_confirmation)) w in
           then_eff (map_err_st PairTransport (sv_next srv w)) (\<lambda>second_bytes w.
           then_eff (pair_decode env second_bytes, w) (\<lambda>second w.
           case pm_body second of
             PairIdentity their_conf remote_bundle \<Rightarrow>
               (let expected = confirmation_tag env key ''enter-confirms'' in
                if \<not> constant_time_eq their_conf expected then (Inl BadConfirmation, w)
                else
                  (let w = sv_reply srv (pair_encode env (IdentityAck local_bundle)) w in
                   (Inr \<lparr>pp_remote = remote_bundle, pp_record = peer_record_of remote_bundle secs\<rparr>, w)))
           | _ \<Rightarrow> (Inl (PairWire ''expected Identity''), w))))))
     | _ \<Rightarrow> (Inl (PairWire ''expected Spake''), w))))"

text \<open>The transport of the enter side: one call that sends a request and returns the reply.\<close>

definition run_enter_side ::
  "'s pair_env \<Rightarrow> (bytes \<Rightarrow> ('w, str, bytes) eff) \<Rightarrow> nat \<Rightarrow> nat \<Rightarrow> str \<Rightarrow> identity_bundle \<Rightarrow> ('w, pairing_error, paired_peer) eff" where
  "run_enter_side env request rnd secs pin local_bundle w =
     then_eff (validate_pin pin, w) (\<lambda>_ w.
     (let (state, our_spake_msg) = pe_start env rnd pin PROTOCOL_ID in
      then_eff (map_err_st PairTransport (request (pair_encode env (Spake our_spake_msg)) w)) (\<lambda>first_reply_bytes w.
      then_eff (pair_decode env first_reply_bytes, w) (\<lambda>first_reply w.
      case pm_body first_reply of
        SpakeAck peer_spake_msg peer_confirmation \<Rightarrow>
          then_eff (map_err Spake2Failed (pe_finish env state peer_spake_msg), w) (\<lambda>key w.
          (let expected = confirmation_tag env key ''show-confirms'' in
           if \<not> constant_time_eq peer_confirmation expected then (Inl BadConfirmation, w)
           else
             (let our_confirmation = confirmation_tag env key ''enter-confirms'' in
              then_eff (map_err_st PairTransport (request (pair_encode env (PairIdentity our_confirmation local_bundle)) w)) (\<lambda>second_reply_bytes w.
              then_eff (pair_decode env second_reply_bytes, w) (\<lambda>second_reply w.
              case pm_body second_reply of
                IdentityAck remote_bundle \<Rightarrow>
                  (Inr \<lparr>pp_remote = remote_bundle, pp_record = peer_record_of remote_bundle secs\<rparr>, w)
              | _ \<Rightarrow> (Inl (PairWire ''expected IdentityAck''), w))))))
      | _ \<Rightarrow> (Inl (PairWire ''expected SpakeAck''), w)))))"

section \<open>Comparison of tags\<close>

lemma or_zero: "(a :: 8 word) OR b = 0 \<longleftrightarrow> a = 0 \<and> b = 0"
  by (simp add: or_eq_0_iff)

lemma xor_zero: "(a :: 8 word) XOR b = 0 \<longleftrightarrow> a = b"
  by (auto simp: bit_eq_iff bit_xor_iff)

lemma fold_or: "foldl (\<lambda>acc i. acc OR f i) (z :: 8 word) xs = 0 \<longleftrightarrow> z = 0 \<and> (\<forall>i \<in> set xs. f i = 0)"
  by (induction xs arbitrary: z) (auto simp: or_zero)

lemma constant_time_eq_iff:
  "length a = 32 \<Longrightarrow> length b = 32 \<Longrightarrow> constant_time_eq a b \<longleftrightarrow> a = b"
  unfolding constant_time_eq_def fold_or by (auto simp: xor_zero list_eq_iff_nth_eq)

lemma generate_pin_valid: "n < 1000000 \<Longrightarrow> validate_pin (generate_pin n) = Inr ()"
  using pad0_length [of n PIN_LEN] pad0_digits [of _ PIN_LEN n]
  by (auto simp: validate_pin_def generate_pin_def PIN_LEN_def list_all_iff)

section \<open>Both sides together\<close>

text \<open>The show side run on a queue of requests; its second component collects the replies.\<close>

definition queue_server :: "(bytes list \<times> bytes list) server" where
  "queue_server = \<lparr>sv_next = (\<lambda>(inq, outq). case inq of [] \<Rightarrow> (Inl ''closed'', (inq, outq)) | b # rest \<Rightarrow> (Inr b, (rest, outq))),
     sv_reply = (\<lambda>b (inq, outq). (inq, outq @ [b]))\<rparr>"

definition show_on :: "'s pair_env \<Rightarrow> nat \<Rightarrow> nat \<Rightarrow> str \<Rightarrow> identity_bundle \<Rightarrow> bytes list \<Rightarrow> (pairing_error + paired_peer) \<times> bytes list" where
  "show_on env rnd secs pin local reqs =
     (case run_show_side env queue_server rnd secs pin local (reqs, []) of (r, (_, replies)) \<Rightarrow> (r, replies))"

text \<open>A request to that peer: its answer to the latest of the requests so far.\<close>

definition ask_show :: "'s pair_env \<Rightarrow> nat \<Rightarrow> nat \<Rightarrow> str \<Rightarrow> identity_bundle \<Rightarrow> bytes \<Rightarrow> (bytes list, str, bytes) eff" where
  "ask_show env rnd secs pin local b reqs =
     (let replies = snd (show_on env rnd secs pin local (reqs @ [b])) in
      (if length replies = Suc (length reqs) then Inr (last replies) else Inl ''dropped'', reqs @ [b]))"

definition pair_up :: "'s pair_env \<Rightarrow> nat \<Rightarrow> nat \<Rightarrow> str \<Rightarrow> identity_bundle \<Rightarrow> nat \<Rightarrow> nat \<Rightarrow> str \<Rightarrow> identity_bundle \<Rightarrow>
    (pairing_error + paired_peer) \<times> (pairing_error + paired_peer)" where
  "pair_up env re te pin_e local_e rs ts pin_s local_s =
     (case run_enter_side env (ask_show env rs ts pin_s local_s) re te pin_e local_e [] of
        (r, reqs) \<Rightarrow> (r, fst (show_on env rs ts pin_s local_s reqs)))"

lemma pair_decode_encode:
  "pe_from_json env (pe_to_json env \<lparr>pm_magic = PAIR_MAGIC, pm_body = b\<rparr>) = Inr \<lparr>pm_magic = PAIR_MAGIC, pm_body = b\<rparr> \<Longrightarrow>
     pair_decode env (pair_encode env b) = Inr \<lparr>pm_magic = PAIR_MAGIC, pm_body = b\<rparr>"
  by (simp add: pair_decode_def pair_encode_def)

section \<open>Properties\<close>

text \<open>C14. The PIN decides: when both devices run honestly, with a JSON codec that reads back what it writes
  and a SPAKE2 that finishes on honest messages and gives both ends one key exactly for one PIN, the two
  pair with each other (each side pinning the bundle the other sent) if the PINs are equal; if they
  differ, and the two keys' tags do not collide, the enter side reports the confirmation mismatch
  before it has sent its identity, and the show side pairs with nobody.\<close>

theorem pairing_needs_same_pin:
  assumes "validate_pin pin_e = Inr ()" "validate_pin pin_s = Inr ()"
    and "\<And>b. b \<in> {Spake m_e, SpakeAck m_s (confirmation_tag env k_s ''show-confirms''),
          PairIdentity (confirmation_tag env k_e ''enter-confirms'') local_e, IdentityAck local_s} \<Longrightarrow>
        pe_from_json env (pe_to_json env \<lparr>pm_magic = PAIR_MAGIC, pm_body = b\<rparr>) = Inr \<lparr>pm_magic = PAIR_MAGIC, pm_body = b\<rparr>"
    and "\<And>x. length (pe_sha256 env x) = 32"
    and "pe_start env re pin_e PROTOCOL_ID = (st_e, m_e)" "pe_start env rs pin_s PROTOCOL_ID = (st_s, m_s)"
    and "pe_finish env st_e m_s = Inr k_e" "pe_finish env st_s m_e = Inr k_s" "k_e = k_s \<longleftrightarrow> pin_e = pin_s"
    and "k_e \<noteq> k_s \<Longrightarrow> confirmation_tag env k_s ''show-confirms'' \<noteq> confirmation_tag env k_e ''show-confirms''"
  shows "pair_up env re te pin_e local_e rs ts pin_s local_s =
    (if pin_e = pin_s then
       (Inr \<lparr>pp_remote = local_s, pp_record = peer_record_of local_s te\<rparr>, Inr \<lparr>pp_remote = local_e, pp_record = peer_record_of local_e ts\<rparr>)
     else (Inl BadConfirmation, Inl (PairTransport ''closed'')))"
proof -
  have dec: "pair_decode env (pair_encode env b) = Inr \<lparr>pm_magic = PAIR_MAGIC, pm_body = b\<rparr>"
    if "b \<in> {Spake m_e, SpakeAck m_s (confirmation_tag env k_s ''show-confirms''),
      PairIdentity (confirmation_tag env k_e ''enter-confirms'') local_e, IdentityAck local_s}" for b
    using pair_decode_encode assms(3) that by blast
  have tag: "length (confirmation_tag env k d) = 32" for k d by (simp add: confirmation_tag_def assms(4))
  note cte = constant_time_eq_iff [OF tag tag]
  define r1 where "r1 = pair_encode env (Spake m_e)"
  define r2 where "r2 = pair_encode env (PairIdentity (confirmation_tag env k_e ''enter-confirms'') local_e)"
  define a1 where "a1 = pair_encode env (SpakeAck m_s (confirmation_tag env k_s ''show-confirms''))"
  define a2 where "a2 = pair_encode env (IdentityAck local_s)"
  note folds = r1_def r2_def a1_def a2_def
  have s1: "show_on env rs ts pin_s local_s [r1] = (Inl (PairTransport ''closed''), [a1])"
    by (simp add: show_on_def run_show_side_def queue_server_def assms(2,6,8) dec folds)
  show ?thesis
  proof (cases "pin_e = pin_s")
    case True
    then have k: "k_e = k_s" using assms(9) by simp
    have s2: "show_on env rs ts pin_s local_s [r1, r2] =
        (Inr \<lparr>pp_remote = local_e, pp_record = peer_record_of local_e ts\<rparr>, [a1, a2])"
      by (simp add: show_on_def run_show_side_def queue_server_def assms(2,6,8) dec folds cte k Let_def)
    have ask: "ask_show env rs ts pin_s local_s r1 [] = (Inr a1, [r1])"
        "ask_show env rs ts pin_s local_s r2 [r1] = (Inr a2, [r1, r2])"
      by (simp_all add: ask_show_def s1 s2)
    have "run_enter_side env (ask_show env rs ts pin_s local_s) re te pin_e local_e [] =
        (Inr \<lparr>pp_remote = local_s, pp_record = peer_record_of local_s te\<rparr>, [r1, r2])"
      using ask by (simp add: run_enter_side_def assms(1,5,7) dec folds cte k Let_def)
    then show ?thesis using True s2 by (simp add: pair_up_def)
  next
    case False
    then have "\<not> constant_time_eq (confirmation_tag env k_s ''show-confirms'') (confirmation_tag env k_e ''show-confirms'')"
      using assms(9,10) by (simp add: cte)
    moreover have "ask_show env rs ts pin_s local_s r1 [] = (Inr a1, [r1])"
      by (simp add: ask_show_def s1)
    ultimately have "run_enter_side env (ask_show env rs ts pin_s local_s) re te pin_e local_e [] = (Inl BadConfirmation, [r1])"
      by (simp add: run_enter_side_def assms(1,5,7) dec folds Let_def)
    then show ?thesis using False s1 by (simp add: pair_up_def)
  qed
qed

text \<open>The example: both users type 123456, with a stand-in for SPAKE2 that uses the PIN as the key.\<close>

definition demo_pair_env :: "str pair_env" where
  "demo_pair_env = \<lparr>pe_start = (\<lambda>_ pin _. (pin, pin)), pe_finish = (\<lambda>st msg. if msg = st then Inr st else Inr (st @ ''!'')),
     pe_sha256 = (\<lambda>b. replicate 32 (of_nat (length b))),
     pe_to_json = (\<lambda>m. case pm_body m of Spake b \<Rightarrow> CHR ''S'' # b | SpakeAck b _ \<Rightarrow> CHR ''A'' # b | PairIdentity _ i \<Rightarrow> CHR ''I'' # ib_name i | IdentityAck i \<Rightarrow> CHR ''K'' # ib_name i),
     pe_from_json = (\<lambda>b. case b of [] \<Rightarrow> Inl '''' | c # r \<Rightarrow> Inr \<lparr>pm_magic = PAIR_MAGIC, pm_body =
        (if c = CHR ''S'' then Spake r else if c = CHR ''A'' then SpakeAck r (replicate 32 33)
         else if c = CHR ''I'' then PairIdentity (replicate 32 34) (bundle_from_local [] '''' r) else IdentityAck (bundle_from_local [] '''' r))\<rparr>)\<rparr>"

theorem pairing_needs_same_pin_witness:
  "fst (pair_up demo_pair_env 1 0 ''123456'' (bundle_from_local [] '''' ''phone'') 2 0 ''123456'' (bundle_from_local [] '''' ''laptop'')) =
     Inr \<lparr>pp_remote = bundle_from_local [] '''' ''laptop'', pp_record = peer_record_of (bundle_from_local [] '''' ''laptop'') 0\<rparr>"
proof -
  have pin: "validate_pin ''123456'' = Inr ()" by code_simp
  have tags: "confirmation_tag demo_pair_env ''123456'' ''show-confirms'' = replicate 32 33"
      "confirmation_tag demo_pair_env ''123456'' ''enter-confirms'' = replicate 32 34"
    by code_simp+
  have json: "pe_from_json demo_pair_env (pe_to_json demo_pair_env \<lparr>pm_magic = PAIR_MAGIC, pm_body = b\<rparr>) = Inr \<lparr>pm_magic = PAIR_MAGIC, pm_body = b\<rparr>"
    if "b \<in> {Spake ''123456'', SpakeAck ''123456'' (confirmation_tag demo_pair_env ''123456'' ''show-confirms''),
      PairIdentity (confirmation_tag demo_pair_env ''123456'' ''enter-confirms'') (bundle_from_local [] '''' ''phone''), IdentityAck (bundle_from_local [] '''' ''laptop'')}" for b
    using that by (auto simp: demo_pair_env_def tags [unfolded demo_pair_env_def] bundle_from_local_def)
  have len: "length (pe_sha256 demo_pair_env x) = 32" for x by (simp add: demo_pair_env_def)
  have start: "pe_start demo_pair_env r ''123456'' PROTOCOL_ID = (''123456'', ''123456'')" for r by (simp add: demo_pair_env_def)
  have fin: "pe_finish demo_pair_env ''123456'' ''123456'' = Inr ''123456''" by (simp add: demo_pair_env_def)
  have key: "''123456'' = ''123456'' \<longleftrightarrow> ''123456'' = ''123456''" ..
  have clash: "''123456'' \<noteq> ''123456'' \<Longrightarrow> confirmation_tag demo_pair_env ''123456'' ''show-confirms'' \<noteq> confirmation_tag demo_pair_env ''123456'' ''show-confirms''"
    by (rule notE [OF _ refl])
  show ?thesis
    by (rule arg_cong [of _ "(_, _)" fst, unfolded fst_conv, OF pairing_needs_same_pin [OF pin pin json len start start fin fin key clash, unfolded if_True simp_thms]])
qed

text \<open>C15. The show side pairs only with a party that has proved the key: whatever the transport delivers,
  if it returns a peer then the first message was a SPAKE2 message, SPAKE2 finished on it with some key
  for the displayed PIN, and the message that carried the returned identity carried the tag that this
  key gives for \<open>enter-confirms\<close>.\<close>

theorem show_side_authenticates:
  assumes "run_show_side env srv rnd secs pin local w = (Inr p, w')"
  shows "\<exists>b1 w1 m1 spake key b2 w2 w3 m2 conf. validate_pin pin = Inr () \<and>
    sv_next srv w = (Inr b1, w1) \<and> pair_decode env b1 = Inr m1 \<and> pm_body m1 = Spake spake \<and>
    pe_finish env (fst (pe_start env rnd pin PROTOCOL_ID)) spake = Inr key \<and>
    sv_next srv w2 = (Inr b2, w3) \<and> pair_decode env b2 = Inr m2 \<and> pm_body m2 = PairIdentity conf (pp_remote p) \<and>
    constant_time_eq conf (confirmation_tag env key ''enter-confirms'')"
proof -
  from assms obtain b1 w1 m1 where 1: "validate_pin pin = Inr ()" "sv_next srv w = (Inr b1, w1)" "pair_decode env b1 = Inr m1"
    by (auto simp: run_show_side_def then_eff_Inr_iff)
  obtain st our where st: "pe_start env rnd pin PROTOCOL_ID = (st, our)" by (cases "pe_start env rnd pin PROTOCOL_ID")
  from assms 1 st obtain spake where 2: "pm_body m1 = Spake spake"
    by (cases "pm_body m1") (auto simp: run_show_side_def)
  from assms 1 2 st obtain key where 3: "pe_finish env st spake = Inr key"
    by (cases "pe_finish env st spake") (auto simp: run_show_side_def)
  define w2 where "w2 = sv_reply srv (pair_encode env (SpakeAck our (confirmation_tag env key ''show-confirms''))) w1"
  from assms 1 2 3 st obtain b2 w3 m2 where 4: "sv_next srv w2 = (Inr b2, w3)" "pair_decode env b2 = Inr m2"
    by (auto simp: run_show_side_def then_eff_Inr_iff Let_def w2_def)
  from assms 1 2 3 4 st obtain conf where 5: "pm_body m2 = PairIdentity conf (pp_remote p)"
      "constant_time_eq conf (confirmation_tag env key ''enter-confirms'')"
    by (cases "pm_body m2") (auto simp: run_show_side_def Let_def w2_def split: if_splits)
  have 6: "pe_finish env (fst (pe_start env rnd pin PROTOCOL_ID)) spake = Inr key" using 3 st by simp
  show ?thesis using 1 2 4 5 6
    by - (rule exI [of _ b1], rule exI [of _ w1], rule exI [of _ m1], rule exI [of _ spake], rule exI [of _ key],
      rule exI [of _ b2], rule exI [of _ w2], rule exI [of _ w3], rule exI [of _ m2], rule exI [of _ conf], intro conjI; assumption)
qed

lemma demo_decode:
  "pair_decode demo_pair_env ''S123456'' = Inr \<lparr>pm_magic = PAIR_MAGIC, pm_body = Spake ''123456''\<rparr>"
  "pair_decode demo_pair_env ''Iphone'' = Inr \<lparr>pm_magic = PAIR_MAGIC, pm_body = PairIdentity (replicate 32 34) (bundle_from_local [] [] ''phone'')\<rparr>"
  by (simp_all add: pair_decode_def demo_pair_env_def)

lemma demo_tag: "constant_time_eq (replicate 32 34) (confirmation_tag demo_pair_env ''123456'' ''enter-confirms'')"
proof -
  have "confirmation_tag demo_pair_env ''123456'' ''enter-confirms'' = replicate 32 34" by code_simp
  then show ?thesis by (simp add: constant_time_eq_iff)
qed

lemma demo_spake: "pe_start demo_pair_env r pin d = (pin, pin)" "pe_finish demo_pair_env st st = Inr st"
  by (simp_all add: demo_pair_env_def)

lemma demo_show_run:
  "fst (run_show_side demo_pair_env queue_server 2 0 ''123456'' (bundle_from_local [] [] ''laptop'') ([''S123456'', ''Iphone''], [])) =
     Inr \<lparr>pp_remote = bundle_from_local [] [] ''phone'', pp_record = peer_record_of (bundle_from_local [] [] ''phone'') 0\<rparr>"
proof -
  have "validate_pin ''123456'' = Inr ()" by code_simp
  then show ?thesis
    by (simp add: run_show_side_def demo_decode demo_tag demo_spake queue_server_def cong: eff_weak)
qed

theorem show_side_authenticates_witness:
  "\<exists>conf. constant_time_eq conf (confirmation_tag demo_pair_env ''123456'' ''enter-confirms'')"
proof -
  from show_side_authenticates [OF run_eq [OF demo_show_run]]
  obtain b1 w1 m1 spake key conf where h: "sv_next queue_server ([''S123456'', ''Iphone''], []) = (Inr b1, w1 :: bytes list \<times> bytes list)"
     "pair_decode demo_pair_env b1 = Inr m1" "pm_body m1 = Spake spake"
     "pe_finish demo_pair_env (fst (pe_start demo_pair_env 2 ''123456'' PROTOCOL_ID)) spake = Inr key"
     "constant_time_eq conf (confirmation_tag demo_pair_env key ''enter-confirms'')"
    by blast
  have "b1 = ''S123456''" using h(1) by (simp add: queue_server_def)
  with h(2,3) have "spake = ''123456''" by (auto simp: demo_decode)
  with h(4) have "key = ''123456''" by (simp add: demo_spake)
  with h(5) show ?thesis by blast
qed

end
