(* ===== verification/Identity.thy ===== *)
theory Identity
  imports Store_Properties Peers
begin

text \<open>
  The device identity (\<open>bypass-cli/src/sync/identity.rs\<close>) and the commands that keep it and the peer table
  in step (\<open>main.rs\<close>): rotating the identity, remembering a peer after pairing, removing one.  The
  permission bits of a file live in an extension of the file-system world.  The protobuf form of a key
  pair is a parameter, and the fresh key pair (\<open>generate_ed25519\<close>) is an argument.
\<close>

section \<open>The key file\<close>

record config_world = fs_world +
  modes :: "path \<Rightarrow> nat"

datatype load_error = IdNotFound | WidePerms nat | IdIo path io_kind | Malformed str

datatype identity_error = LoadIdentity load_error | SaveIdentity path io_kind | EncodeIdentity str | RotateNotConfirmed

text \<open>\<open>open\<close> with \<open>create_new\<close> and mode \<open>0600\<close>; a rename keeps the mode of the file it moves.\<close>

definition create_private :: "path \<Rightarrow> ('z config_world_scheme, io_kind, unit) eff" where
  "create_private p w = then_eff (create_new p w) (\<lambda>_ w. (Inr (), w\<lparr>modes := (modes w)(p := 384)\<rparr>))"

definition rename_mode :: "path \<Rightarrow> path \<Rightarrow> ('z config_world_scheme, io_kind, unit) eff" where
  "rename_mode a b w = then_eff (fs_rename a b w) (\<lambda>_ w. (Inr (), w\<lparr>modes := (modes w)(b := modes w a)\<rparr>))"

text \<open>\<open>mode & 0o777\<close> and \<open>mode & 0o077\<close> are remainders of powers of two.\<close>

definition identity_load :: "(bytes \<Rightarrow> str + 'k) \<Rightarrow> path \<Rightarrow> 'z config_world_scheme \<Rightarrow> load_error + 'k" where
  "identity_load from_pb path w =
     (case lstat w path of
        Inl NotFound \<Rightarrow> Inl IdNotFound
      | Inl e \<Rightarrow> Inl (IdIo path e)
      | Inr _ \<Rightarrow>
          (let mode = modes w path mod 512 in
           if mode mod 64 \<noteq> 0 then Inl (WidePerms mode)
           else and_then (map_err (IdIo path) (fs_read w path)) (\<lambda>b. map_err Malformed (from_pb b))))"

definition identity_tmp_name :: "str \<Rightarrow> nat \<Rightarrow> str" where
  "identity_tmp_name file process = ''.'' @ (if valid_utf8 file then file else ''identity'') @ ''.tmp.'' @ show_nat process"

text \<open>From the temporary file to the rename.\<close>

definition write_private :: "path \<Rightarrow> path \<Rightarrow> bytes \<Rightarrow> ('z config_world_scheme, identity_error, unit) eff" where
  "write_private tmp path b w =
     then_eff (map_err_st (SaveIdentity tmp) (create_private tmp w)) (\<lambda>_ w.
     then_eff (catch_eff (then_eff (write_at tmp 0 b w) (\<lambda>_. sync_all))
                 (\<lambda>e w. (Inl (SaveIdentity tmp e), snd (unlink tmp w)))) (\<lambda>_ w.
     then_eff (catch_eff (rename_mode tmp path w)
                 (\<lambda>e w. (Inl (SaveIdentity path e), snd (unlink tmp w)))) (\<lambda>_ w.
       (Inr (), w))))"

definition identity_save :: "('k \<Rightarrow> str + bytes) \<Rightarrow> path \<Rightarrow> 'k \<Rightarrow> ('z config_world_scheme, identity_error, unit) eff" where
  "identity_save to_pb path kp w =
     (let parent = butlast path in
      then_eff (map_err_st (SaveIdentity parent) (create_dir_all parent w)) (\<lambda>_ w.
      then_eff (map_err EncodeIdentity (to_pb kp), w) (\<lambda>b w.
        write_private (parent @ [identity_tmp_name (last path) (pid w)]) path b w)))"

definition load_or_generate ::
  "('k \<Rightarrow> str + bytes) \<Rightarrow> (bytes \<Rightarrow> str + 'k) \<Rightarrow> path \<Rightarrow> 'k \<Rightarrow> ('z config_world_scheme, identity_error, 'k) eff" where
  "load_or_generate to_pb from_pb path fresh w =
     (case identity_load from_pb path w of
        Inr kp \<Rightarrow> (Inr kp, w)
      | Inl IdNotFound \<Rightarrow> then_eff (identity_save to_pb path fresh w) (\<lambda>_ w. (Inr fresh, w))
      | Inl e \<Rightarrow> (Inl (LoadIdentity e), w))"

definition identity_rotate :: "('k \<Rightarrow> str + bytes) \<Rightarrow> path \<Rightarrow> 'k \<Rightarrow> ('z config_world_scheme, identity_error, 'k) eff" where
  "identity_rotate to_pb path fresh w = then_eff (identity_save to_pb path fresh w) (\<lambda>_ w. (Inr fresh, w))"

definition ensure_rotate_confirmed :: "bool \<Rightarrow> identity_error + unit" where
  "ensure_rotate_confirmed confirm = (if \<not> confirm then Inl RotateNotConfirmed else Inr ())"

section \<open>Commands on the identity and the peer table\<close>

text \<open>TOML and the place of the two files.\<close>

record 'k config_env =
  ce_to_pb :: "'k \<Rightarrow> str + bytes"
  ce_from_pb :: "bytes \<Rightarrow> str + 'k"
  ce_to_toml :: "peers \<Rightarrow> str + str"
  ce_of_toml :: "str \<Rightarrow> str + peers"
  ce_identity :: path
  ce_peers :: path

datatype config_error = IdentityFailed identity_error | PeersFailed peers_error | NoSuchPeer str

text \<open>The number of peers that were forgotten.\<close>

definition sync_identity_rotate :: "'k config_env \<Rightarrow> bool \<Rightarrow> 'k \<Rightarrow> ('z config_world_scheme, config_error, nat) eff" where
  "sync_identity_rotate E confirm fresh w =
     then_eff (map_err IdentityFailed (ensure_rotate_confirmed confirm), w) (\<lambda>_ w.
     then_eff (map_err_st IdentityFailed (identity_rotate (ce_to_pb E) (ce_identity E) fresh w)) (\<lambda>kp w.
     then_eff (map_err PeersFailed (peers_load (ce_of_toml E) (ce_peers E) w), w) (\<lambda>peers w.
       let cleared = length peers in
       then_eff (map_err_st PeersFailed (peers_save (ce_to_toml E) (peers_clear peers) (ce_peers E) w)) (\<lambda>_ w.
         (Inr cleared, w)))))"

definition persist_paired :: "'k config_env \<Rightarrow> peer_record \<Rightarrow> ('z config_world_scheme, config_error, nat) eff" where
  "persist_paired E rec w =
     then_eff (map_err PeersFailed (peers_load (ce_of_toml E) (ce_peers E) w), w) (\<lambda>peers w.
     then_eff (map_err_st PeersFailed (peers_save (ce_to_toml E) (snd (peers_upsert rec peers)) (ce_peers E) w)) (\<lambda>_ w.
       (Inr 0, w)))"

text \<open>Without \<open>--yes\<close> only the warning is printed and the exit code is 2.\<close>

definition sync_peer_rm :: "'k config_env \<Rightarrow> str \<Rightarrow> bool \<Rightarrow> ('z config_world_scheme, config_error, nat) eff" where
  "sync_peer_rm E name yes w =
     then_eff (map_err PeersFailed (peers_load (ce_of_toml E) (ce_peers E) w), w) (\<lambda>peers w.
     case peers_find_by_name name peers of
       None \<Rightarrow> (Inl (NoSuchPeer name), w)
     | Some _ \<Rightarrow>
         if \<not> yes then (Inr 2, w)
         else
           then_eff (map_err_st PeersFailed (peers_save (ce_to_toml E) (snd (peers_remove name peers)) (ce_peers E) w)) (\<lambda>_ w.
             (Inr 0, w)))"

section \<open>Saving and loading\<close>

lemma modes_off: "off_tree modes" and no_stat_free: "off_tree no_stat" and no_read_free: "off_tree no_read"
  by (simp_all add: off_tree_def)

lemma modes_update [simp]: "node_at (w\<lparr>modes := m\<rparr>) = node_at w" "is_dir (w\<lparr>modes := m\<rparr>) = is_dir w"
  by (auto simp: fun_eq_iff node_at_def is_dir_def)

lemma fs_ok_modes [simp]: "fs_ok (w\<lparr>modes := m\<rparr>) = fs_ok w"
  by (rule fs_ok_cong) simp_all

lemma dot_name_addr: "seg_addr f \<Longrightarrow> seg_addr (''.'' @ f @ ''.tmp.'' @ show_nat n) \<and> ''.'' @ f @ ''.tmp.'' @ show_nat n \<noteq> f"
  using affix_addr [of f "''.''" "''.tmp.'' @ show_nat n"] plain_nat [of n] by (simp add: plain_def byte_def)

lemma identity_tmp_addr: "seg_addr f \<Longrightarrow> seg_addr (identity_tmp_name f n) \<and> identity_tmp_name f n \<noteq> f"
  using dot_name_addr [of f n] by (simp add: identity_tmp_name_def seg_addr_def)

lemma peers_tmp_addr: "seg_addr f \<Longrightarrow> seg_addr (peers_tmp_name f n) \<and> peers_tmp_name f n \<noteq> f"
  using dot_name_addr [of f n] by (simp add: peers_tmp_name_def seg_addr_def)

text \<open>Reading stays as possible as it was: saving touches neither \<open>no_stat\<close> nor \<open>no_read\<close>.\<close>

lemma private_keeps:
  fixes g :: "'z config_world_scheme \<Rightarrow> 'b"
  assumes "off_tree g" "\<And>w m. g (w\<lparr>modes := m\<rparr>) = g w"
  shows "g (snd (create_private p w)) = g w" "g (snd (rename_mode p q w)) = g w"
  unfolding create_private_def rename_mode_def
  by (intro keep_then [where g = g]; simp add: keep_calls [OF assms(1)] assms(2))+

lemma identity_save_keeps:
  fixes g :: "'z config_world_scheme \<Rightarrow> 'b"
  assumes "off_tree g" "\<And>w m. g (w\<lparr>modes := m\<rparr>) = g w"
  shows "g (snd (identity_save to_pb path kp w)) = g w"
  unfolding identity_save_def write_private_def Let_def
  by (intro keep_then [where g = g] keep_catch [where g = g])
    (simp_all add: keep_calls [OF assms(1)] keep_create_dir_all [OF assms(1)] private_keeps [where g = g, OF assms])

lemma peers_save_keeps:
  fixes g :: "'z fs_world_scheme \<Rightarrow> 'b"
  assumes "off_tree g" shows "g (snd (peers_save to_toml ps path w)) = g w"
  unfolding peers_save_def Let_def
  by (intro keep_then [where g = g] keep_catch [where g = g])
    (simp_all add: keep_calls [OF assms] keep_create_dir_all [OF assms])

lemma private_rename_post:
  fixes v :: "'z config_world_scheme"
  assumes "fs_ok v" "node_at v tmp = Some (File b)" "list_all seg_addr path" "is_dir v (butlast path)" "tmp \<noteq> path"
  shows "eff_post (catch_eff (rename_mode tmp path v) (\<lambda>e v. (Inl (at e), snd (unlink tmp v))))
    (\<lambda>_ w. fs_ok w \<and> node_at w path = Some (File b) \<and> modes w path = modes v tmp)
    (\<lambda>_ w. fs_ok w \<and> node_at w path = node_at v path \<and> modes w path = modes v path)"
  unfolding rename_mode_def eff_post_catch eff_post_then eff_post_simps
proof (rule eff_post_mono [OF eff_post_keep [where g = modes, OF fs_rename_post [OF assms] keep_calls(6) [OF modes_off]]])
  fix e and w :: "'z config_world_scheme" assume w: "(fs_ok w \<and> node_at w = node_at v) \<and> modes w = modes v"
  then show "fs_ok (snd (unlink tmp w)) \<and> node_at (snd (unlink tmp w)) path = node_at v path \<and> modes (snd (unlink tmp w)) path = modes v path"
    using unlink_quiet [of w tmp] keep_calls(5) [OF modes_off, of tmp w] assms(5) by auto
qed simp

lemma private_write_post:
  fixes v :: "'z config_world_scheme"
  assumes "fs_ok v" "list_all seg_addr path" "is_dir v (butlast path)" "tmp \<noteq> path" "list_all seg_addr tmp"
  shows "eff_post (write_private tmp path b v)
    (\<lambda>_ w. fs_ok w \<and> node_at w path = Some (File b) \<and> modes w path = 384)
    (\<lambda>_ w. fs_ok w \<and> node_at w path = node_at v path \<and> modes w path = modes v path)"
  (is "eff_post _ ?Q ?E")
  unfolding write_private_def
proof (rule eff_post_thenI)
  show "eff_post (map_err_st (SaveIdentity tmp) (create_private tmp v))
      (\<lambda>_ u. fs_ok u \<and> node_at v tmp = None \<and> node_at u = (node_at v)(tmp \<mapsto> File []) \<and> modes u = (modes v)(tmp := 384)) ?E"
    unfolding eff_post_map_err create_private_def eff_post_then eff_post_simps
    by (rule eff_post_mono [OF eff_post_keep [where g = modes, OF create_new_post [OF assms(1,5)] keep_calls(2) [OF modes_off]]]) auto
next
  fix a and u :: "'z config_world_scheme"
  assume u: "fs_ok u \<and> node_at v tmp = None \<and> node_at u = (node_at v)(tmp \<mapsto> File []) \<and> modes u = (modes v)(tmp := 384)"
  let ?wr = "catch_eff (then_eff (write_at tmp 0 b u) (\<lambda>_. sync_all)) (\<lambda>e w. (Inl (SaveIdentity tmp e), snd (unlink tmp w)))"
  have mo: "modes (snd ?wr) = modes u"
    by (intro keep_then [where g = modes] keep_catch [where g = modes]) (simp_all add: keep_calls [OF modes_off])
  have t: "fs_ok u" "node_at u tmp = Some (File [])" using u by simp_all
  show "eff_post (then_eff ?wr (\<lambda>_ w. then_eff (catch_eff (rename_mode tmp path w) (\<lambda>e w. (Inl (SaveIdentity path e), snd (unlink tmp w)))) (\<lambda>_ w. (Inr (), w)))) ?Q ?E"
  proof (rule eff_post_thenI)
    show "eff_post ?wr (\<lambda>_ x. fs_ok x \<and> node_at x = (node_at v)(tmp \<mapsto> File b) \<and> modes x = (modes v)(tmp := 384)) ?E"
      by (rule eff_post_mono [OF eff_post_keep [where g = modes, OF write_tmp_post [where at = SaveIdentity, OF t] mo]]) (use u assms(4) in auto)
  next
    fix a and x :: "'z config_world_scheme"
    assume x: "fs_ok x \<and> node_at x = (node_at v)(tmp \<mapsto> File b) \<and> modes x = (modes v)(tmp := 384)"
    have d: "is_dir x (butlast path)" using assms(3) u x by (auto simp: is_dir_def)
    have tx: "node_at x tmp = Some (File b)" using x by simp
    show "eff_post (then_eff (catch_eff (rename_mode tmp path x) (\<lambda>e w. (Inl (SaveIdentity path e), snd (unlink tmp w)))) (\<lambda>_ w. (Inr (), w))) ?Q ?E"
      by (rule eff_post_thenI [OF eff_post_mono [OF private_rename_post [OF _ tx assms(2) d assms(4)]]])
        (use x assms(4) in \<open>auto simp: eff_post_simps\<close>)
  qed
qed

lemma identity_save_post:
  fixes w :: "'z config_world_scheme"
  assumes "fs_ok w" "list_all seg_addr path" "path \<noteq> []"
  shows "eff_post (identity_save to_pb path kp w)
    (\<lambda>_ w'. fs_ok w' \<and> modes w' path = 384 \<and> (\<exists>b. to_pb kp = Inr b \<and> node_at w' path = Some (File b)))
    (\<lambda>_ w'. fs_ok w' \<and> modes w' path = modes w path \<and> (node_at w path \<noteq> None \<longrightarrow> node_at w' path = node_at w path))"
  (is "eff_post _ ?Q ?E")
proof -
  have par: "list_all seg_addr (butlast path)" "seg_addr (last path)" using list_all_last [OF assms(2)] assms(3) by simp_all
  have tmp: "list_all seg_addr (butlast path @ [identity_tmp_name (last path) n])" "butlast path @ [identity_tmp_name (last path) n] \<noteq> path" for n
    using par identity_tmp_addr [OF par(2)] by (simp, metis last_snoc)
  note dirs = eff_post_keep [where g = modes, OF create_dir_all_post [OF assms(1) par(1)] keep_create_dir_all [OF modes_off]]
  show ?thesis
    unfolding identity_save_def Let_def eff_post_then eff_post_map_err eff_post_result
  proof (rule eff_post_mono [OF dirs])
    fix a and v :: "'z config_world_scheme" assume v: "(grown w v \<and> is_dir v (butlast path)) \<and> modes v = modes w"
    then have fv: "fs_ok v" and kept: "node_at w path \<noteq> None \<Longrightarrow> node_at v path = node_at w path"
      unfolding grown_def by metis+
    have "eff_post (write_private (butlast path @ [identity_tmp_name (last path) (pid v)]) path b v) ?Q ?E" if "to_pb kp = Inr b" for b
      by (rule eff_post_mono [OF private_write_post [OF fv assms(2) _ tmp(2,1)]]) (use v that kept in auto)
    then show "(\<forall>b. map_err EncodeIdentity (to_pb kp) = Inr b \<longrightarrow> eff_post (write_private (butlast path @ [identity_tmp_name (last path) (pid v)]) path b v) ?Q ?E) \<and>
        (\<forall>e. map_err EncodeIdentity (to_pb kp) = Inl e \<longrightarrow> ?E e v)"
      using fv v kept by auto
  qed (auto simp: grown_def)
qed

lemma peers_save_post:
  fixes w :: "'z fs_world_scheme"
  assumes "fs_ok w" "list_all seg_addr path" "path \<noteq> []"
  shows "eff_post (peers_save to_toml ps path w)
    (\<lambda>_ w'. fs_ok w' \<and> (\<exists>t. to_toml ps = Inr t \<and> node_at w' path = Some (File t)) \<and>
       (\<forall>q. q \<noteq> path \<and> node_at w q \<noteq> None \<longrightarrow> node_at w' q = node_at w q))
    (\<lambda>_ w'. fs_ok w' \<and> (node_at w path \<noteq> None \<longrightarrow> node_at w' path = node_at w path))"
  (is "eff_post _ ?Q ?E")
proof -
  have par: "list_all seg_addr (butlast path)" "seg_addr (last path)" using list_all_last [OF assms(2)] assms(3) by simp_all
  have kept: "node_at w q \<noteq> None \<Longrightarrow> node_at v q = node_at w q" if "grown w v" for v q
    using that unfolding grown_def by metis
  show ?thesis
  proof (cases "to_toml ps")
    case (Inl e)
    have "?E err v" if "grown w v" for err v
      using kept [OF that, of path] that unfolding grown_def by blast
    with Inl show ?thesis
      unfolding peers_save_def Let_def eff_post_then eff_post_map_err eff_post_result
      by (intro eff_post_mono [OF create_dir_all_post [OF assms(1) par(1)]]) simp_all
  next
    case (Inr t)
    let ?tmp = "\<lambda>w :: 'z fs_world_scheme. butlast path @ [peers_tmp_name (last path) (pid w)]"
    have name: "\<exists>x. ?tmp v = butlast path @ [x] \<and> seg_addr x \<and> x \<noteq> last path" for v
      using peers_tmp_addr [OF par(2)] by blast
    have ne: "path \<noteq> ?tmp v" for v using peers_tmp_addr [OF par(2), of "pid v"] by (metis last_snoc)
    show ?thesis
      unfolding peers_save_def Let_def Inr map_err_simps then_eff_simps
    proof (rule eff_post_mono [OF atomic_write_post [where at = PeersIo, OF assms name]], goal_cases)
      case (1 a w')
      then obtain v where v: "grown w v" "node_at w' = (node_at v)(path \<mapsto> File t)" by blast
      with 1 Inr kept [OF v(1)] show ?case by simp
    next
      case (2 e w')
      then obtain v where v: "grown w v" "\<forall>q. node_at w' q = node_at v q \<or> (\<exists>u. q = ?tmp u) \<and> file_or_none (node_at w' q)" by blast
      then have "node_at w' path = node_at v path" using ne by metis
      with 2 kept [OF v(1), of path] show ?case by simp
    qed
  qed
qed

text \<open>The formats round-trip, and the two files are different ordinary paths that can be read.\<close>

definition config_sound :: "'k config_env \<Rightarrow> bool" where
  "config_sound E \<longleftrightarrow>
     (\<forall>k b. ce_to_pb E k = Inr b \<longrightarrow> ce_from_pb E b = Inr k) \<and>
     (\<forall>ps t. ce_to_toml E ps = Inr t \<longrightarrow> valid_utf8 t \<and> ce_of_toml E t = Inr ps) \<and>
     list_all seg_addr (ce_identity E) \<and> list_all seg_addr (ce_peers E) \<and>
     ce_identity E \<noteq> [] \<and> ce_peers E \<noteq> [] \<and> ce_identity E \<noteq> ce_peers E"

lemma config_sound_formats:
  "config_sound E \<Longrightarrow> ce_to_pb E k = Inr b \<Longrightarrow> ce_from_pb E b = Inr k"
  "config_sound E \<Longrightarrow> ce_to_toml E ps = Inr t \<Longrightarrow> valid_utf8 t \<and> ce_of_toml E t = Inr ps"
  unfolding config_sound_def by blast+

definition readable :: "'z fs_world_scheme \<Rightarrow> path \<Rightarrow> bool" where
  "readable w p \<longleftrightarrow> \<not> no_stat w p \<and> \<not> no_read w p"

lemma fs_read_file: "readable w p \<Longrightarrow> node_at w p = Some (File b) \<Longrightarrow> fs_read w p = Inr b"
  by (simp add: fs_read_def readable_def lstat_def)

lemma identity_load_saved:
  assumes "readable w p" "node_at w p = Some (File b)" "modes w p = 384" "from_pb b = Inr k"
  shows "identity_load from_pb p w = Inr k"
  using assms fs_read_file [OF assms(1,2)] by (simp add: identity_load_def lstat_def readable_def)

lemma peers_load_saved:
  assumes "readable w p" "node_at w p = Some (File t)" "valid_utf8 t" "of_toml t = Inr ps"
  shows "peers_load of_toml p w = Inr ps"
  using assms(3,4) fs_read_file [OF assms(1,2)] by (simp add: peers_load_def from_utf8_def del: valid_utf8.simps)

lemma readable_saved:
  fixes w :: "'z config_world_scheme" and v :: "'y fs_world_scheme"
  shows "readable (snd (identity_save to_pb p k w)) q = readable w q" "readable (snd (peers_save to_toml ps p v)) q = readable v q"
  by (simp_all add: readable_def identity_save_keeps [where g = no_stat, OF no_stat_free] identity_save_keeps [where g = no_read, OF no_read_free]
      peers_save_keeps [where g = no_stat, OF no_stat_free] peers_save_keeps [where g = no_read, OF no_read_free])

section \<open>Properties\<close>

text \<open>The identity is stable: once \<open>load_or_generate\<close> has returned a key pair, every later call returns
  the same one and changes nothing, whatever fresh key it is offered; and a key it created is readable by
  the owner only.\<close>

lemma identity_stable:
  fixes w :: "'z config_world_scheme"
  assumes "config_sound E" "fs_ok w" "readable w (ce_identity E)"
    and "load_or_generate (ce_to_pb E) (ce_from_pb E) (ce_identity E) fresh w = (Inr kp, w')"
  shows "load_or_generate (ce_to_pb E) (ce_from_pb E) (ce_identity E) other w' = (Inr kp, w') \<and> modes w' (ce_identity E) mod 64 = 0"
proof (cases "identity_load (ce_from_pb E) (ce_identity E) w")
  case (Inr k)
  then have "k = kp" "w' = w" using assms(4) by (simp_all add: load_or_generate_def)
  moreover have "modes w (ce_identity E) mod 64 = 0"
    using Inr by (auto simp: identity_load_def Let_def mod_mod_cancel split: sum.splits io_kind.splits if_splits)
  ultimately show ?thesis using Inr by (simp add: load_or_generate_def)
next
  case (Inl e)
  then have sv: "identity_save (ce_to_pb E) (ce_identity E) fresh w = (Inr (), w')" "kp = fresh"
    using assms(4) by (auto simp: load_or_generate_def then_eff_Inr_iff split: load_error.splits)
  have p: "list_all seg_addr (ce_identity E)" "ce_identity E \<noteq> []" using assms(1) by (simp_all add: config_sound_def)
  from eff_postD [OF identity_save_post [OF assms(2) p] sv(1)]
  obtain b where b: "ce_to_pb E fresh = Inr b" "node_at w' (ce_identity E) = Some (File b)" "modes w' (ce_identity E) = 384" by blast
  have "readable w' (ce_identity E)" using readable_saved(1) [of "ce_to_pb E" "ce_identity E" fresh w] sv(1) assms(3) by simp
  from identity_load_saved [where from_pb = "ce_from_pb E", OF this b(2,3) config_sound_formats(1) [OF assms(1) b(1)]] b(3) sv(2) show ?thesis
    by (simp add: load_or_generate_def)
qed

text \<open>C17. Rotating the identity forgets every peer: when the command succeeds it was confirmed, the new key
  is on disk in a file for the owner only, and the peer table loads as empty; without the confirmation
  nothing is touched.\<close>

theorem rotation_forgets_peers:
  fixes w :: "'z config_world_scheme"
  assumes "config_sound E" "fs_ok w" "readable w (ce_identity E)" "readable w (ce_peers E)"
    and "sync_identity_rotate E confirm fresh w = (r, w')"
  shows "(\<not> confirm \<longrightarrow> w' = w \<and> r = Inl (IdentityFailed RotateNotConfirmed)) \<and>
    (\<forall>n. r = Inr n \<longrightarrow> identity_load (ce_from_pb E) (ce_identity E) w' = Inr fresh \<and> modes w' (ce_identity E) = 384 \<and>
       peers_load (ce_of_toml E) (ce_peers E) w' = Inr [])"
proof (intro conjI allI impI)
  assume "\<not> confirm"
  then show "w' = w" "r = Inl (IdentityFailed RotateNotConfirmed)"
    using assms(5) by (simp_all add: sync_identity_rotate_def ensure_rotate_confirmed_def)
next
  fix n assume "r = Inr n"
  then obtain w1 ps where s: "identity_save (ce_to_pb E) (ce_identity E) fresh w = (Inr (), w1)"
      "peers_save (ce_to_toml E) (peers_clear ps) (ce_peers E) w1 = (Inr (), w')"
    using assms(5) by (auto simp: sync_identity_rotate_def identity_rotate_def then_eff_Inr_iff Let_def)
  have p: "list_all seg_addr (ce_identity E)" "ce_identity E \<noteq> []" "list_all seg_addr (ce_peers E)" "ce_peers E \<noteq> []" "ce_identity E \<noteq> ce_peers E"
    using assms(1) by (simp_all add: config_sound_def)
  from eff_postD [OF identity_save_post [OF assms(2) p(1,2)] s(1)]
  obtain b where b: "fs_ok w1" "ce_to_pb E fresh = Inr b" "node_at w1 (ce_identity E) = Some (File b)" "modes w1 (ce_identity E) = 384" by blast
  from eff_postD [OF peers_save_post [OF b(1) p(3,4)] s(2)]
  obtain t where t: "ce_to_toml E [] = Inr t" "node_at w' (ce_peers E) = Some (File t)" "node_at w' (ce_identity E) = Some (File b)"
    using b(3) p(5) by (auto simp: peers_clear_def)
  have rd: "readable w' (ce_identity E)" "readable w' (ce_peers E)"
    using readable_saved(1) [of "ce_to_pb E" "ce_identity E" fresh w] readable_saved(2) [of "ce_to_toml E" "peers_clear ps" "ce_peers E" w1] s assms(3,4)
    by simp_all
  have mo: "modes w' (ce_identity E) = 384"
    using peers_save_keeps [where g = modes, OF modes_off, of "ce_to_toml E" "peers_clear ps" "ce_peers E" w1] s(2) b(4) by simp
  then show "modes w' (ce_identity E) = 384" .
  show "identity_load (ce_from_pb E) (ce_identity E) w' = Inr fresh"
    by (rule identity_load_saved [where from_pb = "ce_from_pb E", OF rd(1) t(3) mo config_sound_formats(1) [OF assms(1) b(2)]])
  show "peers_load (ce_of_toml E) (ce_peers E) w' = Inr []"
    using peers_load_saved [OF rd(2) t(2)] config_sound_formats(2) [OF assms(1) t(1)] by blast
qed

text \<open>Pairing is remembered or nothing happens: when storing a paired device succeeds, the table on disk
  then finds exactly the new record for its id and what it found before for every other id; on an error
  an existing table loads as before.\<close>

lemma pairing_remembered:
  fixes w :: "'z config_world_scheme"
  assumes "config_sound E" "fs_ok w" "readable w (ce_peers E)" "node_at w (ce_peers E) = Some (File old)"
    and "peers_load (ce_of_toml E) (ce_peers E) w = Inr ps" "ids_distinct ps"
    and "persist_paired E rec w = (r, w')"
  shows "case r of
      Inr n \<Rightarrow> n = 0 \<and> (\<exists>ps'. peers_load (ce_of_toml E) (ce_peers E) w' = Inr ps' \<and> ids_distinct ps' \<and>
        (\<forall>i. peers_find i ps' = (if i = pr_peer_id rec then Some rec else peers_find i ps)))
    | Inl e \<Rightarrow> peers_load (ce_of_toml E) (ce_peers E) w' = Inr ps"
proof -
  let ?new = "snd (peers_upsert rec ps)"
  obtain r' where sv: "peers_save (ce_to_toml E) ?new (ce_peers E) w = (r', w')" "r = map_err PeersFailed (map_sum id (\<lambda>_. 0) r')"
  proof -
    obtain r' v where "peers_save (ce_to_toml E) ?new (ce_peers E) w = (r', v)" by (cases "peers_save (ce_to_toml E) ?new (ce_peers E) w")
    with assms(5,7) show thesis by (cases r') (auto simp: persist_paired_def intro: that)
  qed
  have p: "list_all seg_addr (ce_peers E)" "ce_peers E \<noteq> []" using assms(1) by (simp_all add: config_sound_def)
  have rd: "readable w' (ce_peers E)" using readable_saved(2) [of "ce_to_toml E" ?new "ce_peers E" w] sv(1) assms(3) by simp
  note post = peers_save_post [OF assms(2) p, of "ce_to_toml E" ?new]
  show ?thesis
  proof (cases r')
    case (Inl e)
    then have "node_at w' (ce_peers E) = Some (File old)" using eff_postD_err [OF post] sv(1) assms(4) by auto
    then have "fs_read w' (ce_peers E) = fs_read w (ce_peers E)" using rd assms(3,4) by (simp add: fs_read_file)
    then show ?thesis using sv(2) Inl assms(5) by (simp add: peers_load_def)
  next
    case (Inr u)
    then obtain t where t: "ce_to_toml E ?new = Inr t" "node_at w' (ce_peers E) = Some (File t)"
      using eff_postD [OF post] sv(1) by auto
    then have "peers_load (ce_of_toml E) (ce_peers E) w' = Inr ?new"
      using peers_load_saved [OF rd t(2)] config_sound_formats(2) [OF assms(1) t(1)] by blast
    then show ?thesis using sv(2) Inr upsert_pins [OF assms(6), of rec] by simp
  qed
qed

section \<open>Examples\<close>

text \<open>A configuration directory with a peer table of one device and no identity yet.\<close>

definition phone :: peer_record where
  "phone = \<lparr>pr_name = ''phone'', pr_peer_id = ''12D3'', pr_noise_key = ''00'', pr_paired_at = ''t0''\<rparr>"

definition desk :: peer_record where
  "desk = \<lparr>pr_name = ''desk'', pr_peer_id = ''12D4'', pr_noise_key = ''01'', pr_paired_at = ''t1''\<rparr>"

definition demo_table :: "peers \<Rightarrow> str + str" where
  "demo_table ps = (if ps = [] then Inr ''0'' else if ps = [phone] then Inr ''1'' else if ps = [phone, desk] then Inr ''2'' else Inl ''no'')"

definition demo_untable :: "str \<Rightarrow> str + peers" where
  "demo_untable s = (if s = ''0'' then Inr [] else if s = ''1'' then Inr [phone] else if s = ''2'' then Inr [phone, desk] else Inl ''no'')"

definition demo_config_env :: "str config_env" where
  "demo_config_env = \<lparr>ce_to_pb = Inr, ce_from_pb = Inr, ce_to_toml = demo_table, ce_of_toml = demo_untable,
     ce_identity = [''identity.key''], ce_peers = [''peers.toml'']\<rparr>"

definition demo_config :: config_world where
  "demo_config = \<lparr>tree = [([], Dir), ([''peers.toml''], File ''1'')], no_stat = (\<lambda>_. False), no_read = (\<lambda>_. False), faults = (\<lambda>_. None),
     tick = 0, pid = 7, nanos = (\<lambda>n. n), entropy = (\<lambda>n. CHR ''x''), drawn = 0, modes = (\<lambda>_. 420)\<rparr>"

lemma demo_config_env_simps [simp]:
  "ce_to_pb demo_config_env = Inr" "ce_from_pb demo_config_env = Inr" "ce_to_toml demo_config_env = demo_table" "ce_of_toml demo_config_env = demo_untable"
  "ce_identity demo_config_env = [''identity.key'']" "ce_peers demo_config_env = [''peers.toml'']"
  by (simp_all add: demo_config_env_def)

lemma demo_config_simps:
  "tree demo_config = [([], Dir), ([''peers.toml''], File ''1'')]" "no_stat demo_config = (\<lambda>_. False)" "no_read demo_config = (\<lambda>_. False)"
  "faults demo_config = (\<lambda>_. None)" "tick demo_config = 0" "pid demo_config = 7" "modes demo_config = (\<lambda>_. 420)"
  by (simp_all add: demo_config_def)

lemma demo_config_sound: "config_sound demo_config_env"
proof -
  have v: "valid_utf8 ''0''" "valid_utf8 ''1''" "valid_utf8 ''2''" "list_all seg_addr [''identity.key'']" "list_all seg_addr [''peers.toml'']" by code_simp+
  have "phone \<noteq> desk" by (simp add: phone_def desk_def)
  with v show ?thesis by (auto simp: config_sound_def demo_table_def demo_untable_def split: if_splits simp del: valid_utf8.simps)
qed

lemma demo_config_ok: "fs_ok demo_config" "readable demo_config p"
  by (code_simp, simp add: readable_def demo_config_simps)

lemma demo_names: "identity_tmp_name ''identity.key'' 7 = ''.identity.key.tmp.7''" "peers_tmp_name ''peers.toml'' 7 = ''.peers.toml.tmp.7''"
  "from_utf8 ''1'' = Some ''1''"
  by code_simp+

lemmas config_run = identity_load_def identity_save_def write_private_def create_private_def rename_mode_def fs_run demo_config_simps demo_names

lemma demo_generate: "fst (load_or_generate Inr Inr [''identity.key''] ''k1'' demo_config) = Inr ''k1''"
  by (simp add: load_or_generate_def config_run cong: run_weak)

lemma demo_rotate: "fst (sync_identity_rotate demo_config_env True ''k9'' demo_config) = Inr 1"
  by (simp add: sync_identity_rotate_def identity_rotate_def ensure_rotate_confirmed_def peers_load_def peers_save_def peers_clear_def
      demo_table_def demo_untable_def config_run cong: run_weak)

theorem rotation_forgets_peers_witness:
  "\<exists>w'. sync_identity_rotate demo_config_env True ''k9'' demo_config = (Inr 1, w') \<and>
     peers_load demo_untable [''peers.toml''] demo_config = Inr [phone] \<and> peers_load demo_untable [''peers.toml''] w' = Inr []"
proof -
  have "peers_load demo_untable [''peers.toml''] demo_config = Inr [phone]"
    by (simp add: peers_load_def demo_untable_def config_run)
  then show ?thesis
    using rotation_forgets_peers [OF demo_config_sound demo_config_ok(1,2,2) run_eq [OF demo_rotate]] run_eq [OF demo_rotate] by auto
qed

lemma demo_persist: "fst (persist_paired demo_config_env desk demo_config) = Inr 0"
proof -
  have "snd (peers_upsert desk [phone]) = [phone, desk]" "[phone, desk] \<noteq> [phone]" by (simp_all add: peers_upsert_def phone_def desk_def)
  then show ?thesis
    by (simp add: persist_paired_def peers_load_def peers_save_def demo_table_def demo_untable_def config_run cong: run_weak)
qed

end
