(* ===== verification/Pair_Command.thy ===== *)
theory Pair_Command
  imports Pairing Identity
begin

text \<open>
  \<open>bypass sync pair\<close> (\<open>main.rs\<close>): the two sides of the command around the pairing protocol, from the device
  identity to the peer table.  The state is the network beside the file system of the configuration; the
  transport, multiaddresses and standard input are parameters.  Pauses and messages are left out; the PIN and the addresses
  the show side prints are given with a success (it prints them before the protocol, whatever comes after).
\<close>

section \<open>The command\<close>

text \<open>The libp2p transport: starting it on an address, dialling, and the two uses the protocol makes of it.\<close>

record ('n, 'k, 'a, 'p) pair_net =
  pn_parse :: "str \<Rightarrow> str + 'a"
  pn_any :: 'a                                        \<comment> \<open>\<open>/ip4/0.0.0.0/tcp/0\<close>\<close>
  pn_p2p :: "'a \<Rightarrow> 'p option"                         \<comment> \<open>the peer id in an address\<close>
  pn_start :: "'k \<Rightarrow> 'a \<Rightarrow> ('n, str, 'a list) eff"      \<comment> \<open>the addresses it came to listen on\<close>
  pn_dial :: "'p \<Rightarrow> 'a \<Rightarrow> ('n, str, unit) eff"
  pn_server :: "'n server"
  pn_request :: "'p \<Rightarrow> bytes \<Rightarrow> ('n, str, bytes) eff"

record ('k, 'a) pair_input =
  pi_config :: "'k config_env"
  pi_bundle :: "'k \<Rightarrow> str \<Rightarrow> identity_bundle"
  pi_fresh :: 'k                                      \<comment> \<open>the key pair \<open>generate_ed25519\<close> would give\<close>
  pi_hostname :: "str option"
  pi_stdin :: "str + str"                             \<comment> \<open>\<open>read_line\<close>\<close>
  pi_random :: nat
  pi_now :: nat

datatype pair_cmd_error =
    ShowXorEnter
  | IdentityUnusable identity_error
  | NeedsAddr
  | BadMultiaddr str str
  | NoPeerInAddr
  | TransportFailed str
  | ReadPin str
  | PairFailed pairing_error
  | PersistFailed config_error

datatype 'a pair_out = Pin str | Listening "'a list"

type_synonym ('n, 'z, 'b) pair_op = "('n \<times> 'z config_world_scheme, pair_cmd_error, 'b) eff"

text \<open>An effect on one half of the state.\<close>

definition on_net :: "('n, 'e, 'b) eff \<Rightarrow> ('n \<times> 'c, 'e, 'b) eff" where
  "on_net f s = (case f (fst s) of (r, n) \<Rightarrow> (r, (n, snd s)))"

definition on_config :: "('c, 'e, 'b) eff \<Rightarrow> ('n \<times> 'c, 'e, 'b) eff" where
  "on_config f s = (case f (snd s) of (r, c) \<Rightarrow> (r, (fst s, c)))"

definition default_device_name :: "str option \<Rightarrow> str" where
  "default_device_name hostname = unwrap_or ''bypass-device'' hostname"

definition prompt_for_pin :: "str + str \<Rightarrow> pair_cmd_error + str" where
  "prompt_for_pin stdin = and_then (map_err ReadPin stdin) (\<lambda>buf. Inr (trim buf))"

definition run_pair_show ::
  "'s pair_env \<Rightarrow> ('n, 'k, 'a, 'p) pair_net \<Rightarrow> ('k, 'a) pair_input \<Rightarrow> 'k \<Rightarrow> str option \<Rightarrow> str \<Rightarrow> ('n, 'z, nat \<times> 'a pair_out list) pair_op" where
  "run_pair_show env T I kp maddr name s =
     then_eff (case maddr of Some a \<Rightarrow> map_err (BadMultiaddr a) (pn_parse T a) | None \<Rightarrow> Inr (pn_any T), s) (\<lambda>listen s.
     then_eff (map_err_st TransportFailed (on_net (pn_start T kp listen) s)) (\<lambda>addrs s.
     let pin = generate_pin (pi_random I) in
     then_eff (map_err_st PairFailed (on_net (run_show_side env (pn_server T) (pi_random I) (pi_now I) pin (pi_bundle I kp name)) s)) (\<lambda>paired s.
     then_eff (map_err_st PersistFailed (on_config (persist_paired (pi_config I) (pp_record paired)) s)) (\<lambda>exit s.
       (Inr (exit, [Pin pin, Listening addrs]), s)))))"

definition run_pair_enter ::
  "'s pair_env \<Rightarrow> ('n, 'k, 'a, 'p) pair_net \<Rightarrow> ('k, 'a) pair_input \<Rightarrow> 'k \<Rightarrow> str \<Rightarrow> str \<Rightarrow> ('n, 'z, nat \<times> 'a pair_out list) pair_op" where
  "run_pair_enter env T I kp addr_str name s =
     then_eff (map_err (BadMultiaddr addr_str) (pn_parse T addr_str), s) (\<lambda>full_addr s.
     case pn_p2p T full_addr of
       None \<Rightarrow> (Inl NoPeerInAddr, s)
     | Some peer \<Rightarrow>
         then_eff (map_err_st TransportFailed (on_net (pn_start T kp (pn_any T)) s)) (\<lambda>_ s.
         then_eff (map_err_st TransportFailed (on_net (pn_dial T peer full_addr) s)) (\<lambda>_ s.
         then_eff (prompt_for_pin (pi_stdin I), s) (\<lambda>pin s.
         then_eff (map_err PairFailed (validate_pin pin), s) (\<lambda>_ s.
         then_eff (map_err_st PairFailed (on_net (run_enter_side env (pn_request T peer) (pi_random I) (pi_now I) pin (pi_bundle I kp name)) s)) (\<lambda>paired s.
         then_eff (map_err_st PersistFailed (on_config (persist_paired (pi_config I) (pp_record paired)) s)) (\<lambda>exit s.
           (Inr (exit, []), s))))))))"

definition sync_pair ::
  "'s pair_env \<Rightarrow> ('n, 'k, 'a, 'p) pair_net \<Rightarrow> ('k, 'a) pair_input \<Rightarrow> bool \<Rightarrow> bool \<Rightarrow> str option \<Rightarrow> str option \<Rightarrow>
    ('n, 'z, nat \<times> 'a pair_out list) pair_op" where
  "sync_pair env T I show_pin enter name maddr s =
     (if show_pin = enter then (Inl ShowXorEnter, s)
      else
        then_eff (map_err_st IdentityUnusable (on_config
            (load_or_generate (ce_to_pb (pi_config I)) (ce_from_pb (pi_config I)) (ce_identity (pi_config I)) (pi_fresh I)) s)) (\<lambda>kp s.
          let local_name = (case name of Some n \<Rightarrow> n | None \<Rightarrow> default_device_name (pi_hostname I)) in
          if show_pin then run_pair_show env T I kp maddr local_name s
          else (case maddr of
              None \<Rightarrow> (Inl NeedsAddr, s)
            | Some a \<Rightarrow> run_pair_enter env T I kp a local_name s)))"

section \<open>Lemmas\<close>

text \<open>How a successful run got its record: the protocol of the side that ran, for the PIN of that side.\<close>

definition agreed ::
  "'s pair_env \<Rightarrow> ('n, 'k, 'a, 'p) pair_net \<Rightarrow> ('k, 'a) pair_input \<Rightarrow> bool \<Rightarrow> str option \<Rightarrow> identity_bundle \<Rightarrow> paired_peer \<Rightarrow> bool" where
  "agreed env T I show_pin maddr bundle p \<longleftrightarrow>
     (if show_pin then
        (\<exists>n n'. run_show_side env (pn_server T) (pi_random I) (pi_now I) (generate_pin (pi_random I)) bundle n = (Inr p, n'))
      else
        (\<exists>a full peer line n n'. maddr = Some a \<and> pn_parse T a = Inr full \<and> pn_p2p T full = Some peer \<and> pi_stdin I = Inr line \<and>
           validate_pin (trim line) = Inr () \<and>
           run_enter_side env (pn_request T peer) (pi_random I) (pi_now I) (trim line) bundle n = (Inr p, n')))"

text \<open>On every way out the configuration is as it was, or a record the protocol agreed on was stored or failed
  to be.\<close>

definition settled ::
  "'s pair_env \<Rightarrow> ('n, 'k, 'a, 'p) pair_net \<Rightarrow> ('k, 'a) pair_input \<Rightarrow> bool \<Rightarrow> str option \<Rightarrow> identity_bundle \<Rightarrow>
    'z config_world_scheme \<Rightarrow> pair_cmd_error + nat \<times> 'a pair_out list \<Rightarrow> 'z config_world_scheme \<Rightarrow> bool" where
  "settled env T I show_pin maddr bundle c r c' \<longleftrightarrow>
     (case r of
        Inl e \<Rightarrow> c' = c \<or> (\<exists>(p :: paired_peer) q. persist_paired (pi_config I) (pp_record p) c = (Inl q, c'))
      | Inr (exit, _) \<Rightarrow> (\<exists>p. agreed env T I show_pin maddr bundle p \<and> persist_paired (pi_config I) (pp_record p) c = (Inr exit, c')))"

lemma run_pair_show_settled:
  "run_pair_show env T I kp maddr name (n, c) = (r, (n', c')) \<Longrightarrow> settled env T I True maddr (pi_bundle I kp name) c r c'"
  by (auto simp: run_pair_show_def then_eff_def on_net_def on_config_def map_err_st_def map_err_def Let_def settled_def agreed_def
      split: prod.splits sum.splits)

lemma run_pair_enter_settled:
  "run_pair_enter env T I kp a name (n, c) = (r, (n', c')) \<Longrightarrow> settled env T I False (Some a) (pi_bundle I kp name) c r c'"
  by (auto simp: run_pair_enter_def then_eff_def on_net_def on_config_def map_err_st_def map_err_def Let_def settled_def agreed_def
      prompt_for_pin_def and_then_def split: prod.splits sum.splits option.splits)

section \<open>Property\<close>

text \<open>C16. Pairing pins exactly the peer that proved the PIN, or nothing: on a device with an identity and a peer
  table, when \<open>sync pair\<close> succeeds, one side was asked for, its protocol returned a peer for the PIN of
  that side (the one generated and shown, or the trimmed line that was typed, asked of the peer named in
  the address), and the table on disk then finds that peer's record for its id and for every other id
  what it found before; when it fails, the table loads as before.\<close>

theorem pairing_pins_peer:
  assumes "sync_pair env T I show_pin enter name maddr (n, c) = (r, (n', c'))"
    and "config_sound (pi_config I)" "fs_ok c" "readable c (ce_peers (pi_config I))" "node_at c (ce_peers (pi_config I)) = Some (File old)"
    and "peers_load (ce_of_toml (pi_config I)) (ce_peers (pi_config I)) c = Inr ps" "ids_distinct ps"
    and "identity_load (ce_from_pb (pi_config I)) (ce_identity (pi_config I)) c = Inr kp"
  shows "case r of
      Inl _ \<Rightarrow> peers_load (ce_of_toml (pi_config I)) (ce_peers (pi_config I)) c' = Inr ps
    | Inr (exit, _) \<Rightarrow> exit = 0 \<and> show_pin \<noteq> enter \<and>
        (\<exists>p ps'. agreed env T I show_pin maddr (pi_bundle I kp (unwrap_or (default_device_name (pi_hostname I)) name)) p \<and>
           peers_load (ce_of_toml (pi_config I)) (ce_peers (pi_config I)) c' = Inr ps' \<and> ids_distinct ps' \<and>
           (\<forall>i. peers_find i ps' = (if i = pr_peer_id (pp_record p) then Some (pp_record p) else peers_find i ps)))"
proof -
  let ?name = "unwrap_or (default_device_name (pi_hostname I)) name"
  have nm: "(case name of None \<Rightarrow> default_device_name (pi_hostname I) | Some x \<Rightarrow> x) = ?name" by (simp add: unwrap_or_def)
  have id: "on_config (load_or_generate (ce_to_pb (pi_config I)) (ce_from_pb (pi_config I)) (ce_identity (pi_config I)) (pi_fresh I)) (n, c) = (Inr kp, (n, c))"
    using assms(8) by (simp add: on_config_def load_or_generate_def)
  have "(c' = c \<and> isl r) \<or> (show_pin \<noteq> enter \<and> settled env T I show_pin maddr (pi_bundle I kp ?name) c r c')"
  proof (cases "show_pin = enter")
    case True
    then show ?thesis using assms(1) by (auto simp: sync_pair_def)
  next
    case False
    have run: "(if show_pin then run_pair_show env T I kp maddr ?name (n, c)
        else (case maddr of None \<Rightarrow> (Inl NeedsAddr, (n, c)) | Some a \<Rightarrow> run_pair_enter env T I kp a ?name (n, c))) = (r, (n', c'))"
      using assms(1) False by (simp only: sync_pair_def id nm if_False map_err_st_simps then_eff_simps Let_def)
    show ?thesis
    proof (cases show_pin)
      case True
      then show ?thesis using run False run_pair_show_settled [of env T I kp maddr ?name n c r n' c'] by simp
    next
      case enters: False
      then show ?thesis using run False run_pair_enter_settled [of env T I kp _ ?name n c r n' c'] by (cases maddr) auto
    qed
  qed
  then show ?thesis
  proof (elim disjE conjE)
    assume "show_pin \<noteq> enter" and st: "settled env T I show_pin maddr (pi_bundle I kp ?name) c r c'"
    note rem = pairing_remembered [OF assms(2-7)]
    show ?thesis
    proof (cases r)
      case (Inl e)
      then show ?thesis using st assms(6) rem by (fastforce simp: settled_def)
    next
      case (Inr x)
      then obtain p where "agreed env T I show_pin maddr (pi_bundle I kp ?name) p" "persist_paired (pi_config I) (pp_record p) c = (Inr (fst x), c')"
        using st by (auto simp: settled_def split: prod.splits)
      then show ?thesis using rem [of "pp_record p" "Inr (fst x)" c'] \<open>show_pin \<noteq> enter\<close> Inr by (auto split: prod.split)
    qed
  qed (use assms(6) in \<open>cases r; simp\<close>)
qed

section \<open>Example\<close>

text \<open>A device with one peer enters the PIN shown by a second one, whose two replies are scripted.\<close>

definition laptop_record :: peer_record where
  "laptop_record = peer_record_of (bundle_from_local [] [] ''laptop'') 0"

definition pair_table :: "peers \<Rightarrow> str + str" where
  "pair_table ps = (if ps = [phone] then Inr ''1'' else if ps = [phone, laptop_record] then Inr ''2'' else Inl ''no'')"

definition pair_untable :: "str \<Rightarrow> str + peers" where
  "pair_untable s = (if s = ''1'' then Inr [phone] else if s = ''2'' then Inr [phone, laptop_record] else Inl ''no'')"

definition pair_config :: "str config_env" where
  "pair_config = \<lparr>ce_to_pb = Inr, ce_from_pb = Inr, ce_to_toml = pair_table, ce_of_toml = pair_untable,
     ce_identity = [''identity.key''], ce_peers = [''peers.toml'']\<rparr>"

definition paired_before :: config_world where
  "paired_before = demo_config\<lparr>tree := [([], Dir), ([''identity.key''], File ''k1''), ([''peers.toml''], File ''1'')], modes := (\<lambda>_. 384)\<rparr>"

definition scripted_net :: "(nat, str, str, str) pair_net" where
  "scripted_net = \<lparr>pn_parse = Inr, pn_any = [], pn_p2p = Some, pn_start = (\<lambda>_ _ n. (Inr [], n)), pn_dial = (\<lambda>_ _ n. (Inr (), n)),
     pn_server = \<lparr>sv_next = (\<lambda>n. (Inl [], n)), sv_reply = (\<lambda>_ n. n)\<rparr>,
     pn_request = (\<lambda>_ b n. (Inr (if n = 0 then ''A123456'' else ''Klaptop''), n + 1))\<rparr>"

definition typed_pin :: "(str, str) pair_input" where
  "typed_pin = \<lparr>pi_config = pair_config, pi_bundle = (\<lambda>k. bundle_from_local k []), pi_fresh = [], pi_hostname = None,
     pi_stdin = Inr (''123456'' @ [NL]), pi_random = 0, pi_now = 0\<rparr>"

lemma pair_config_simps [simp]:
  "ce_to_pb pair_config = Inr" "ce_from_pb pair_config = Inr" "ce_to_toml pair_config = pair_table" "ce_of_toml pair_config = pair_untable"
  "ce_identity pair_config = [''identity.key'']" "ce_peers pair_config = [''peers.toml'']"
  by (simp_all add: pair_config_def)

lemma phone_not_laptop: "phone \<noteq> laptop_record"
  by (simp add: phone_def laptop_record_def peer_record_of_def bundle_from_local_def)

lemma pair_config_sound: "config_sound pair_config"
proof -
  have v: "valid_utf8 ''1''" "valid_utf8 ''2''" "list_all seg_addr [''identity.key'']" "list_all seg_addr [''peers.toml'']" by code_simp+
  with phone_not_laptop show ?thesis
    by (auto simp: config_sound_def pair_table_def pair_untable_def split: if_splits simp del: valid_utf8.simps)
qed

lemma paired_before_ok: "fs_ok paired_before" "readable paired_before p" "node_at paired_before [''peers.toml''] = Some (File ''1'')"
  by (code_simp, simp add: readable_def paired_before_def demo_config_simps, code_simp)

lemma paired_before_simps:
  "tree paired_before = [([], Dir), ([''identity.key''], File ''k1''), ([''peers.toml''], File ''1'')]" "no_stat paired_before = (\<lambda>_. False)"
  "no_read paired_before = (\<lambda>_. False)" "faults paired_before = (\<lambda>_. None)" "tick paired_before = 0" "pid paired_before = 7"
  "modes paired_before = (\<lambda>_. 384)"
  by (simp_all add: paired_before_def demo_config_simps)

lemma paired_before_loads:
  "peers_load pair_untable [''peers.toml''] paired_before = Inr [phone]"
  "identity_load Inr [''identity.key''] paired_before = Inr ''k1''"
  by (simp_all add: peers_load_def pair_untable_def config_run paired_before_simps)

lemma demo_enter:
  "run_enter_side demo_pair_env (pn_request scripted_net ''/p2p/b'') 0 0 ''123456'' local 0 =
     (Inr \<lparr>pp_remote = bundle_from_local [] [] ''laptop'', pp_record = laptop_record\<rparr>, 2)"
proof -
  have "validate_pin ''123456'' = Inr ()" by code_simp
  moreover have "constant_time_eq (replicate 32 33) (confirmation_tag demo_pair_env ''123456'' ''show-confirms'')" by code_simp
  moreover have "pair_decode demo_pair_env ''A123456'' = Inr \<lparr>pm_magic = PAIR_MAGIC, pm_body = SpakeAck ''123456'' (replicate 32 33)\<rparr>"
      "pair_decode demo_pair_env ''Klaptop'' = Inr \<lparr>pm_magic = PAIR_MAGIC, pm_body = IdentityAck (bundle_from_local [] [] ''laptop'')\<rparr>"
    by (simp_all add: pair_decode_def demo_pair_env_def)
  ultimately show ?thesis
    by (simp add: run_enter_side_def demo_spake scripted_net_def laptop_record_def Let_def)
qed

lemma demo_pair_persist: "fst (persist_paired pair_config laptop_record paired_before) = Inr 0"
proof -
  have "snd (peers_upsert laptop_record [phone]) = [phone, laptop_record]" "[phone, laptop_record] \<noteq> [phone]"
    by (simp_all add: peers_upsert_def phone_def laptop_record_def peer_record_of_def bundle_from_local_def)
  then show ?thesis
    by (simp add: persist_paired_def peers_load_def peers_save_def pair_table_def pair_untable_def config_run paired_before_simps cong: run_weak)
qed

lemma typed_pin_simps [simp]:
  "pi_config typed_pin = pair_config" "pi_bundle typed_pin k = bundle_from_local k []" "pi_fresh typed_pin = []"
  "pi_stdin typed_pin = Inr (''123456'' @ [NL])" "pi_random typed_pin = 0" "pi_now typed_pin = 0"
  by (simp_all add: typed_pin_def)

lemma scripted_net_simps [simp]:
  "pn_parse scripted_net = Inr" "pn_p2p scripted_net = Some" "pn_start scripted_net k a n = (Inr [], n)" "pn_dial scripted_net p a n = (Inr (), n)"
  by (simp_all add: scripted_net_def)

lemma demo_pair:
  "fst (sync_pair demo_pair_env scripted_net typed_pin False True None (Some ''/p2p/b'') (0, paired_before)) = Inr (0, [])"
proof -
  have "load_or_generate Inr Inr [''identity.key''] k paired_before = (Inr ''k1'', paired_before)" for k
    by (simp add: load_or_generate_def paired_before_loads)
  moreover have "trim (''123456'' @ [NL]) = ''123456''" "validate_pin ''123456'' = Inr ()" by code_simp+
  moreover obtain w where "persist_paired pair_config laptop_record paired_before = (Inr 0, w)" using run_eq [OF demo_pair_persist] by blast
  ultimately show ?thesis
    by (simp add: sync_pair_def run_pair_enter_def prompt_for_pin_def on_net_def on_config_def demo_enter Let_def)
qed

theorem pairing_pins_peer_witness:
  "\<exists>n' c' (p :: paired_peer) ps'. sync_pair demo_pair_env scripted_net typed_pin False True None (Some ''/p2p/b'') (0, paired_before) = (Inr (0, []), (n', c')) \<and>
     peers_load pair_untable [''peers.toml''] c' = Inr ps' \<and> peers_find (pr_peer_id (pp_record p)) ps' = Some (pp_record p)"
proof -
  obtain n' c' where run: "sync_pair demo_pair_env scripted_net typed_pin False True None (Some ''/p2p/b'') (0, paired_before) = (Inr (0, []), (n', c'))"
    using run_eq [OF demo_pair] by (metis prod.collapse)
  have "ids_distinct [phone]" by (simp add: ids_distinct_def)
  from pairing_pins_peer [OF run, unfolded typed_pin_simps pair_config_simps, OF pair_config_sound paired_before_ok paired_before_loads(1) this paired_before_loads(2)]
  obtain p :: paired_peer and ps' where "peers_load pair_untable [''peers.toml''] c' = Inr ps'"
      "\<forall>i. peers_find i ps' = (if i = pr_peer_id (pp_record p) then Some (pp_record p) else peers_find i [phone])"
    by auto
  with run show ?thesis by (metis (full_types))
qed

end
