(* ===== verification/Rate_Limit.thy ===== *)
theory Rate_Limit
  imports Rust_Prelude
begin

text \<open>
  The per-peer sliding window of sync attempts (\<open>bypass-cli/src/sync/ratelimit.rs\<close>).  An \<open>Instant\<close> is
  the clock's nanosecond count; \<open>lowest\<close> is the least value the platform can represent, below which
  \<open>checked_sub\<close> answers \<open>None\<close>.  The clock is an argument of the call.
\<close>

section \<open>Operations\<close>

definition MAX_ATTEMPTS :: nat where "MAX_ATTEMPTS = 3"

definition WINDOW :: int where "WINDOW = 60 * 1000000000"

type_synonym instant = int

record 'k attempt_log =
  buckets :: "'k \<Rightarrow> instant list option"
  max_attempts :: nat
  window :: int

datatype rate_limited = RateLimited (retry_after: int)

definition new_log :: "'k attempt_log" where
  "new_log = \<lparr>buckets = (\<lambda>_. None), max_attempts = MAX_ATTEMPTS, window = WINDOW\<rparr>"

definition with_limits :: "'k attempt_log \<Rightarrow> nat \<Rightarrow> int \<Rightarrow> 'k attempt_log" where
  "with_limits lg n win = lg\<lparr>max_attempts := n, window := win\<rparr>"

definition instant_checked_sub :: "instant \<Rightarrow> instant \<Rightarrow> int \<Rightarrow> instant option" where
  "instant_checked_sub lowest now d = (if now - d < lowest then None else Some (now - d))"

definition saturating_since :: "instant \<Rightarrow> instant \<Rightarrow> int" where
  "saturating_since a b = max 0 (a - b)"

definition live_bucket :: "instant \<Rightarrow> 'k attempt_log \<Rightarrow> 'k \<Rightarrow> instant \<Rightarrow> instant list" where
  "live_bucket lowest lg peer now =
     (let cutoff = unwrap_or now (instant_checked_sub lowest now (window lg)) in
      dropWhile (\<lambda>t. t < cutoff) (unwrap_or [] (buckets lg peer)))"

definition check_and_record ::
  "instant \<Rightarrow> instant \<Rightarrow> 'k \<Rightarrow> 'k attempt_log \<Rightarrow> (rate_limited + unit) \<times> 'k attempt_log" where
  "check_and_record lowest now peer lg =
     (let bucket = live_bucket lowest lg peer now in
      if max_attempts lg \<le> length bucket then
        (let oldest = hd bucket;
             retry = saturating_since (oldest + window lg) now in
         (Inl (RateLimited retry), lg\<lparr>buckets := (buckets lg)(peer \<mapsto> bucket)\<rparr>))
      else (Inr (), lg\<lparr>buckets := (buckets lg)(peer \<mapsto> bucket @ [now])\<rparr>))"

text \<open>A run of attempts; the result is the list of the accepted ones, with their peers, in order.\<close>

fun attempts :: "instant \<Rightarrow> (instant \<times> 'k) list \<Rightarrow> 'k attempt_log \<Rightarrow> (instant \<times> 'k) list" where
  "attempts lowest [] lg = []"
| "attempts lowest ((now, peer) # rest) lg =
     (case check_and_record lowest now peer lg of
        (Inr _, lg) \<Rightarrow> (now, peer) # attempts lowest rest lg
      | (Inl _, lg) \<Rightarrow> attempts lowest rest lg)"

section \<open>Lemmas\<close>

text \<open>A window of length \<open>win\<close> holds at most \<open>n\<close> of the instants.\<close>

definition spread :: "nat \<Rightarrow> int \<Rightarrow> instant list \<Rightarrow> bool" where
  "spread n win ts \<longleftrightarrow> (\<forall>i. i + n < length ts \<longrightarrow> ts ! i + win < ts ! (i + n))"

text \<open>The bucket is the tail of the accepted instants, and everything before the tail is older than the
  window as seen from the last attempt.\<close>

definition tail_of :: "int \<Rightarrow> instant \<Rightarrow> instant list \<Rightarrow> instant list \<Rightarrow> bool" where
  "tail_of win now acc bucket \<longleftrightarrow> (\<exists>old. acc = old @ bucket \<and> (\<forall>t \<in> set old. t + win < now))"

lemma spread_snoc:
  assumes "spread n win acc" "0 < n"
    and "n \<le> length acc \<Longrightarrow> acc ! (length acc - n) + win < now"
  shows "spread n win (acc @ [now])"
  unfolding spread_def
proof (intro allI impI)
  fix i assume i: "i + n < length (acc @ [now])"
  show "(acc @ [now]) ! i + win < (acc @ [now]) ! (i + n)"
  proof (cases "i + n < length acc")
    case True
    with assms(1) show ?thesis by (simp add: spread_def nth_append)
  next
    case False
    with i have "i + n = length acc" by simp
    then have "i = length acc - n" "n \<le> length acc" by simp_all
    moreover from this have "length acc - n < length acc" using assms(2) by simp
    ultimately show ?thesis using assms(3) \<open>i + n = length acc\<close> by (simp add: nth_append)
  qed
qed

lemma attempts_spread:
  assumes "sorted (map fst es)" "\<forall>(t, _) \<in> set es. lowest + window lg \<le> t" "0 < max_attempts lg" "0 \<le> window lg"
    and "spread (max_attempts lg) (window lg) acc" "sorted acc" "\<forall>t \<in> set acc. \<forall>(u, _) \<in> set es. t \<le> u"
    and "\<exists>now. tail_of (window lg) now acc (unwrap_or [] (buckets lg peer)) \<and> (\<forall>(u, _) \<in> set es. now \<le> u)"
  shows "spread (max_attempts lg) (window lg) (acc @ map fst (filter (\<lambda>(_, p). p = peer) (attempts lowest es lg)))"
  using assms
proof (induction lowest es lg arbitrary: acc rule: attempts.induct)
  case (2 lowest now p rest lg)
  obtain r lg' where c: "check_and_record lowest now p lg = (r, lg')" by (cases "check_and_record lowest now p lg")
  have lim: "max_attempts lg' = max_attempts lg" "window lg' = window lg"
    using c by (auto simp: check_and_record_def Let_def split: if_splits)
  show ?case
  proof (cases "p = peer")
    case False
    then have other: "buckets lg' peer = buckets lg peer"
      using c by (auto simp: check_and_record_def Let_def split: if_splits)
    have "spread (max_attempts lg') (window lg') (acc @ map fst (filter (\<lambda>(_, q). q = peer) (attempts lowest rest lg')))"
    proof (cases r)
      case (Inl e)
      show ?thesis using "2.prems" by (intro "2.IH"(1) [OF c [symmetric] Inl]) (auto simp: lim other)
    next
      case (Inr u)
      show ?thesis using "2.prems" by (intro "2.IH"(2) [OF c [symmetric] Inr]) (auto simp: lim other)
    qed
    with False c show ?thesis by (cases r) (auto simp: lim)
  next
    case True
    obtain was where tl: "tail_of (window lg) was acc (unwrap_or [] (buckets lg peer))" "was \<le> now"
      using "2.prems"(8) by auto
    then obtain old where old: "acc = old @ unwrap_or [] (buckets lg peer)" "\<forall>t \<in> set old. t + window lg < was"
      by (auto simp: tail_of_def)
    let ?b = "live_bucket lowest lg peer now"
    have cut: "unwrap_or now (instant_checked_sub lowest now (window lg)) = now - window lg"
      using "2.prems"(2) by (auto simp: instant_checked_sub_def unwrap_or_def)
    have b: "?b = dropWhile (\<lambda>t. t < now - window lg) (unwrap_or [] (buckets lg peer))"
      by (simp add: live_bucket_def cut)
    have "tail_of (window lg) now acc ?b"
      unfolding tail_of_def
    proof (intro exI conjI)
      let ?tw = "takeWhile (\<lambda>t. t < now - window lg) (unwrap_or [] (buckets lg peer))"
      show "acc = (old @ ?tw) @ ?b" using old(1) by (simp add: b)
      show "\<forall>t \<in> set (old @ ?tw). t + window lg < now"
        using old(2) tl(2) by (auto dest!: set_takeWhileD)
    qed
    then obtain pre where pre: "acc = pre @ ?b" "\<forall>t \<in> set pre. t + window lg < now" by (auto simp: tail_of_def)
    show ?thesis
    proof (cases "max_attempts lg \<le> length ?b")
      case full: True
      then obtain e where e: "r = Inl e" "buckets lg' peer = Some ?b"
        using c True by (auto simp: check_and_record_def Let_def)
      have "spread (max_attempts lg') (window lg') (acc @ map fst (filter (\<lambda>(_, q). q = peer) (attempts lowest rest lg')))"
      proof (rule "2.IH"(1) [OF c [symmetric] e(1)], goal_cases)
        case 8
        show ?case using pre "2.prems"(1) by (auto simp: tail_of_def e(2) unwrap_or_def lim intro!: exI [of _ now])
      qed (use "2.prems" in \<open>auto simp: lim\<close>)
      with c e True show ?thesis by (auto simp: lim)
    next
      case room: False
      then have e: "r = Inr ()" "buckets lg' peer = Some (?b @ [now])"
        using c True by (auto simp: check_and_record_def Let_def)
      have sp: "spread (max_attempts lg) (window lg) (acc @ [now])"
      proof (rule spread_snoc [OF "2.prems"(5,3)])
        assume "max_attempts lg \<le> length acc"
        moreover have "length acc = length pre + length ?b" using pre(1) by (metis length_append)
        ultimately have lt: "length acc - max_attempts lg < length pre" using room "2.prems"(3) by linarith
        then have "acc ! (length acc - max_attempts lg) = pre ! (length acc - max_attempts lg)"
          using pre(1) by (metis nth_append)
        then show "acc ! (length acc - max_attempts lg) + window lg < now"
          using pre(2) lt by simp
      qed
      have "spread (max_attempts lg') (window lg') ((acc @ [now]) @ map fst (filter (\<lambda>(_, q). q = peer) (attempts lowest rest lg')))"
      proof (rule "2.IH"(2) [OF c [symmetric] e(1)], goal_cases)
        case 8
        show ?case using pre "2.prems"(1) by (auto simp: tail_of_def e(2) unwrap_or_def lim intro!: exI [of _ now])
      qed (use "2.prems" sp in \<open>auto simp: lim sorted_append\<close>)
      with c e True show ?thesis by (auto simp: lim)
    qed
  qed
qed simp

section \<open>The window\<close>

text \<open>Three strikes per minute: on a monotone clock, among the attempts of one peer that a fresh log
  accepts, any four consecutive ones span more than the 60-second window, whatever the other peers do
  and however many attempts are refused in between.\<close>

lemma rate_limit_spread:
  assumes "sorted (map fst es)" "\<forall>(t, _) \<in> set es. lowest + WINDOW \<le> t"
  shows "spread MAX_ATTEMPTS WINDOW (map fst (filter (\<lambda>(_, p). p = peer) (attempts lowest es new_log)))"
proof -
  have "\<exists>now. tail_of WINDOW now [] [] \<and> (\<forall>(u, _) \<in> set es. now \<le> u)"
    using assms(2) by (intro exI [of _ "lowest + WINDOW"]) (auto simp: tail_of_def)
  with attempts_spread [of es lowest new_log "[]" peer] assms show ?thesis
    by (simp add: new_log_def MAX_ATTEMPTS_def WINDOW_def spread_def unwrap_or_def)
qed

text \<open>A refused peer that waits exactly \<open>retry_after\<close> is refused again, with nothing left to wait.\<close>

lemma retry_after_is_short:
  "check_and_record 0 120000000000 ''p'' \<lparr>buckets = (\<lambda>_. Some [60000000000, 60000000001, 60000000002]), max_attempts = MAX_ATTEMPTS, window = WINDOW\<rparr> =
     (Inl (RateLimited 0), \<lparr>buckets = (\<lambda>_. Some [60000000000, 60000000001, 60000000002])(''p'' \<mapsto> [60000000000, 60000000001, 60000000002]),
        max_attempts = MAX_ATTEMPTS, window = WINDOW\<rparr>)"
  by (simp add: check_and_record_def live_bucket_def instant_checked_sub_def unwrap_or_def saturating_since_def MAX_ATTEMPTS_def WINDOW_def Let_def)

text \<open>Where the clock starts at its least value, the first window is not limited: \<open>checked_sub\<close> fails and
  the cut-off becomes \<open>now\<close>.\<close>

lemma early_clock_unlimited:
  "map fst (attempts 0 [(1, ''p''), (2, ''p''), (3, ''p''), (4, ''p''), (5, ''p'')] new_log) = [1, 2, 3, 4, 5]"
  by code_simp

end
