(* ===== verification/Leak_Audit.thy ===== *)
theory Leak_Audit
  imports Fs_World
begin

text \<open>
  The leak check (\<open>bypass-cli/src/audit.rs\<close>): the pure classifier of files and the audit of what
  \<open>git push\<close> would publish.  The \<open>git\<close> sub-processes are the fields of \<open>audit_git\<close>: what each command
  prints in a world, or the error of starting it.
\<close>

section \<open>Classification\<close>

datatype leak_kind = EditorBackup | NotEncrypted | UnknownFilename

definition leak_describe :: "leak_kind \<Rightarrow> str" where
  "leak_describe k = (case k of EditorBackup \<Rightarrow> ''editor backup'' | NotEncrypted \<Rightarrow> ''not encrypted''
     | UnknownFilename \<Rightarrow> ''unknown filename'')"

record leak_issue =
  li_path :: str
  li_kind :: leak_kind
  li_detail :: str

text \<open>\<open>Path::file_name\<close>: the last normal component.\<close>

definition path_file_name :: "str \<Rightarrow> str option" where
  "path_file_name p =
     (let cs = filter (\<lambda>c. c \<noteq> [] \<and> c \<noteq> ''.'') (split_char SLASH p) in
      if cs = [] \<or> last cs = ''..'' then None else Some (last cs))"

definition file_name_str :: "str \<Rightarrow> str" where
  "file_name_str p = (case path_file_name p of Some n \<Rightarrow> (if valid_utf8 n then n else []) | None \<Rightarrow> [])"

definition looks_like_openpgp :: "bytes \<Rightarrow> bool" where
  "looks_like_openpgp head =
     ((case head of [] \<Rightarrow> False | first # _ \<Rightarrow> 128 \<le> byte first \<and> byte first \<le> 255) \<or>
      prefix ''-----BEGIN PGP MESSAGE-----'' head)"

definition is_allowlisted_metadata :: "str \<Rightarrow> bool" where
  "is_allowlisted_metadata name =
     (if name \<in> {''.gpg-id'', ''.gpg-id.sig'', ''.gitignore'', ''.gitattributes''} then True
      else prefix ''README'' name \<or> prefix ''LICENSE'' name)"

definition is_editor_backup :: "str \<Rightarrow> bool" where
  "is_editor_backup name =
     (if prefix ''.'' name \<and> (suffix ''.swp'' name \<or> suffix ''.swo'' name) then True
      else if prefix ''#'' name \<and> suffix ''#'' name \<and> 2 \<le> length name then True
      else suffix ''~'' name \<or> suffix ''.orig'' name \<or> suffix ''.rej'' name \<or> suffix ''.bak'' name)"

definition check_file :: "str \<Rightarrow> bytes \<Rightarrow> leak_issue option" where
  "check_file path head =
     (let name = file_name_str path in
      if is_editor_backup name then
        Some \<lparr>li_path = path, li_kind = EditorBackup, li_detail = ''editor-backup naming pattern''\<rparr>
      else if suffix ''.gpg'' name then
        (if \<not> looks_like_openpgp head then
           Some \<lparr>li_path = path, li_kind = NotEncrypted, li_detail = ''no OpenPGP packet or ASCII-armour header''\<rparr>
         else None)
      else if is_allowlisted_metadata name then None
      else Some \<lparr>li_path = path, li_kind = UnknownFilename, li_detail = ''not `*.gpg` or recognised metadata''\<rparr>)"

fun check_files :: "(str \<times> bytes) list \<Rightarrow> leak_issue list" where
  "check_files [] = []"
| "check_files ((path, b) # files) =
     (case check_file path b of Some issue \<Rightarrow> [issue] | None \<Rightarrow> []) @ check_files files"

section \<open>What a push publishes\<close>

record cmd_out =
  co_success :: bool
  co_stdout :: bytes
  co_stderr :: bytes

record 'w audit_git =
  ag_upstream :: "'w \<Rightarrow> str + cmd_out"  \<comment> \<open>\<open>rev-parse --verify --quiet\<close>\<close>
  ag_diff :: "'w \<Rightarrow> str + cmd_out"      \<comment> \<open>\<open>diff --name-only upstream..HEAD\<close>\<close>
  ag_ls_files :: "'w \<Rightarrow> str + cmd_out"

datatype audit_error = AuditSpawn str | AuditGit str | AuditRead str io_kind

definition parse_pathlist :: "bytes \<Rightarrow> str list" where
  "parse_pathlist b = filter (\<lambda>l. l \<noteq> []) (lines (from_utf8_lossy b))"

definition git_diff_against_upstream :: "'w audit_git \<Rightarrow> 'w \<Rightarrow> audit_error + str list option" where
  "git_diff_against_upstream g w =
     and_then (map_err AuditSpawn (ag_upstream g w)) (\<lambda>probe.
     if \<not> co_success probe then Inr None
     else
       and_then (map_err AuditSpawn (ag_diff g w)) (\<lambda>out.
       if \<not> co_success out then Inl (AuditGit (''git diff failed: '' @ from_utf8_lossy (co_stderr out)))
       else Inr (Some (parse_pathlist (co_stdout out)))))"

definition files_to_audit :: "'w audit_git \<Rightarrow> 'w \<Rightarrow> audit_error + str list" where
  "files_to_audit g w =
     and_then (git_diff_against_upstream g w) (\<lambda>diff.
     case diff of Some d \<Rightarrow> Inr d
     | None \<Rightarrow>
         and_then (map_err AuditSpawn (ag_ls_files g w)) (\<lambda>out.
         if \<not> co_success out then Inl (AuditGit (''git ls-files failed: '' @ from_utf8_lossy (co_stderr out)))
         else Inr (parse_pathlist (co_stdout out))))"

fun load_files :: "(str \<Rightarrow> io_kind + bytes) \<Rightarrow> str list \<Rightarrow> audit_error + (str \<times> bytes) list" where
  "load_files rd [] = Inr []"
| "load_files rd (rel # rest) =
     (case rd rel of
        Inr b \<Rightarrow> and_then (load_files rd rest) (\<lambda>ps. Inr ((rel, b) # ps))
      | Inl NotFound \<Rightarrow> load_files rd rest
      | Inl e \<Rightarrow> Inl (AuditRead rel e))"

definition audit_for_push :: "'w audit_git \<Rightarrow> ('w \<Rightarrow> str \<Rightarrow> io_kind + bytes) \<Rightarrow> 'w \<Rightarrow> audit_error + leak_issue list" where
  "audit_for_push g rd w =
     and_then (files_to_audit g w) (\<lambda>files.
     and_then (load_files (rd w) files) (\<lambda>pairs. Inr (check_files pairs)))"

section \<open>Properties\<close>

text \<open>A file that may leave the machine: a \<open>.gpg\<close> file that starts like OpenPGP data, or a file whose
  name marks it as store metadata; and in either case not an editor's left-over.\<close>

definition publishable :: "str \<Rightarrow> bytes \<Rightarrow> bool" where
  "publishable path b \<longleftrightarrow> \<not> is_editor_backup (file_name_str path) \<and>
     (if suffix ''.gpg'' (file_name_str path) then looks_like_openpgp b else is_allowlisted_metadata (file_name_str path))"

lemma check_file_None: "check_file path b = None \<longleftrightarrow> publishable path b"
  by (simp add: check_file_def publishable_def Let_def)

lemma check_files_paths: "map li_path (check_files ps) = map fst (filter (\<lambda>(p, b). \<not> publishable p b) ps)"
proof (induction ps rule: check_files.induct)
  case (2 p b ps)
  then show ?case
    by (cases "check_file p b") (auto simp flip: check_file_None, auto simp: check_file_def Let_def split: if_splits)
qed simp

lemma load_files_set:
  "load_files rd files = Inr ps \<Longrightarrow> set ps = {(f, b). f \<in> set files \<and> rd f = Inr b} \<and>
     (\<forall>f \<in> set files. \<forall>e. rd f = Inl e \<longrightarrow> e = NotFound)"
proof (induction files arbitrary: ps)
  case (Cons f fs)
  show ?case
  proof (cases "rd f")
    case (Inl e)
    with Cons show ?thesis by (cases e) auto
  next
    case (Inr b)
    with Cons show ?thesis by (auto simp: and_then_Inr_iff)
  qed
qed simp

text \<open>The push audit misses nothing it is shown: when it returns, the reported files are exactly those
  of the list git printed (the diff against the upstream if there is one, the index otherwise) that are
  on disk and are not publishable, so an empty report means every file on disk of that list is
  ciphertext or recognised metadata; and no file of the list failed to be read for any reason other
  than not being there.\<close>

lemma push_audit_exact:
  assumes "audit_for_push g rd w = Inr issues"
  shows "\<exists>files. files_to_audit g w = Inr files \<and>
     li_path ` set issues = {f \<in> set files. \<exists>b. rd w f = Inr b \<and> \<not> publishable f b} \<and>
     (\<forall>f \<in> set files. \<forall>e. rd w f = Inl e \<longrightarrow> e = NotFound)"
proof -
  from assms obtain files ps where f: "files_to_audit g w = Inr files" "load_files (rd w) files = Inr ps" "issues = check_files ps"
    by (auto simp: audit_for_push_def and_then_Inr_iff)
  have "li_path ` set issues = set (map li_path (check_files ps))" using f(3) by simp
  also have "\<dots> = fst ` {(p, b). (p, b) \<in> set ps \<and> \<not> publishable p b}"
    by (subst check_files_paths) (simp add: case_prod_unfold)
  also have "\<dots> = {f \<in> set files. \<exists>b. rd w f = Inr b \<and> \<not> publishable f b}"
    using load_files_set [OF f(2)] by (auto simp: image_def)
  finally show ?thesis using f(1) load_files_set [OF f(2)] by blast
qed

definition demo_git :: "(str \<Rightarrow> io_kind + bytes) audit_git" where
  "demo_git = \<lparr>ag_upstream = (\<lambda>_. Inr \<lparr>co_success = False, co_stdout = [], co_stderr = []\<rparr>),
     ag_diff = (\<lambda>_. Inl ''no''),
     ag_ls_files = (\<lambda>_. Inr \<lparr>co_success = True, co_stdout = ''web/a.gpg'' @ [NL] @ ''web/a.gpg~'' @ [NL] @ ''notes.txt'' @ [NL] @ ''.gpg-id'' @ [NL], co_stderr = []\<rparr>)\<rparr>"

definition demo_disk :: "str \<Rightarrow> io_kind + bytes" where
  "demo_disk f = (if f = ''web/a.gpg'' then Inr [CHR 0x85] else if f = ''.gpg-id'' then Inr ''K'' else if f = ''notes.txt'' then Inr ''secret'' else Inl NotFound)"

end
