(* ===== verification/Sync_Wire.thy ===== *)
theory Sync_Wire
  imports Rust_Prelude
begin

text \<open>
  The sync wire format (\<open>bypass-cli/src/sync/wire.rs\<close>).  \<open>serde_json\<close> is the pair of functions
  \<open>to_json\<close>/\<open>from_json\<close> on messages.
\<close>

definition WIRE_MAGIC :: bytes where "WIRE_MAGIC = ''BYPS-SYN''"

datatype wire_body =
    WantPackFrom "str option" "str option"
  | Pack "str option" bytes
  | WireErr str

record wire_msg =
  wm_magic :: bytes
  wm_body :: wire_body

datatype wire_error = WireDecode str | BadMagic

record json_codec =
  to_json :: "wire_msg \<Rightarrow> bytes"
  from_json :: "bytes \<Rightarrow> str + wire_msg"

definition wire_encode :: "json_codec \<Rightarrow> wire_msg \<Rightarrow> bytes" where
  "wire_encode J msg = to_json J msg"

definition wire_decode :: "json_codec \<Rightarrow> bytes \<Rightarrow> wire_error + wire_msg" where
  "wire_decode J b =
     and_then (map_err WireDecode (from_json J b)) (\<lambda>msg.
     if wm_magic msg \<noteq> WIRE_MAGIC then Inl BadMagic else Inr msg)"

definition want_pack_from :: "str option \<Rightarrow> str option \<Rightarrow> wire_msg" where
  "want_pack_from local_head peer_head_seen = \<lparr>wm_magic = WIRE_MAGIC, wm_body = WantPackFrom local_head peer_head_seen\<rparr>"

definition wire_pack :: "str option \<Rightarrow> bytes \<Rightarrow> wire_msg" where
  "wire_pack peer_head b = \<lparr>wm_magic = WIRE_MAGIC, wm_body = Pack peer_head b\<rparr>"

definition wire_err :: "str \<Rightarrow> wire_msg" where
  "wire_err reason = \<lparr>wm_magic = WIRE_MAGIC, wm_body = WireErr reason\<rparr>"

definition json_roundtrips :: "json_codec \<Rightarrow> bool" where
  "json_roundtrips J \<longleftrightarrow> (\<forall>m. from_json J (to_json J m) = Inr m)"

lemma wire_decode_encode:
  "json_roundtrips J \<Longrightarrow> wire_decode J (wire_encode J m) = (if wm_magic m = WIRE_MAGIC then Inr m else Inl BadMagic)"
  by (simp add: wire_decode_def wire_encode_def json_roundtrips_def)

lemma wire_magic [simp]:
  "wm_magic (want_pack_from h s) = WIRE_MAGIC" "wm_magic (wire_pack h b) = WIRE_MAGIC" "wm_magic (wire_err r) = WIRE_MAGIC"
  by (simp_all add: want_pack_from_def wire_pack_def wire_err_def)

lemma wire_body [simp]:
  "wm_body (want_pack_from h s) = WantPackFrom h s" "wm_body (wire_pack h b) = Pack h b" "wm_body (wire_err r) = WireErr r"
  by (simp_all add: want_pack_from_def wire_pack_def wire_err_def)

end
