(* ===== verification/Syncing.thy ===== *)
theory Syncing
  imports Leak_Audit Sync_Wire
begin

text \<open>
  Exchange of git packs between two devices (\<open>bypass-cli/src/sync/syncing.rs\<close>).  The git repository is
  reached through \<open>git2\<close> and \<open>git\<close> sub-processes, which are the fields of \<open>git_env\<close>; object ids are
  \<open>'oid\<close>.  Everything the module itself decides is here: what is requested and served, the size cap on
  both ends, the audit before anything is applied, and the reconciliation of the two heads.
\<close>

section \<open>Environment and results\<close>

datatype sync_error = SyncGit str | SyncTransport str | SyncWire wire_error | SyncRefused str | SyncUnexpected | SyncTooBig nat

record ('w, 'oid) git_env =
  ge_head :: "'w \<Rightarrow> str + str option"        \<comment> \<open>\<open>head_sha\<close>: the id of HEAD, \<open>None\<close> on an unborn branch\<close>
  ge_open :: "'w \<Rightarrow> str + unit"
  ge_oid :: "str \<Rightarrow> str + 'oid"
  ge_oid_str :: "'oid \<Rightarrow> str"
  ge_has_commit :: "'w \<Rightarrow> 'oid \<Rightarrow> bool"
  ge_walk :: "'w \<Rightarrow> 'oid \<Rightarrow> 'oid option \<Rightarrow> str + 'oid list"  \<comment> \<open>revwalk: pushed, hidden\<close>
  ge_pack :: "'w \<Rightarrow> 'oid list \<Rightarrow> str + bytes"
  ge_descendant :: "'w \<Rightarrow> 'oid \<Rightarrow> 'oid \<Rightarrow> str + bool"
  ge_index_pack :: "bytes \<Rightarrow> ('w, str, cmd_out) eff"
  ge_reset_hard :: "str \<Rightarrow> ('w, str, cmd_out) eff"
  ge_rebase :: "str \<Rightarrow> ('w, str, cmd_out) eff"
  ge_rebase_abort :: "'w \<Rightarrow> 'w"
  ge_log_names :: "'w \<Rightarrow> str \<Rightarrow> str + cmd_out"
  ge_show :: "'w \<Rightarrow> str \<Rightarrow> str + cmd_out"

definition MAX_PACK_BYTES :: nat where "MAX_PACK_BYTES = 50 * 1024 * 1024"

datatype sync_action =
    UpToDate
  | FastForwarded str str
  | PeerBehind
  | Rebased str
  | AwaitingPeerRebase
  | RejectedLeak "leak_issue list"

record sync_report =
  sr_action :: sync_action
  sr_peer_head :: "str option"

section \<open>Serving a pack\<close>

definition hidden_oid :: "('w, 'oid) git_env \<Rightarrow> 'w \<Rightarrow> str option \<Rightarrow> 'oid option" where
  "hidden_oid G w peer_head_seen =
     (case peer_head_seen of None \<Rightarrow> None
      | Some seen \<Rightarrow> (case ge_oid G seen of Inl _ \<Rightarrow> None
         | Inr oid \<Rightarrow> (if ge_has_commit G w oid then Some oid else None)))"

definition build_pack :: "('w, 'oid) git_env \<Rightarrow> 'w \<Rightarrow> str option \<Rightarrow> str option \<Rightarrow> sync_error + bytes" where
  "build_pack G w local_head peer_head_seen =
     (case local_head of None \<Rightarrow> Inr []
      | Some head \<Rightarrow>
          and_then (map_err SyncGit (ge_open G w)) (\<lambda>_.
          and_then (map_err SyncGit (ge_oid G head)) (\<lambda>head_oid.
          and_then (map_err SyncGit (ge_walk G w head_oid (hidden_oid G w peer_head_seen))) (\<lambda>walk.
          if walk = [] then Inr []
          else
            and_then (map_err SyncGit (ge_walk G w head_oid (hidden_oid G w peer_head_seen))) (\<lambda>walk.
            map_err SyncGit (ge_pack G w walk))))))"

definition serve_capped :: "json_codec \<Rightarrow> ('w, 'oid) git_env \<Rightarrow> 'w \<Rightarrow> str option \<Rightarrow> str option \<Rightarrow> nat \<Rightarrow> bytes" where
  "serve_capped J G w local_head peer_head_seen cap =
     (case build_pack G w local_head peer_head_seen of
        Inr b \<Rightarrow>
          (if cap < length b then
             wire_encode J (wire_err (''pack of '' @ show_nat (length b) @ '' bytes exceeds '' @ show_nat cap @
               ''-byte cap (ADR-0016); bootstrap via a git remote first, then resume peer sync''))
           else wire_encode J (wire_pack local_head b))
      | Inl e \<Rightarrow> wire_encode J (wire_err (''build pack: '' @ (case e of SyncGit s \<Rightarrow> s | _ \<Rightarrow> []))))"

definition serve_want_pack_from :: "json_codec \<Rightarrow> ('w, 'oid) git_env \<Rightarrow> 'w \<Rightarrow> str option \<Rightarrow> str option \<Rightarrow> bytes" where
  "serve_want_pack_from J G w local_head peer_head_seen = serve_capped J G w local_head peer_head_seen MAX_PACK_BYTES"

definition serve :: "json_codec \<Rightarrow> ('w, 'oid) git_env \<Rightarrow> 'w \<Rightarrow> bytes \<Rightarrow> bytes" where
  "serve J G w b =
     (case wire_decode J b of
        Inl _ \<Rightarrow> wire_encode J (wire_err ''bad wire frame'')
      | Inr msg \<Rightarrow>
          (case wm_body msg of
             WantPackFrom _ peer_head_seen \<Rightarrow>
               (case ge_head G w of
                  Inl e \<Rightarrow> wire_encode J (wire_err (''read HEAD: '' @ e))
                | Inr our_head \<Rightarrow> serve_want_pack_from J G w our_head peer_head_seen)
           | _ \<Rightarrow> wire_encode J (wire_err ''only WantPackFrom is a valid inbound request'')))"

section \<open>Taking a pack in\<close>

definition run_git :: "str \<Rightarrow> (str + cmd_out) \<times> 'w \<Rightarrow> (sync_error + unit) \<times> 'w" where
  \<comment> \<open>a command whose failure, to start or to succeed, is an error\<close>
  "run_git what r =
     then_eff (map_err_st SyncGit r) (\<lambda>out w.
       if co_success out then (Inr (), w) else (Inl (SyncGit (what @ from_utf8_lossy (co_stderr out))), w))"

definition ingest_pack :: "('w, 'oid) git_env \<Rightarrow> bytes \<Rightarrow> ('w, sync_error, unit) eff" where
  "ingest_pack G b w = run_git ''`git index-pack --stdin` failed'' (ge_index_pack G b w)"

definition fast_forward :: "('w, 'oid) git_env \<Rightarrow> str \<Rightarrow> ('w, sync_error, unit) eff" where
  "fast_forward G target w = run_git ''`git reset --hard` failed: '' (ge_reset_hard G target w)"

definition rebase_onto :: "('w, 'oid) git_env \<Rightarrow> str \<Rightarrow> ('w, sync_error, unit) eff" where
  "rebase_onto G peer_head w =
     then_eff (map_err_st SyncGit (ge_rebase G peer_head w)) (\<lambda>out w.
       if co_success out then (Inr (), w)
       else (Inl (SyncGit (''`git rebase` failed: '' @ from_utf8_lossy (co_stderr out))), ge_rebase_abort G w))"

definition reconcile ::
  "('w, 'oid) git_env \<Rightarrow> str option \<Rightarrow> str \<Rightarrow> str \<Rightarrow> str \<Rightarrow> ('w, sync_error, sync_action) eff" where
  "reconcile G local_head peer_head local_id remote_id w =
     then_eff (map_err SyncGit (ge_open G w), w) (\<lambda>_ w.
     then_eff (map_err SyncGit (ge_oid G peer_head), w) (\<lambda>peer_oid w.
     case local_head of
       None \<Rightarrow> then_eff (fast_forward G peer_head w) (\<lambda>_ w. (Inr (FastForwarded [] peer_head), w))
     | Some h \<Rightarrow>
         then_eff (map_err SyncGit (ge_oid G h), w) (\<lambda>local_oid w.
         if local_oid = peer_oid then (Inr UpToDate, w)
         else
           then_eff (map_err SyncGit (ge_descendant G w peer_oid local_oid), w) (\<lambda>local_is_ancestor_of_peer w.
           if local_is_ancestor_of_peer then
             then_eff (fast_forward G peer_head w) (\<lambda>_ w.
               (Inr (FastForwarded (ge_oid_str G local_oid) (ge_oid_str G peer_oid)), w))
           else
             then_eff (map_err SyncGit (ge_descendant G w local_oid peer_oid), w) (\<lambda>peer_is_ancestor_of_local w.
             if peer_is_ancestor_of_local then (Inr PeerBehind, w)
             else if local_id < remote_id then
               then_eff (rebase_onto G peer_head w) (\<lambda>_ w. (Inr (Rebased peer_head), w))
             else (Inr AwaitingPeerRebase, w))))))"

text \<open>\<open>paths.sort(); paths.dedup()\<close>; paths compare by their components.\<close>

definition sort_dedup :: "str list \<Rightarrow> str list" where
  "sort_dedup ps = remdups_adj (sort_key (split_char SLASH) ps)"

fun show_blobs :: "('w, 'oid) git_env \<Rightarrow> 'w \<Rightarrow> str \<Rightarrow> str list \<Rightarrow> sync_error + (str \<times> bytes) list" where
  "show_blobs G w peer_head [] = Inr []"
| "show_blobs G w peer_head (p # ps) =
     and_then (map_err SyncGit (ge_show G w (peer_head @ '':'' @ p))) (\<lambda>out.
     if co_success out then and_then (show_blobs G w peer_head ps) (\<lambda>rest. Inr ((p, co_stdout out) # rest))
     else show_blobs G w peer_head ps)"

definition audit_incoming :: "('w, 'oid) git_env \<Rightarrow> 'w \<Rightarrow> str option \<Rightarrow> str \<Rightarrow> sync_error + leak_issue list" where
  "audit_incoming G w local_head peer_head =
     (let range = (case local_head of Some h \<Rightarrow> h @ ''..'' @ peer_head | None \<Rightarrow> peer_head) in
      and_then (map_err SyncGit (ge_log_names G w range)) (\<lambda>out.
      if \<not> co_success out then Inr []
      else
        (let paths = sort_dedup (filter (\<lambda>s. s \<noteq> []) (lines (from_utf8_lossy (co_stdout out)))) in
         and_then (show_blobs G w peer_head paths) (\<lambda>pairs. Inr (check_files pairs)))))"

definition sync_with_peer ::
  "json_codec \<Rightarrow> ('w, 'oid) git_env \<Rightarrow> (bytes \<Rightarrow> ('w, str, bytes) eff) \<Rightarrow> str \<Rightarrow> str \<Rightarrow> ('w, sync_error, sync_report) eff" where
  "sync_with_peer J G request local_id remote_id w =
     then_eff (map_err SyncGit (ge_head G w), w) (\<lambda>local_head w.
     (let req = want_pack_from local_head None in
      then_eff (map_err_st SyncTransport (request (wire_encode J req) w)) (\<lambda>reply_bytes w.
      then_eff (map_err SyncWire (wire_decode J reply_bytes), w) (\<lambda>reply w.
      case wm_body reply of
        WireErr reason \<Rightarrow> (Inl (SyncRefused reason), w)
      | WantPackFrom _ _ \<Rightarrow> (Inl SyncUnexpected, w)
      | Pack peer_head pack_bytes \<Rightarrow>
          if MAX_PACK_BYTES < length pack_bytes then (Inl (SyncTooBig (length pack_bytes)), w)
          else
            (case peer_head of
               None \<Rightarrow> (Inr \<lparr>sr_action = UpToDate, sr_peer_head = None\<rparr>, w)
             | Some peer_head \<Rightarrow>
                 if pack_bytes = [] \<and> local_head = Some peer_head then
                   (Inr \<lparr>sr_action = UpToDate, sr_peer_head = Some peer_head\<rparr>, w)
                 else
                   then_eff (if pack_bytes \<noteq> [] then ingest_pack G pack_bytes w else (Inr (), w)) (\<lambda>_ w.
                   then_eff (audit_incoming G w local_head peer_head, w) (\<lambda>issues w.
                   if issues \<noteq> [] then (Inr \<lparr>sr_action = RejectedLeak issues, sr_peer_head = Some peer_head\<rparr>, w)
                   else
                     then_eff (reconcile G local_head peer_head local_id remote_id w) (\<lambda>action w.
                       (Inr \<lparr>sr_action = action, sr_peer_head = Some peer_head\<rparr>, w)))))))))"

section \<open>Properties\<close>

lemma run_git_Inr: "run_git what r = (Inr u, w') \<longleftrightarrow> (\<exists>out. r = (Inr out, w') \<and> co_success out)"
  by (cases r rule: eff_exhaust) (auto simp: run_git_def)

text \<open>C18. Exactly one side rebases: when two devices hold different heads of which neither descends from
  the other, both compute it so, and the git commands succeed, the device with the lower id rebases
  onto the other's head and the other one waits; they never both rebase and never both wait.\<close>

theorem one_side_rebases:
  assumes "ge_open G wa = Inr ()" "ge_open G wb = Inr ()" "ge_oid G ha = Inr a" "ge_oid G hb = Inr b" "a \<noteq> b"
    and "ge_descendant G wa a b = Inr False" "ge_descendant G wa b a = Inr False"
    and "ge_descendant G wb a b = Inr False" "ge_descendant G wb b a = Inr False"
    and "\<And>h w. co_success out \<and> fst (ge_rebase G h w) = Inr out" "id_a \<noteq> id_b"
  shows "(fst (reconcile G (Some ha) hb id_a id_b wa), fst (reconcile G (Some hb) ha id_b id_a wb)) =
    (if id_a < id_b then (Inr (Rebased hb), Inr AwaitingPeerRebase) else (Inr AwaitingPeerRebase, Inr (Rebased ha)))"
proof -
  have reb: "fst (then_eff (rebase_onto G h w) (\<lambda>_ w. (Inr (Rebased h), w))) = (Inr (Rebased h) :: sync_error + sync_action)" for h w
    using assms(10) [of h w] by (cases "ge_rebase G h w") (auto simp: rebase_onto_def)
  have 1: "fst (reconcile G (Some ha) hb id_a id_b wa) = Inr (if id_a < id_b then Rebased hb else AwaitingPeerRebase)"
    using assms reb by (simp add: reconcile_def)
  have 2: "fst (reconcile G (Some hb) ha id_b id_a wb) = Inr (if id_a < id_b then AwaitingPeerRebase else Rebased ha)"
    using assms reb by (auto simp: reconcile_def)
  show ?thesis by (simp add: 1 2)
qed

definition demo_env :: "(str, nat) git_env" where
  "demo_env = \<lparr>ge_head = (\<lambda>w. Inr (Some w)), ge_open = (\<lambda>_. Inr ()), ge_oid = (\<lambda>s. Inr (length s)), ge_oid_str = (\<lambda>n. replicate n CHR ''c''),
     ge_has_commit = (\<lambda>_ _. True), ge_walk = (\<lambda>_ n _. Inr [n]), ge_pack = (\<lambda>_ _. Inr ''PACK''),
     ge_descendant = (\<lambda>_ a b. Inr False), ge_index_pack = (\<lambda>b w. (Inr \<lparr>co_success = True, co_stdout = [], co_stderr = []\<rparr>, w)),
     ge_reset_hard = (\<lambda>t w. (Inr \<lparr>co_success = True, co_stdout = [], co_stderr = []\<rparr>, t)),
     ge_rebase = (\<lambda>t w. (Inr \<lparr>co_success = True, co_stdout = [], co_stderr = []\<rparr>, t @ w)), ge_rebase_abort = (\<lambda>w. w),
     ge_log_names = (\<lambda>_ _. Inr \<lparr>co_success = True, co_stdout = ''a.gpg'' @ [NL] @ ''plain.txt'' @ [NL], co_stderr = []\<rparr>),
     ge_show = (\<lambda>_ _. Inr \<lparr>co_success = True, co_stdout = ''hello'', co_stderr = []\<rparr>)\<rparr>"

theorem one_side_rebases_witness:
  "(fst (reconcile demo_env (Some ''x'') ''yy'' ''12A'' ''12B'' ''x''), fst (reconcile demo_env (Some ''yy'') ''x'' ''12B'' ''12A'' ''yy'')) =
     (Inr (Rebased ''yy''), Inr AwaitingPeerRebase)"
proof -
  have "(fst (reconcile demo_env (Some ''x'') ''yy'' ''12A'' ''12B'' ''x''), fst (reconcile demo_env (Some ''yy'') ''x'' ''12B'' ''12A'' ''yy'')) =
    (if ''12A'' < ''12B'' then (Inr (Rebased ''yy''), Inr AwaitingPeerRebase) else (Inr AwaitingPeerRebase, Inr (Rebased ''x'')))"
    by (rule one_side_rebases [where a = 1 and b = 2 and out = "\<lparr>co_success = True, co_stdout = [], co_stderr = []\<rparr>"]) (simp_all add: demo_env_def)
  moreover have "''12A'' < ''12B''" by code_simp
  ultimately show ?thesis by simp
qed

lemma reconcile_effects:
  assumes "reconcile G lh peer local_id remote_id u = (Inr act, w')"
  shows "case act of
      FastForwarded _ _ \<Rightarrow> (case lh of None \<Rightarrow> True
        | Some h \<Rightarrow> \<exists>l p. ge_oid G h = Inr l \<and> ge_oid G peer = Inr p \<and> ge_descendant G u p l = Inr True)
    | Rebased onto \<Rightarrow> onto = peer \<and> local_id < remote_id
    | RejectedLeak _ \<Rightarrow> False
    | _ \<Rightarrow> w' = u"
  using assms by (cases lh) (auto simp: reconcile_def then_eff_Inr_iff split: if_splits)

text \<open>C6. Nothing unaudited is applied: a sync that returns leaves HEAD and the work tree as they were unless
  it fast-forwarded or rebased; in these two cases the incoming history was audited in a world where
  nothing had been applied yet and the audit found nothing, and a fast-forward happened only onto a
  descendant of the local head (or with no local head at all).\<close>

theorem sync_applies_only_audited:
  assumes "\<And>b w r w'. request b w = (r, w') \<Longrightarrow> tree_of w' = tree_of w"
    and "\<And>b w r w'. ge_index_pack G b w = (r, w') \<Longrightarrow> tree_of w' = tree_of w"
    and "sync_with_peer J G request local_id remote_id w = (Inr rep, w')"
  shows "\<exists>local_head w1. ge_head G w = Inr local_head \<and> tree_of w1 = tree_of w \<and>
    (case sr_action rep of
       FastForwarded _ _ \<Rightarrow> \<exists>peer. sr_peer_head rep = Some peer \<and> audit_incoming G w1 local_head peer = Inr [] \<and>
         (case local_head of None \<Rightarrow> True
          | Some h \<Rightarrow> \<exists>l p. ge_oid G h = Inr l \<and> ge_oid G peer = Inr p \<and> ge_descendant G w1 p l = Inr True)
     | Rebased onto \<Rightarrow> audit_incoming G w1 local_head onto = Inr [] \<and> local_id < remote_id
     | _ \<Rightarrow> tree_of w' = tree_of w)"
proof -
  from assms(3) obtain lh where lh: "ge_head G w = Inr lh" by (auto simp: sync_with_peer_def then_eff_Inr_iff)
  from assms(3) lh obtain rb v reply where r: "request (wire_encode J (want_pack_from lh None)) w = (Inr rb, v)"
      "wire_decode J rb = Inr reply"
    by (auto simp: sync_with_peer_def then_eff_Inr_iff Let_def)
  have tv: "tree_of v = tree_of w" by (rule assms(1) [OF r(1)])
  from assms(3) lh r obtain ph pb where b: "wm_body reply = Pack ph pb" "\<not> MAX_PACK_BYTES < length pb"
    by (cases "wm_body reply") (auto simp: sync_with_peer_def Let_def split: if_splits)
  show ?thesis
  proof (cases "ph = None \<or> (pb = [] \<and> lh = ph)")
    case True
    with assms(3) lh r b have "w' = v \<and> sr_action rep = UpToDate"
      by (cases ph) (auto simp: sync_with_peer_def Let_def)
    then show ?thesis using lh tv by (intro exI [of _ lh] exI [of _ v]) simp
  next
    case False
    then obtain peer where peer: "ph = Some peer" by auto
    from assms(3) lh r b False peer obtain u issues where u:
        "(if pb \<noteq> [] then ingest_pack G pb v else (Inr (), v)) = (Inr (), u)" "audit_incoming G u lh peer = Inr issues"
        "(if issues \<noteq> [] then (Inr \<lparr>sr_action = RejectedLeak issues, sr_peer_head = Some peer\<rparr>, u)
          else then_eff (reconcile G lh peer local_id remote_id u) (\<lambda>action w. (Inr \<lparr>sr_action = action, sr_peer_head = Some peer\<rparr>, w)))
         = (Inr rep, w')"
      by (auto simp: sync_with_peer_def Let_def then_eff_Inr_iff)
    have tu: "tree_of u = tree_of w"
      using u(1) tv assms(2) by (auto simp: ingest_pack_def run_git_Inr split: if_splits)
    show ?thesis
    proof (cases "issues = []")
      case False
      then show ?thesis using u(3) lh tu by (intro exI [of _ lh] exI [of _ u]) auto
    next
      case True
      with u(3) obtain act where act: "reconcile G lh peer local_id remote_id u = (Inr act, w')"
          "rep = \<lparr>sr_action = act, sr_peer_head = Some peer\<rparr>"
        by (auto simp: then_eff_Inr_iff)
      show ?thesis using lh tu u(2) True act(2) reconcile_effects [OF act(1)]
        by (intro exI [of _ lh] exI [of _ u]) (cases act; auto)
    qed
  qed
qed

definition demo_json :: json_codec where
  "demo_json = \<lparr>to_json = (\<lambda>_. ''req''), from_json = (\<lambda>b. Inr (wire_pack (Some ''yy'') b))\<rparr>"

text \<open>The same environment, but with a history that only touches one encrypted file.\<close>

definition demo_clean :: "(str, nat) git_env" where
  "demo_clean = demo_env\<lparr>ge_log_names := (\<lambda>_ _. Inr \<lparr>co_success = True, co_stdout = ''a.gpg'' @ [NL], co_stderr = []\<rparr>),
     ge_show := (\<lambda>_ _. Inr \<lparr>co_success = True, co_stdout = [CHR 0x85], co_stderr = []\<rparr>)\<rparr>"

lemma demo_audits:
  "audit_incoming demo_clean ''x'' (Some ''x'') ''yy'' = Inr []"
  "audit_incoming demo_env ''x'' (Some ''x'') ''yy'' =
    Inr [\<lparr>li_path = ''a.gpg'', li_kind = NotEncrypted, li_detail = ''no OpenPGP packet or ASCII-armour header''\<rparr>,
      \<lparr>li_path = ''plain.txt'', li_kind = UnknownFilename, li_detail = ''not `*.gpg` or recognised metadata''\<rparr>]"
  by code_simp+

lemma demo_sync: "sync_with_peer demo_json demo_clean (\<lambda>b w. (Inr ''PACK'', w)) ''12A'' ''12B'' ''x'' =
    (Inr \<lparr>sr_action = Rebased ''yy'', sr_peer_head = Some ''yy''\<rparr>, ''yyx'')"
proof -
  have lt: "''12A'' < ''12B''" by code_simp
  have "ge_head demo_clean ''x'' = Inr (Some ''x'')" "ingest_pack demo_clean ''PACK'' ''x'' = (Inr (), ''x'')"
    "wire_decode demo_json ''PACK'' = Inr (wire_pack (Some ''yy'') ''PACK'')"
    "reconcile demo_clean (Some ''x'') ''yy'' ''12A'' ''12B'' ''x'' = (Inr (Rebased ''yy''), ''yyx'')"
    by (simp_all add: demo_clean_def demo_env_def ingest_pack_def run_git_def demo_json_def wire_decode_def reconcile_def rebase_onto_def lt)
  then show ?thesis by (simp add: sync_with_peer_def demo_audits MAX_PACK_BYTES_def cong: eff_weak)
qed

theorem sync_applies_only_audited_witness:
  "\<exists>h. ge_head demo_clean ''x'' = Inr h \<and> audit_incoming demo_clean ''x'' h ''yy'' = Inr [] \<and> ''12A'' < ''12B''"
proof -
  from sync_applies_only_audited [where tree_of = "\<lambda>w. w", OF _ _ demo_sync]
  show ?thesis by (auto simp: demo_clean_def demo_env_def)
qed

text \<open>C19. The size cap holds on the serving side too: every reply to an inbound frame is a well-formed frame
  of the protocol, and it is either a refusal or a pack of the current HEAD that is no larger than the
  50 MB cap; a request that does not parse, has the wrong magic or is not a \<open>WantPackFrom\<close> is refused.\<close>

theorem serve_reply:
  assumes "json_roundtrips J"
  shows "\<exists>m. wire_decode J (serve J G w b) = Inr m \<and>
    (case wm_body m of
       Pack h p \<Rightarrow> ge_head G w = Inr h \<and> length p \<le> MAX_PACK_BYTES \<and> (\<exists>q lh seen. wire_decode J b = Inr q \<and> wm_body q = WantPackFrom lh seen)
     | WireErr _ \<Rightarrow> True
     | WantPackFrom _ _ \<Rightarrow> False)"
proof -
  note dec = wire_decode_encode [OF assms]
  show ?thesis
  proof (cases "wire_decode J b")
    case (Inl e)
    then show ?thesis by (simp add: serve_def dec)
  next
    case (Inr q)
    show ?thesis
    proof (cases "wm_body q")
      case (WantPackFrom lh seen)
      show ?thesis
      proof (cases "ge_head G w")
        case (Inl e)
        then show ?thesis using Inr WantPackFrom by (simp add: serve_def dec)
      next
        case h: (Inr our)
        show ?thesis using Inr WantPackFrom h
          by (cases "build_pack G w our seen") (auto simp: serve_def serve_want_pack_from_def serve_capped_def dec)
      qed
    qed (use Inr in \<open>simp_all add: serve_def dec\<close>)
  qed
qed

text \<open>A codec that round-trips, to run the example on.\<close>

definition put_opt :: "str option \<Rightarrow> bytes" where
  "put_opt x = (case x of None \<Rightarrow> ''n'' | Some s \<Rightarrow> CHR ''s'' # put_str s)"

definition get_opt :: "bytes \<Rightarrow> str option \<times> bytes" where
  "get_opt b = (if prefix ''n'' b then (None, tl b) else (case get_str (tl b) of (s, r) \<Rightarrow> (Some s, r)))"

lemma get_put_opt: "get_opt (put_opt x @ r) = (x, r)"
  by (cases x) (simp_all add: put_opt_def get_opt_def get_put)

definition mark_json :: json_codec where
  "mark_json = \<lparr>to_json = (\<lambda>m. put_str (wm_magic m) @ (case wm_body m of
       WantPackFrom a b \<Rightarrow> CHR ''w'' # put_opt a @ put_opt b | Pack h p \<Rightarrow> CHR ''p'' # put_opt h @ put_str p | WireErr e \<Rightarrow> CHR ''e'' # put_str e)),
     from_json = (\<lambda>b. let (magic, r) = get_str b in
       Inr \<lparr>wm_magic = magic, wm_body =
         (if prefix ''w'' r then (let (x, r) = get_opt (tl r); (y, r) = get_opt r in WantPackFrom x y)
          else if prefix ''p'' r then (let (h, r) = get_opt (tl r); (p, r) = get_str r in Pack h p)
          else WireErr (fst (get_str (tl r))))\<rparr>)\<rparr>"

lemma mark_json_roundtrips: "json_roundtrips mark_json"
proof -
  have "from_json mark_json (to_json mark_json m) = Inr m" for m
  proof (cases "wm_body m")
    case (WantPackFrom a b)
    then show ?thesis using get_put_opt [of b "[]"] by (simp add: mark_json_def get_put get_put_opt)
  next
    case (Pack h p)
    then show ?thesis using get_put [of p "[]"] by (simp add: mark_json_def get_put get_put_opt)
  next
    case (WireErr e)
    then show ?thesis using get_put [of e "[]"] by (simp add: mark_json_def get_put)
  qed
  then show ?thesis by (simp add: json_roundtrips_def)
qed

theorem serve_reply_witness:
  "\<exists>m. wire_decode mark_json (serve mark_json demo_env ''x'' ''garbage'') = Inr m \<and> (case wm_body m of WantPackFrom _ _ \<Rightarrow> False | _ \<Rightarrow> True)"
proof -
  from serve_reply [OF mark_json_roundtrips, of demo_env "''x''" "''garbage''"]
  obtain m where m: "wire_decode mark_json (serve mark_json demo_env ''x'' ''garbage'') = Inr m" "\<forall>a b. wm_body m \<noteq> WantPackFrom a b"
    by fastforce
  then show ?thesis by (cases "wm_body m") auto
qed

end
