(* ===== verification/Daemon.thy ===== *)
theory Daemon
  imports Peers Rate_Limit Syncing "HOL-Library.Sublist"
begin

text \<open>
  The main loop of the sync daemon (\<open>bypass-cli/src/sync/daemon.rs\<close>) as a step relation.  A configuration
  is the shared state, the attempt log, the dials the current branch of the loop still has to start and
  the sync tasks that run beside the loop.  The loop takes a new event only when no dial is left to
  start; a task may end at any point.  Peer ids are \<open>'p\<close> with the parser \<open>de_parse\<close>, addresses \<open>'a\<close>, file
  time stamps \<open>'m\<close>.  A hash map iterates in an order of its own: the lists \<open>order\<close> below are such an order.
\<close>

section \<open>State\<close>

record 'a peer_entry =
  en_name :: str
  en_addr :: "'a option"
  en_discovered :: bool
  en_last_sync :: "(str \<times> nat) option"
  en_in_flight :: bool

text \<open>What the daemon sees of \<open>peers.toml\<close> at one moment: the outcome of \<open>metadata\<close>, with the modification
  time if the platform has one, and of \<open>Peers::load\<close>.\<close>

record 'm toml_view =
  tv_meta :: "io_kind + 'm option"
  tv_load :: "peers_error + peers"

record ('p, 'a, 'm) daemon_state =
  ds_peers :: "'p \<Rightarrow> 'a peer_entry option"
  ds_mtime :: "'m option"

datatype daemon_error = StatPeersToml io_kind | LoadPeers peers_error

record peer_status =
  ps_name :: str
  ps_peer_id :: str
  ps_discovered :: bool
  ps_last_sync_action :: "str option"
  ps_last_sync_unix :: "nat option"

record status_snapshot =
  ss_local_peer_id :: str
  ss_listening_addrs :: "str list"
  ss_peers :: "peer_status list"

definition from_record :: "peer_record \<Rightarrow> 'a peer_entry" where
  "from_record rec = \<lparr>en_name = pr_name rec, en_addr = None, en_discovered = False, en_last_sync = None, en_in_flight = False\<rparr>"

fun apply_records ::
  "(str \<Rightarrow> 'p option) \<Rightarrow> peers \<Rightarrow> ('p \<Rightarrow> 'a peer_entry option) \<Rightarrow> ('p \<Rightarrow> 'a peer_entry option) \<Rightarrow> ('p \<Rightarrow> 'a peer_entry option)" where
  "apply_records parse [] old keep = keep"
| "apply_records parse (rec # recs) old keep =
     (case parse (pr_peer_id rec) of None \<Rightarrow> apply_records parse recs old keep
      | Some peer \<Rightarrow>
          apply_records parse recs (old(peer := None))
            (keep(peer \<mapsto> (case old peer of Some e \<Rightarrow> e\<lparr>en_name := pr_name rec\<rparr> | None \<Rightarrow> from_record rec))))"

definition apply_peers :: "(str \<Rightarrow> 'p option) \<Rightarrow> peers \<Rightarrow> ('p, 'a, 'm) daemon_state \<Rightarrow> ('p, 'a, 'm) daemon_state" where
  "apply_peers parse ps st = st\<lparr>ds_peers := apply_records parse ps (ds_peers st) (\<lambda>_. None)\<rparr>"

definition reload_peers_if_changed ::
  "(str \<Rightarrow> 'p option) \<Rightarrow> 'm toml_view \<Rightarrow> ('p, 'a, 'm) daemon_state \<Rightarrow> (daemon_error + unit) \<times> ('p, 'a, 'm) daemon_state" where
  "reload_peers_if_changed parse tv st =
     (case tv_meta tv of
        Inl NotFound \<Rightarrow> (Inr (), st\<lparr>ds_peers := (\<lambda>_. None), ds_mtime := None\<rparr>)
      | Inl e \<Rightarrow> (Inl (StatPeersToml e), st)
      | Inr mtime \<Rightarrow>
          if mtime = ds_mtime st then (Inr (), st)
          else
            (case tv_load tv of
               Inl e \<Rightarrow> (Inl (LoadPeers e), st)
             | Inr fresh \<Rightarrow> (Inr (), (apply_peers parse fresh st)\<lparr>ds_mtime := mtime\<rparr>)))"

definition status_of :: "('p \<Rightarrow> str) \<Rightarrow> 'p \<Rightarrow> 'a peer_entry \<Rightarrow> peer_status" where
  "status_of to_base58 peer e =
     \<lparr>ps_name = en_name e, ps_peer_id = to_base58 peer, ps_discovered = en_discovered e,
      ps_last_sync_action = map_option fst (en_last_sync e), ps_last_sync_unix = map_option snd (en_last_sync e)\<rparr>"

definition listed_entries :: "'p list \<Rightarrow> ('p \<Rightarrow> 'a peer_entry option) \<Rightarrow> ('p \<times> 'a peer_entry) list" where
  "listed_entries order m = concat (map (\<lambda>p. case m p of None \<Rightarrow> [] | Some e \<Rightarrow> [(p, e)]) order)"

definition snapshot ::
  "('p \<Rightarrow> str) \<Rightarrow> ('a \<Rightarrow> str) \<Rightarrow> 'p list \<Rightarrow> 'p \<Rightarrow> 'a list \<Rightarrow> ('p, 'a, 'm) daemon_state \<Rightarrow> status_snapshot" where
  "snapshot to_base58 show_addr order local_peer_id listening_addrs st =
     \<lparr>ss_local_peer_id = to_base58 local_peer_id, ss_listening_addrs = map show_addr listening_addrs,
      ss_peers = sort_key ps_name (map (\<lambda>(p, e). status_of to_base58 p e) (listed_entries order (ds_peers st)))\<rparr>"

section \<open>Handlers\<close>

record ('p, 'w, 'oid) daemon_env =
  de_parse :: "str \<Rightarrow> 'p option"
  de_lowest :: instant
  de_json :: json_codec
  de_git :: "('w, 'oid) git_env"

definition not_paired :: "json_codec \<Rightarrow> bytes" where
  "not_paired J = wire_encode J (wire_err ''not a paired peer'')"

definition rate_limited_reply :: "json_codec \<Rightarrow> bytes" where
  "rate_limited_reply J = wire_encode J (wire_err ''rate-limited (ADR-0016: 3 attempts / 60 s)'')"

definition handle_inbound ::
  "('p, 'w, 'oid) daemon_env \<Rightarrow> instant \<Rightarrow> 'm toml_view \<Rightarrow> 'w \<Rightarrow> 'p \<Rightarrow> bytes \<Rightarrow> ('p, 'a, 'm) daemon_state \<Rightarrow> 'p attempt_log \<Rightarrow>
    bytes \<times> ('p, 'a, 'm) daemon_state \<times> 'p attempt_log" where
  "handle_inbound D now tv w peer b st lg =
     (let st = snd (reload_peers_if_changed (de_parse D) tv st) in
      if ds_peers st peer = None then (not_paired (de_json D), st, lg)
      else
        (case check_and_record (de_lowest D) now peer lg of
           (Inl _, lg) \<Rightarrow> (rate_limited_reply (de_json D), st, lg)
         | (Inr _, lg) \<Rightarrow> (serve (de_json D) (de_git D) w b, st, lg)))"

datatype ('p, 'a) discovery_event = Discovered 'p 'a | Expired 'p 'a

definition handle_discovery ::
  "(str \<Rightarrow> 'p option) \<Rightarrow> 'm toml_view \<Rightarrow> ('p, 'a) discovery_event \<Rightarrow> ('p, 'a, 'm) daemon_state \<Rightarrow>
    ('p \<times> 'a) option \<times> ('p, 'a, 'm) daemon_state" where
  "handle_discovery parse tv event st =
     (let st = snd (reload_peers_if_changed parse tv st) in
      case event of
        Discovered peer addr \<Rightarrow>
          (case ds_peers st peer of None \<Rightarrow> (None, st)
           | Some e \<Rightarrow>
               (let e = e\<lparr>en_discovered := True, en_addr := Some addr\<rparr> in
                if en_in_flight e then (None, st\<lparr>ds_peers := (ds_peers st)(peer \<mapsto> e)\<rparr>)
                else (Some (peer, addr), st\<lparr>ds_peers := (ds_peers st)(peer \<mapsto> e\<lparr>en_in_flight := True\<rparr>)\<rparr>)))
      | Expired peer _ \<Rightarrow>
          (None, (case ds_peers st peer of None \<Rightarrow> st
                  | Some e \<Rightarrow> st\<lparr>ds_peers := (ds_peers st)(peer \<mapsto> e\<lparr>en_discovered := False\<rparr>)\<rparr>)))"

fun collect_known_addrs ::
  "'p list \<Rightarrow> ('p, 'a, 'm) daemon_state \<Rightarrow> ('p \<times> 'a) list \<times> ('p, 'a, 'm) daemon_state" where
  "collect_known_addrs [] st = ([], st)"
| "collect_known_addrs (peer # order) st =
     (case ds_peers st peer of None \<Rightarrow> collect_known_addrs order st
      | Some e \<Rightarrow>
          (case en_addr e of
             Some addr \<Rightarrow>
               (if \<not> en_in_flight e then
                  (let (out, st) = collect_known_addrs order (st\<lparr>ds_peers := (ds_peers st)(peer \<mapsto> e\<lparr>en_in_flight := True\<rparr>)\<rparr>) in
                   ((peer, addr) # out, st))
                else collect_known_addrs order st)
           | None \<Rightarrow> collect_known_addrs order st))"

definition clear_in_flight :: "'p \<Rightarrow> ('p, 'a, 'm) daemon_state \<Rightarrow> ('p, 'a, 'm) daemon_state" where
  "clear_in_flight peer st =
     (case ds_peers st peer of None \<Rightarrow> st
      | Some e \<Rightarrow> st\<lparr>ds_peers := (ds_peers st)(peer \<mapsto> e\<lparr>en_in_flight := False\<rparr>)\<rparr>)"

text \<open>The synchronous part of \<open>spawn_sync_with_peer\<close>: the budget, and whether a task is spawned.\<close>

definition spawn_sync_with_peer ::
  "instant \<Rightarrow> instant \<Rightarrow> 'p \<Rightarrow> ('p, 'a, 'm) daemon_state \<Rightarrow> 'p attempt_log \<Rightarrow> bool \<times> ('p, 'a, 'm) daemon_state \<times> 'p attempt_log" where
  "spawn_sync_with_peer lowest now peer st lg =
     (case check_and_record lowest now peer lg of
        (Inl _, lg) \<Rightarrow> (False, clear_in_flight peer st, lg)
      | (Inr _, lg) \<Rightarrow> (True, st, lg))"

text \<open>What the task does with its result; \<open>now_unix\<close> is the clock in seconds.\<close>

definition finish_sync :: "'e + str \<Rightarrow> nat \<Rightarrow> 'p \<Rightarrow> ('p, 'a, 'm) daemon_state \<Rightarrow> ('p, 'a, 'm) daemon_state" where
  "finish_sync result now_unix peer st =
     (case ds_peers st peer of None \<Rightarrow> st
      | Some e \<Rightarrow>
          (let e = e\<lparr>en_in_flight := False\<rparr> in
           st\<lparr>ds_peers := (ds_peers st)(peer \<mapsto>
             (case result of Inr action_name \<Rightarrow> e\<lparr>en_last_sync := Some (action_name, now_unix)\<rparr> | Inl _ \<Rightarrow> e))\<rparr>))"

definition sync_action_name :: "sync_action \<Rightarrow> str" where
  "sync_action_name action =
     (case action of
        UpToDate \<Rightarrow> ''UpToDate''
      | FastForwarded _ _ \<Rightarrow> ''FastForwarded''
      | PeerBehind \<Rightarrow> ''PeerBehind''
      | Rebased _ \<Rightarrow> ''Rebased''
      | AwaitingPeerRebase \<Rightarrow> ''AwaitingPeerRebase''
      | RejectedLeak _ \<Rightarrow> ''RejectedLeak'')"

datatype run_error = DialFailed str | SyncFailed sync_error

definition run_one_sync ::
  "json_codec \<Rightarrow> ('w, 'oid) git_env \<Rightarrow> ('p \<Rightarrow> 'a \<Rightarrow> ('w, str, unit) eff) \<Rightarrow> ('p \<Rightarrow> bytes \<Rightarrow> ('w, str, bytes) eff) \<Rightarrow> ('p \<Rightarrow> str) \<Rightarrow>
    'p \<Rightarrow> 'p \<Rightarrow> 'a \<Rightarrow> ('w, run_error, str) eff" where
  "run_one_sync J G dial request show_id local_peer_id peer addr w =
     then_eff (map_err_st DialFailed (dial peer addr w)) (\<lambda>_ w.
     then_eff (map_err_st SyncFailed (sync_with_peer J G (request peer) (show_id local_peer_id) (show_id peer) w)) (\<lambda>report w.
       (Inr (sync_action_name (sr_action report)), w)))"

section \<open>The loop\<close>

record ('p, 'a, 'm) daemon =
  dm_state :: "('p, 'a, 'm) daemon_state"
  dm_log :: "'p attempt_log"
  dm_pending :: "('p \<times> 'a) list"
  dm_running :: "('p \<times> 'a) list"

datatype ('p, 'a, 'm, 'w) daemon_event =
    Inbound "'m toml_view" 'w 'p bytes
  | Discovery "'m toml_view" "('p, 'a) discovery_event"
  | WatcherTick "'p list"
  | StartDial
  | TaskDone nat "run_error + str" nat

datatype ('p, 'a) daemon_output = Reply instant 'p bytes | Dial instant 'p 'a

definition daemon_init :: "(str \<Rightarrow> 'p option) \<Rightarrow> 'm toml_view \<Rightarrow> peers \<Rightarrow> ('p, 'a, 'm) daemon" where
  "daemon_init parse tv initial_peers =
     \<lparr>dm_state = apply_peers parse initial_peers
        \<lparr>ds_peers = (\<lambda>_. None), ds_mtime = (case tv_meta tv of Inr m \<Rightarrow> m | Inl _ \<Rightarrow> None)\<rparr>,
      dm_log = new_log, dm_pending = [], dm_running = []\<rparr>"

inductive daemon_step ::
  "('p, 'w, 'oid) daemon_env \<Rightarrow> ('p, 'a, 'm) daemon \<Rightarrow> instant \<Rightarrow> ('p, 'a, 'm, 'w) daemon_event \<Rightarrow> ('p, 'a) daemon_output list \<Rightarrow>
    ('p, 'a, 'm) daemon \<Rightarrow> bool" for D where
  inbound: "\<lbrakk>dm_pending d = []; handle_inbound D now tv w peer b (dm_state d) (dm_log d) = (r, st, lg)\<rbrakk> \<Longrightarrow>
    daemon_step D d now (Inbound tv w peer b) [Reply now peer r] (d\<lparr>dm_state := st, dm_log := lg\<rparr>)"
| discovery: "\<lbrakk>dm_pending d = []; handle_discovery (de_parse D) tv ev (dm_state d) = (to_dial, st)\<rbrakk> \<Longrightarrow>
    daemon_step D d now (Discovery tv ev) [] (d\<lparr>dm_state := st, dm_pending := (case to_dial of None \<Rightarrow> [] | Some x \<Rightarrow> [x])\<rparr>)"
| watcher_tick: "\<lbrakk>dm_pending d = []; distinct order; set order = dom (ds_peers (dm_state d));
      collect_known_addrs order (dm_state d) = (candidates, st)\<rbrakk> \<Longrightarrow>
    daemon_step D d now (WatcherTick order) [] (d\<lparr>dm_state := st, dm_pending := candidates\<rparr>)"
| start_dial: "\<lbrakk>dm_pending d = (peer, addr) # rest; spawn_sync_with_peer (de_lowest D) now peer (dm_state d) (dm_log d) = (True, st, lg)\<rbrakk> \<Longrightarrow>
    daemon_step D d now StartDial [Dial now peer addr]
      (d\<lparr>dm_state := st, dm_log := lg, dm_pending := rest, dm_running := dm_running d @ [(peer, addr)]\<rparr>)"
| drop_dial: "\<lbrakk>dm_pending d = (peer, addr) # rest; spawn_sync_with_peer (de_lowest D) now peer (dm_state d) (dm_log d) = (False, st, lg)\<rbrakk> \<Longrightarrow>
    daemon_step D d now StartDial [] (d\<lparr>dm_state := st, dm_log := lg, dm_pending := rest\<rparr>)"
| task_done: "\<lbrakk>i < length (dm_running d); dm_running d ! i = (peer, addr)\<rbrakk> \<Longrightarrow>
    daemon_step D d now (TaskDone i result now_unix) []
      (d\<lparr>dm_state := finish_sync result now_unix peer (dm_state d), dm_running := take i (dm_running d) @ drop (Suc i) (dm_running d)\<rparr>)"

inductive daemon_run ::
  "('p, 'w, 'oid) daemon_env \<Rightarrow> ('p, 'a, 'm) daemon \<Rightarrow> (instant \<times> ('p, 'a, 'm, 'w) daemon_event) list \<Rightarrow> ('p, 'a) daemon_output list \<Rightarrow>
    ('p, 'a, 'm) daemon \<Rightarrow> bool" for D where
  run_nil: "daemon_run D d [] [] d"
| run_cons: "daemon_step D d now ev out d' \<Longrightarrow> daemon_run D d' es outs d'' \<Longrightarrow> daemon_run D d ((now, ev) # es) (out @ outs) d''"

inductive_cases daemon_run_NilE: "daemon_run D d [] outs d'"
inductive_cases daemon_run_ConsE: "daemon_run D d (e # es) outs d'"

section \<open>Lemmas\<close>

subsection \<open>The table under reloads\<close>

definition records_of :: "(str \<Rightarrow> 'p option) \<Rightarrow> 'p \<Rightarrow> peers \<Rightarrow> peers" where
  "records_of parse p ps = filter (\<lambda>r. parse (pr_peer_id r) = Some p) ps"

definition flagged :: "('p \<Rightarrow> 'a peer_entry option) \<Rightarrow> 'p \<Rightarrow> bool" where
  "flagged m p \<longleftrightarrow> (case m p of None \<Rightarrow> False | Some e \<Rightarrow> en_in_flight e)"

lemma flagged_upd [simp]: "flagged (m(q \<mapsto> e)) p = (if p = q then en_in_flight e else flagged m p)"
  by (simp add: flagged_def)

lemma flagged_del [simp]: "flagged (m(q := None)) p = (p \<noteq> q \<and> flagged m p)"
  by (simp add: flagged_def)

lemma flagged_empty [simp]: "\<not> flagged (\<lambda>_. None) p"
  by (simp add: flagged_def)

lemma dom_apply_records:
  "dom (apply_records parse ps old keep) = dom keep \<union> {p. \<exists>r \<in> set ps. parse (pr_peer_id r) = Some p}"
proof (induction parse ps old keep rule: apply_records.induct)
  case (2 parse rec recs old keep)
  then show ?case by (cases "parse (pr_peer_id rec)") (auto simp del: fun_upd_apply)
qed simp

lemma apply_records_none: "records_of parse p ps = [] \<Longrightarrow> apply_records parse ps old keep p = keep p"
  by (induction parse ps old keep rule: apply_records.induct) (auto simp: records_of_def split: option.splits if_splits)

lemma flagged_apply_records:
  "flagged (apply_records parse ps old keep) p \<Longrightarrow> flagged keep p \<or> flagged old p"
  by (induction parse ps old keep rule: apply_records.induct)
     (auto simp: flagged_def from_record_def split: option.splits if_splits)

lemma flagged_apply_records_one:
  "length (records_of parse p ps) = 1 \<Longrightarrow> flagged (apply_records parse ps old keep) p = flagged old p"
proof (induction parse ps old keep rule: apply_records.induct)
  case (2 parse rec recs old keep)
  show ?case
  proof (cases "parse (pr_peer_id rec) = Some p")
    case True
    with "2.prems" have "records_of parse p recs = []" by (simp add: records_of_def)
    with True show ?thesis
      by (simp add: flagged_def apply_records_none from_record_def split: option.split)
  next
    case False
    with "2.prems" have one: "length (records_of parse p recs) = 1" by (simp add: records_of_def)
    show ?thesis
    proof (cases "parse (pr_peer_id rec)")
      case None
      with "2.IH"(1) [OF None one] show ?thesis by simp
    next
      case (Some q)
      with False have "p \<noteq> q" by auto
      with "2.IH"(2) [OF Some one] Some show ?thesis by (simp del: fun_upd_apply)
    qed
  qed
qed (simp add: records_of_def)

text \<open>The peers a view of the file leaves in the table.\<close>

definition pinned_by :: "(str \<Rightarrow> 'p option) \<Rightarrow> 'm toml_view \<Rightarrow> ('p, 'a, 'm) daemon_state \<Rightarrow> 'p set" where
  "pinned_by parse tv st =
     (case tv_meta tv of
        Inl NotFound \<Rightarrow> {}
      | Inl _ \<Rightarrow> dom (ds_peers st)
      | Inr mtime \<Rightarrow>
          if mtime = ds_mtime st then dom (ds_peers st)
          else (case tv_load tv of Inl _ \<Rightarrow> dom (ds_peers st) | Inr ps \<Rightarrow> {p. \<exists>r \<in> set ps. parse (pr_peer_id r) = Some p}))"

text \<open>Every view of the file has exactly one record for \<open>p\<close>, if it has any records.\<close>

definition keeps :: "(str \<Rightarrow> 'p option) \<Rightarrow> 'p \<Rightarrow> 'm toml_view \<Rightarrow> bool" where
  "keeps parse p tv \<longleftrightarrow> tv_meta tv \<noteq> Inl NotFound \<and> (\<forall>ps. tv_load tv = Inr ps \<longrightarrow> length (records_of parse p ps) = 1)"

lemma dom_reload: "dom (ds_peers (snd (reload_peers_if_changed parse tv st))) = pinned_by parse tv st"
  by (auto simp: reload_peers_if_changed_def pinned_by_def apply_peers_def dom_apply_records split: sum.splits io_kind.splits)

lemma flagged_reload: "flagged (ds_peers (snd (reload_peers_if_changed parse tv st))) p \<Longrightarrow> flagged (ds_peers st) p"
  by (auto simp: reload_peers_if_changed_def apply_peers_def split: sum.splits io_kind.splits if_splits dest!: flagged_apply_records)

lemma flagged_reload_keeps:
  "keeps parse p tv \<Longrightarrow> flagged (ds_peers (snd (reload_peers_if_changed parse tv st))) p = flagged (ds_peers st) p"
  by (auto simp: reload_peers_if_changed_def apply_peers_def keeps_def flagged_apply_records_one split: sum.splits io_kind.splits)

lemma clear_in_flight_simps [simp]:
  "dom (ds_peers (clear_in_flight p st)) = dom (ds_peers st)"
  "flagged (ds_peers (clear_in_flight p st)) q = (q \<noteq> p \<and> flagged (ds_peers st) q)"
  by (auto simp: clear_in_flight_def flagged_def split: option.splits)

lemma finish_sync_simps [simp]:
  "dom (ds_peers (finish_sync res t p st)) = dom (ds_peers st)"
  "flagged (ds_peers (finish_sync res t p st)) q = (q \<noteq> p \<and> flagged (ds_peers st) q)"
  by (auto simp: finish_sync_def Let_def flagged_def split: option.splits sum.splits)

subsection \<open>Handlers\<close>

definition dials_to :: "'p \<Rightarrow> ('p \<times> 'a) list \<Rightarrow> nat" where
  "dials_to p xs = length (filter (\<lambda>x. fst x = p) xs)"

lemma dials_to_simps [simp]:
  "dials_to p [] = 0" "dials_to p (x # xs) = of_bool (fst x = p) + dials_to p xs"
  "dials_to p (xs @ ys) = dials_to p xs + dials_to p ys"
  by (simp_all add: dials_to_def)

lemma dials_to_split: "i < length xs \<Longrightarrow> dials_to p xs = dials_to p (take i xs @ drop (Suc i) xs) + of_bool (fst (xs ! i) = p)"
  by (subst id_take_nth_drop [of i xs]) auto

definition new_dials :: "'p \<Rightarrow> ('p, 'a, 'm) daemon_state \<Rightarrow> ('p, 'a, 'm) daemon_state \<Rightarrow> nat" where
  "new_dials p st st' = of_bool (flagged (ds_peers st') p \<and> \<not> flagged (ds_peers st) p)"

lemma collect_known_addrs_flags:
  assumes "collect_known_addrs order st = (out, st')" "distinct order"
  shows "dom (ds_peers st') = dom (ds_peers st)"
    and "flagged (ds_peers st) p \<Longrightarrow> flagged (ds_peers st') p"
    and "dials_to p out = new_dials p st st'"
    and "fst ` set out \<subseteq> dom (ds_peers st)"
    and "p \<notin> set order \<Longrightarrow> ds_peers st' p = ds_peers st p"
proof -
  have "dom (ds_peers st') = dom (ds_peers st) \<and> (flagged (ds_peers st) p \<longrightarrow> flagged (ds_peers st') p) \<and>
     dials_to p out = new_dials p st st' \<and> fst ` set out \<subseteq> dom (ds_peers st) \<and> (p \<notin> set order \<longrightarrow> ds_peers st' p = ds_peers st p)"
    using assms
  proof (induction order arbitrary: st out st')
    case (Cons q order)
    show ?case
    proof (cases "\<exists>e a. ds_peers st q = Some e \<and> en_addr e = Some a \<and> \<not> en_in_flight e")
      case False
      with Cons.prems have "collect_known_addrs order st = (out, st')" by (auto split: option.splits if_splits)
      with Cons.IH [of st out st'] Cons.prems show ?thesis by auto
    next
      case True
      then obtain e a where e: "ds_peers st q = Some e" "en_addr e = Some a" "\<not> en_in_flight e" by auto
      let ?st = "st\<lparr>ds_peers := (ds_peers st)(q \<mapsto> e\<lparr>en_in_flight := True\<rparr>)\<rparr>"
      obtain out' where c: "collect_known_addrs order ?st = (out', st')" "out = (q, a) # out'"
        using Cons.prems e by (auto split: prod.splits)
      note ih = Cons.IH [OF c(1)]
      show ?thesis
      proof (cases "p = q")
        case True
        then have "ds_peers st' p = Some (e\<lparr>en_in_flight := True\<rparr>)" using ih Cons.prems by simp
        then have "flagged (ds_peers st') p" "\<not> flagged (ds_peers st) p" using e True by (simp_all add: flagged_def)
        moreover have "new_dials p ?st st' = 0" using True by (simp add: new_dials_def)
        ultimately show ?thesis using ih Cons.prems e(1) c(2) True by (auto simp: new_dials_def simp del: fun_upd_apply)
      next
        case False
        then have "flagged (ds_peers ?st) p = flagged (ds_peers st) p" "ds_peers ?st p = ds_peers st p" by simp_all
        then show ?thesis using ih Cons.prems e(1) c(2) False by (auto simp: new_dials_def simp del: fun_upd_apply)
      qed
    qed
  qed (simp add: new_dials_def)
  then show "dom (ds_peers st') = dom (ds_peers st)" "flagged (ds_peers st) p \<Longrightarrow> flagged (ds_peers st') p"
    "dials_to p out = new_dials p st st'" "fst ` set out \<subseteq> dom (ds_peers st)" "p \<notin> set order \<Longrightarrow> ds_peers st' p = ds_peers st p"
    by blast+
qed

lemma handle_discovery_flags:
  assumes "handle_discovery parse tv ev st = (to_dial, st')"
  defines "st1 \<equiv> snd (reload_peers_if_changed parse tv st)"
  shows "dom (ds_peers st') = dom (ds_peers st1)"
    and "flagged (ds_peers st1) p \<Longrightarrow> flagged (ds_peers st') p"
    and "dials_to p (case to_dial of None \<Rightarrow> [] | Some x \<Rightarrow> [x]) = new_dials p st1 st'"
    and "to_dial = Some (q, a) \<Longrightarrow> q \<in> dom (ds_peers st1)"
  using assms(1) unfolding st1_def [symmetric] handle_discovery_def
  by (auto simp: Let_def new_dials_def flagged_def split: discovery_event.splits option.splits if_splits)

lemma handle_inbound_state:
  "handle_inbound D now tv w peer b st lg = (r, st', lg') \<Longrightarrow> st' = snd (reload_peers_if_changed (de_parse D) tv st)"
  by (auto simp: handle_inbound_def Let_def split: if_splits prod.splits sum.splits)

lemma spawn_simps:
  "spawn_sync_with_peer lowest now peer st lg = (ok, st', lg') \<Longrightarrow> st' = (if ok then st else clear_in_flight peer st)"
  by (auto simp: spawn_sync_with_peer_def split: prod.splits sum.splits)

subsection \<open>The loop\<close>

definition outstanding :: "'p \<Rightarrow> ('p, 'a, 'm) daemon \<Rightarrow> nat" where
  "outstanding p d = dials_to p (dm_pending d) + dials_to p (dm_running d)"

definition in_flight :: "'p \<Rightarrow> ('p, 'a, 'm) daemon \<Rightarrow> bool" where
  "in_flight p d \<longleftrightarrow> flagged (ds_peers (dm_state d)) p"

definition event_views :: "('p, 'a, 'm, 'w) daemon_event \<Rightarrow> 'm toml_view list" where
  "event_views ev = (case ev of Inbound tv _ _ _ \<Rightarrow> [tv] | Discovery tv _ \<Rightarrow> [tv] | _ \<Rightarrow> [])"

text \<open>How one step moves the flag and the tasks of a peer.  \<open>exact\<close> holds when the step does not drop the
  peer from the table.\<close>

definition balanced :: "bool \<Rightarrow> 'p \<Rightarrow> ('p, 'a, 'm) daemon \<Rightarrow> bool" where
  "balanced exact p d \<longleftrightarrow> (in_flight p d \<longrightarrow> 0 < outstanding p d) \<and> (exact \<longrightarrow> outstanding p d = of_bool (in_flight p d))"

lemma balanced_step:
  assumes "daemon_step D d now ev out d'" "balanced exact p d"
    and "\<And>tv. exact \<Longrightarrow> tv \<in> set (event_views ev) \<Longrightarrow> keeps (de_parse D) p tv"
  shows "balanced exact p d'"
  using assms(1)
proof cases
  case (inbound tv w peer b r st lg)
  with assms(2,3) flagged_reload [of "de_parse D" tv "dm_state d" p] flagged_reload_keeps [of "de_parse D" p tv "dm_state d"]
    handle_inbound_state [OF inbound(5)]
  show ?thesis by (cases exact) (auto simp: balanced_def in_flight_def outstanding_def event_views_def)
next
  case (discovery tv de to_dial st)
  have "dials_to p (case to_dial of None \<Rightarrow> [] | Some x \<Rightarrow> [x]) =
      new_dials p (snd (reload_peers_if_changed (de_parse D) tv (dm_state d))) st"
    by (rule handle_discovery_flags(3) [OF discovery(5)])
  with assms(2,3) discovery(1-4) flagged_reload [of "de_parse D" tv "dm_state d" p]
    flagged_reload_keeps [of "de_parse D" p tv "dm_state d"] handle_discovery_flags(2) [OF discovery(5), of p]
  show ?thesis by (cases exact) (auto simp: balanced_def in_flight_def outstanding_def event_views_def new_dials_def)
next
  case (watcher_tick order candidates st)
  with assms(2) collect_known_addrs_flags(2,3) [OF watcher_tick(7,5), of p]
  show ?thesis by (auto simp: balanced_def in_flight_def outstanding_def new_dials_def)
next
  case (start_dial peer addr rest st lg)
  with assms(2) spawn_simps [OF start_dial(5)] show ?thesis by (auto simp: balanced_def in_flight_def outstanding_def)
next
  case (drop_dial peer addr rest st lg)
  with assms(2) spawn_simps [OF drop_dial(5)] show ?thesis
    by (cases "flagged (ds_peers (dm_state d)) p"; cases exact) (auto simp: balanced_def in_flight_def outstanding_def)
next
  case (task_done i peer addr result now_unix)
  have fl: "in_flight p d' \<longleftrightarrow> p \<noteq> peer \<and> in_flight p d" using task_done(3) by (simp add: in_flight_def)
  have "outstanding p d = outstanding p d' + of_bool (peer = p)"
    using dials_to_split [OF task_done(4), of p] task_done(3,5) by (simp add: outstanding_def)
  with assms(2) fl show ?thesis by (cases "in_flight p d"; cases "peer = p") (auto simp: balanced_def)
qed

lemma balanced_run:
  assumes "daemon_run D d es outs d'" "balanced exact p d"
    and "\<And>now ev tv. exact \<Longrightarrow> (now, ev) \<in> set es \<Longrightarrow> tv \<in> set (event_views ev) \<Longrightarrow> keeps (de_parse D) p tv"
  shows "balanced exact p d'"
  using assms
proof (induction rule: daemon_run.induct)
  case (run_cons d now ev out d' es outs d'')
  have "balanced exact p d'"
    by (rule balanced_step [OF run_cons.hyps(1) run_cons.prems(1)]) (rule run_cons.prems(2) [of now ev]; simp)
  then show ?case 
  proof (rule run_cons.IH)
    fix now' ev' tv assume "exact" "(now', ev') \<in> set es" "tv \<in> set (event_views ev')"
    then show "keeps (de_parse D) p tv" by (intro run_cons.prems(2) [of now' ev']) simp_all
  qed
qed

lemma balanced_init:
  assumes "d = daemon_init parse tv ps" shows "balanced exact p d"
proof -
  have "\<not> in_flight p d"
    unfolding in_flight_def daemon_init_def apply_peers_def assms by (auto dest: flagged_apply_records)
  moreover have "outstanding p d = 0" by (simp add: outstanding_def daemon_init_def assms)
  ultimately show ?thesis by (simp add: balanced_def)
qed

subsection \<open>The budget\<close>

text \<open>The instants at which a run talks to a peer: answers an inbound request with something else than
  the two refusals, or dials it.\<close>

fun talks :: "json_codec \<Rightarrow> 'p \<Rightarrow> ('p, 'a) daemon_output list \<Rightarrow> instant list" where
  "talks J p [] = []"
| "talks J p (Reply now q r # outs) =
     (if q = p \<and> r \<notin> {not_paired J, rate_limited_reply J} then now # talks J p outs else talks J p outs)"
| "talks J p (Dial now q a # outs) = (if q = p then now # talks J p outs else talks J p outs)"

lemma talks_append: "talks J p (xs @ ys) = talks J p xs @ talks J p ys"
  by (induction J p xs rule: talks.induct) auto

definition accepted :: "'p \<Rightarrow> (instant \<times> 'p) list \<Rightarrow> instant list" where
  "accepted p as = map fst (filter (\<lambda>(_, q). q = p) as)"

lemma attempts_subseq: "subseq (attempts lowest cs lg) cs"
  by (induction lowest cs lg rule: attempts.induct) (auto split: prod.splits sum.splits)

lemma subseq_nth_le:
  fixes us ts :: "'b :: linorder list"
  shows "subseq us ts \<Longrightarrow> sorted ts \<Longrightarrow> k < length us \<Longrightarrow> ts ! k \<le> us ! k"
proof (induction arbitrary: k rule: list_emb.induct)
  case (list_emb_Cons us ts y)
  then have "length us \<le> length ts" by (intro list_emb_length)
  then have "(y # ts) ! k \<le> (y # ts) ! Suc k" using list_emb_Cons.prems by (intro sorted_nth_mono) auto
  also have "\<dots> \<le> us ! k" using list_emb_Cons by simp
  finally show ?case .
next
  case (list_emb_Cons2 x y us ts)
  then show ?case by (cases k) auto
qed simp

lemma spread_Cons:
  assumes "0 < n"
  shows "spread n win (t # ts) \<longleftrightarrow> (n \<le> length ts \<longrightarrow> t + win < ts ! (n - 1)) \<and> spread n win ts"
proof (intro iffI conjI)
  assume sp: "spread n win (t # ts)"
  show "n \<le> length ts \<longrightarrow> t + win < ts ! (n - 1)" using sp [unfolded spread_def, rule_format, of 0] assms by (auto simp: nth_Cons')
  show "spread n win ts" unfolding spread_def
    using sp [unfolded spread_def, rule_format, of "Suc _"] by auto
next
  assume sp: "(n \<le> length ts \<longrightarrow> t + win < ts ! (n - 1)) \<and> spread n win ts"
  show "spread n win (t # ts)" unfolding spread_def
  proof (intro allI impI)
    fix i assume "i + n < length (t # ts)"
    then show "(t # ts) ! i + win < (t # ts) ! (i + n)"
      using sp assms by (cases i) (auto simp: spread_def nth_Cons')
  qed
qed

lemma spread_subseq:
  assumes "subseq us ts" "sorted ts" "0 < n" "spread n win ts"
  shows "spread n win us"
  using assms
proof (induction rule: list_emb.induct)
  case (list_emb_Cons2 x y us ts)
  have "us ! (n - 1) \<ge> ts ! (n - 1)" if "n \<le> length us"
    using subseq_nth_le [OF list_emb_Cons2.hyps(2), of "n - 1"] list_emb_Cons2.prems that by simp
  moreover have "length us \<le> length ts" using list_emb_Cons2.hyps(2) by (rule list_emb_length)
  moreover have "spread n win us" using list_emb_Cons2 by (simp add: spread_Cons)
  ultimately show ?case using list_emb_Cons2.prems list_emb_Cons2.hyps(1) by (fastforce simp: spread_Cons)
next
  case (list_emb_Cons us ts y)
  then show ?case by (simp add: spread_Cons)
qed (simp add: spread_def)

lemma sorted_subseq:
  fixes us ts :: "'b :: linorder list"
  shows "subseq us ts \<Longrightarrow> sorted ts \<Longrightarrow> sorted us"
  by (auto simp: subseq_conv_nths sorted_nths)

text \<open>Every step makes at most one check, at its own time, and talks only if the check is passed.\<close>

lemma step_check:
  assumes "daemon_step D d now ev out d'"
  shows "(out = [] \<or> (\<exists>q r. out = [Reply now q r] \<and> r \<in> {not_paired (de_json D), rate_limited_reply (de_json D)})) \<and> dm_log d' = dm_log d \<or>
    (\<exists>q res. check_and_record (de_lowest D) now q (dm_log d) = (res, dm_log d') \<and>
      (case res of Inl _ \<Rightarrow> \<forall>p. talks (de_json D) p out = []
       | Inr _ \<Rightarrow> \<forall>p. talks (de_json D) p out = [] \<or> talks (de_json D) p out = [now] \<and> p = q))"
  using assms
proof cases
  case (inbound tv w peer b r st lg)
  then show ?thesis
    by (auto simp: handle_inbound_def Let_def split: if_splits prod.splits sum.splits)
next
  case (start_dial peer addr rest st lg)
  then show ?thesis by (auto simp: spawn_sync_with_peer_def split: prod.splits sum.splits)
next
  case (drop_dial peer addr rest st lg)
  then show ?thesis by (auto simp: spawn_sync_with_peer_def split: prod.splits sum.splits)
qed auto

lemma run_checks:
  assumes "daemon_run D d es outs d'" "sorted (map fst es)"
  shows "\<exists>cs. sorted (map fst cs) \<and> fst ` set cs \<subseteq> fst ` set es \<and>
    (\<forall>p. subseq (talks (de_json D) p outs) (accepted p (attempts (de_lowest D) cs (dm_log d))))"
  using assms
proof (induction rule: daemon_run.induct)
  case (run_nil d)
  show ?case by (intro exI [of _ "[]"]) simp
next
  case (run_cons d now ev out d' es outs d'')
  then obtain cs where cs: "sorted (map fst cs)" "fst ` set cs \<subseteq> fst ` set es"
      "\<And>p. subseq (talks (de_json D) p outs) (accepted p (attempts (de_lowest D) cs (dm_log d')))" by auto
  have quiet: ?case if "\<forall>p. talks (de_json D) p out = []" "dm_log d' = dm_log d"
    using cs that run_cons.prems by (intro exI [of _ cs]) (auto simp: talks_append)
  from step_check [OF run_cons.hyps(1)] show ?case
  proof (elim disjE conjE exE)
    assume "out = []" "dm_log d' = dm_log d"
    then show ?thesis by (intro quiet) simp_all
  next
    fix q r assume "out = [Reply now q r]" "r \<in> {not_paired (de_json D), rate_limited_reply (de_json D)}" "dm_log d' = dm_log d"
    then show ?thesis by (intro quiet) simp_all
  next
    fix q res
    assume c: "check_and_record (de_lowest D) now q (dm_log d) = (res, dm_log d')"
      "case res of Inl _ \<Rightarrow> \<forall>p. talks (de_json D) p out = []
       | Inr _ \<Rightarrow> \<forall>p. talks (de_json D) p out = [] \<or> talks (de_json D) p out = [now] \<and> p = q"
    have "subseq (talks (de_json D) p (out @ outs)) (accepted p (attempts (de_lowest D) ((now, q) # cs) (dm_log d)))" for p
    proof (cases res)
      case (Inl e)
      then show ?thesis using c cs(3) [of p] by (simp add: talks_append)
    next
      case (Inr u)
      then have "talks (de_json D) p out = [] \<or> talks (de_json D) p out = [now] \<and> p = q" using c(2) by simp
      then show ?thesis using c(1) cs(3) [of p] Inr by (elim disjE conjE) (auto simp: talks_append accepted_def)
    qed
    moreover have "\<forall>t \<in> fst ` set cs. now \<le> t" using cs(2) run_cons.prems by (fastforce simp: subset_iff)
    ultimately show ?thesis using cs(1,2) by (intro exI [of _ "(now, q) # cs"] conjI allI) auto
  qed
qed

section \<open>Properties\<close>


text \<open>C23. One sync per peer: in every run, a peer whose flag \<open>in_flight\<close> is set has a dial to come or a sync
  task running, so no peer is left blocked; and for a peer that every version of \<open>peers.toml\<close> the daemon
  sees names exactly once, there is never more than one dial or task at a time, and exactly one while the
  flag is set.\<close>

theorem daemon_single_flight:
  assumes "daemon_run D (daemon_init (de_parse D) tv ps) es outs d"
  shows "(in_flight p d \<longrightarrow> 0 < outstanding p d) \<and>
    ((\<forall>(_, ev) \<in> set es. \<forall>tv \<in> set (event_views ev). keeps (de_parse D) p tv) \<longrightarrow> outstanding p d = of_bool (in_flight p d))"
proof (intro conjI impI)
  show "0 < outstanding p d" if "in_flight p d"
    using balanced_run [OF assms balanced_init [OF refl], of False p] that by (simp add: balanced_def)
  show "outstanding p d = of_bool (in_flight p d)" if "\<forall>(_, ev) \<in> set es. \<forall>tv \<in> set (event_views ev). keeps (de_parse D) p tv"
  proof -
    have "balanced True p d" by (rule balanced_run [OF assms balanced_init [OF refl]]) (use that in fastforce)
    then show ?thesis by (simp add: balanced_def)
  qed
qed

text \<open>The peers the table holds after an event.\<close>

definition table_after :: "('p, 'w, 'oid) daemon_env \<Rightarrow> ('p, 'a, 'm) daemon \<Rightarrow> ('p, 'a, 'm, 'w) daemon_event \<Rightarrow> 'p set" where
  "table_after D d ev = (case event_views ev of [] \<Rightarrow> dom (ds_peers (dm_state d)) | tv # _ \<Rightarrow> pinned_by (de_parse D) tv (dm_state d))"

lemma table_step: "daemon_step D d now ev out d' \<Longrightarrow> dom (ds_peers (dm_state d')) = table_after D d ev"
proof (induction rule: daemon_step.induct)
  case (inbound d now tv w peer b r st lg)
  then show ?case by (simp add: table_after_def event_views_def dom_reload handle_inbound_state [OF inbound(2)])
next
  case (discovery d tv ev to_dial st now)
  then show ?case by (simp add: table_after_def event_views_def dom_reload handle_discovery_flags(1))
next
  case (watcher_tick d order candidates st now)
  then show ?case by (simp add: table_after_def event_views_def collect_known_addrs_flags(1))
next
  case (drop_dial d peer addr rest now st lg)
  then show ?case using spawn_simps [OF drop_dial(2)] by (simp add: table_after_def event_views_def)
next
  case (start_dial d peer addr rest now st lg)
  then show ?case using spawn_simps [OF start_dial(2)] by (simp add: table_after_def event_views_def)
qed (simp_all add: table_after_def event_views_def)

definition pending_known :: "('p, 'a, 'm) daemon \<Rightarrow> bool" where
  "pending_known d \<longleftrightarrow> fst ` set (dm_pending d) \<subseteq> dom (ds_peers (dm_state d))"

lemma pending_step: "daemon_step D d now ev out d' \<Longrightarrow> pending_known d \<Longrightarrow> pending_known d'"
proof (induction rule: daemon_step.induct)
  case (discovery d tv ev to_dial st now)
  then show ?case
    by (cases to_dial) (auto simp: pending_known_def handle_discovery_flags(1) dest: handle_discovery_flags(4))
next
  case (watcher_tick d order candidates st now)
  then show ?case using collect_known_addrs_flags(1,4) [OF watcher_tick(4,2)] by (simp add: pending_known_def)
next
  case (start_dial d peer addr rest now st lg)
  then show ?case using spawn_simps [OF start_dial(2)] by (simp add: pending_known_def)
next
  case (drop_dial d peer addr rest now st lg)
  then show ?case using spawn_simps [OF drop_dial(2)] by (simp add: pending_known_def)
qed (simp_all add: pending_known_def)

lemma pending_run: "daemon_run D d es outs d' \<Longrightarrow> pending_known d \<Longrightarrow> pending_known d'"
  by (induction rule: daemon_run.induct) (auto dest: pending_step)

text \<open>C22. Only pinned peers: after every step of every run the table holds exactly the peers of the last
  version of \<open>peers.toml\<close> that was read, none if the file is gone, and a peer that gets an answer other
  than a refusal, or is dialled, in that step is one of them.\<close>

theorem only_pinned_peers:
  assumes "daemon_run D (daemon_init (de_parse D) tv ps) es outs d" "daemon_step D d now ev out d'"
  shows "dom (ds_peers (dm_state d')) = table_after D d ev \<and> (talks (de_json D) p out \<noteq> [] \<longrightarrow> p \<in> table_after D d ev)"
proof -
  have pk: "pending_known d" using pending_run [OF assms(1)] by (simp add: pending_known_def daemon_init_def)
  have "p \<in> table_after D d ev" if "talks (de_json D) p out \<noteq> []"
    using assms(2)
  proof cases
    case (inbound tv w peer b r st lg)
    then have "p = peer" "r \<noteq> not_paired (de_json D)" using that by (auto split: if_splits)
    then have "p \<in> dom (ds_peers st)" using inbound(5) by (auto simp: handle_inbound_def Let_def split: if_splits prod.splits sum.splits)
    then show ?thesis using table_step [OF assms(2)] inbound(3) by simp
  next
    case (start_dial peer addr rest st lg)
    then have "p \<in> fst ` set (dm_pending d)" using that by (auto split: if_splits)
    then show ?thesis using pk start_dial(1) by (auto simp: pending_known_def table_after_def event_views_def)
  qed (use that in auto)
  with table_step [OF assms(2)] show ?thesis by blast
qed

section \<open>Runs of one daemon with one peer\<close>

definition demo_daemon :: "(str, str, nat) daemon_env" where
  "demo_daemon = \<lparr>de_parse = Some, de_lowest = 0, de_json = mark_json, de_git = demo_env\<rparr>"

definition laptop :: peer_record where
  "laptop = \<lparr>pr_name = ''laptop'', pr_peer_id = ''12D3'', pr_noise_key = ''00'', pr_paired_at = ''t0''\<rparr>"

definition demo_view :: "nat \<Rightarrow> nat toml_view" where
  "demo_view m = \<lparr>tv_meta = Inr (Some m), tv_load = Inr [laptop]\<rparr>"

definition gone_view :: "nat toml_view" where
  "gone_view = \<lparr>tv_meta = Inl NotFound, tv_load = Inr []\<rparr>"

definition demo_start :: "(str, str, nat) daemon" where
  "demo_start = daemon_init Some (demo_view 0) [laptop]"

text \<open>One step forward from a configuration whose next state is computed.\<close>

definition after_discovery ::
  "('p, 'w, 'oid) daemon_env \<Rightarrow> 'm toml_view \<Rightarrow> ('p, 'a) discovery_event \<Rightarrow> ('p, 'a, 'm) daemon \<Rightarrow> ('p, 'a, 'm) daemon" where
  "after_discovery D tv ev d = (let (to_dial, st) = handle_discovery (de_parse D) tv ev (dm_state d) in
     d\<lparr>dm_state := st, dm_pending := (case to_dial of None \<Rightarrow> [] | Some x \<Rightarrow> [x])\<rparr>)"

lemma discovery_step:
  "dm_pending d = [] \<Longrightarrow> daemon_step D d now (Discovery tv ev) [] (after_discovery D tv ev d)"
  by (simp add: after_discovery_def discovery split: prod.split)

definition after_dial :: "('p, 'w, 'oid) daemon_env \<Rightarrow> instant \<Rightarrow> ('p, 'a, 'm) daemon \<Rightarrow> ('p, 'a, 'm) daemon" where
  "after_dial D now d = d\<lparr>dm_log := snd (check_and_record (de_lowest D) now (fst (hd (dm_pending d))) (dm_log d)),
     dm_pending := tl (dm_pending d), dm_running := dm_running d @ [hd (dm_pending d)]\<rparr>"

lemma dial_step:
  assumes "dm_pending d = (peer, addr) # rest" "fst (check_and_record (de_lowest D) now peer (dm_log d)) = Inr ()"
  shows "daemon_step D d now StartDial [Dial now peer addr] (after_dial D now d)"
proof -
  obtain lg where "check_and_record (de_lowest D) now peer (dm_log d) = (Inr (), lg)"
    using assms(2) by (cases "check_and_record (de_lowest D) now peer (dm_log d)") auto
  with start_dial [OF assms(1), of D now "dm_state d" lg] show ?thesis
    by (simp add: spawn_sync_with_peer_def after_dial_def assms(1))
qed

definition one_dial :: "(str, str, nat) daemon" where
  "one_dial = after_dial demo_daemon 60000000000 (after_discovery demo_daemon (demo_view 0) (Discovered ''12D3'' ''/ip4'') demo_start)"

definition two_dials :: "(str, str, nat) daemon" where
  "two_dials = after_dial demo_daemon 60000000001 (after_discovery demo_daemon (demo_view 1) (Discovered ''12D3'' ''/ip4'')
     (after_discovery demo_daemon gone_view (Expired ''12D3'' ''/ip4'') one_dial))"

lemma one_dial_run:
  "daemon_run demo_daemon (daemon_init (de_parse demo_daemon) (demo_view 0) [laptop])
     [(60000000000, Discovery (demo_view 0) (Discovered ''12D3'' ''/ip4'')), (60000000000, StartDial)]
     [Dial 60000000000 ''12D3'' ''/ip4''] one_dial"
proof -
  have 1: "daemon_step demo_daemon demo_start 60000000000 (Discovery (demo_view 0) (Discovered ''12D3'' ''/ip4'')) []
      (after_discovery demo_daemon (demo_view 0) (Discovered ''12D3'' ''/ip4'') demo_start)"
    by (rule discovery_step) code_simp
  have 2: "daemon_step demo_daemon (after_discovery demo_daemon (demo_view 0) (Discovered ''12D3'' ''/ip4'') demo_start) 60000000000 StartDial
      [Dial 60000000000 ''12D3'' ''/ip4''] one_dial"
    unfolding one_dial_def by (rule dial_step [where rest = "[]"]) code_simp+
  show ?thesis using run_cons [OF 1 run_cons [OF 2 run_nil]] by (simp add: demo_start_def demo_daemon_def)
qed

text \<open>Where a peer is removed and paired again while a sync with it is running, the new record starts with
  the flag clear and the peer is dialled a second time.\<close>

lemma readded_peer_dialled_twice:
  "\<exists>es outs. daemon_run demo_daemon one_dial es outs two_dials \<and> outstanding ''12D3'' one_dial = 1 \<and> outstanding ''12D3'' two_dials = 2"
proof -
  have 1: "daemon_step demo_daemon one_dial 60000000001 (Discovery gone_view (Expired ''12D3'' ''/ip4'')) []
      (after_discovery demo_daemon gone_view (Expired ''12D3'' ''/ip4'') one_dial)"
    by (rule discovery_step) code_simp
  have 2: "daemon_step demo_daemon (after_discovery demo_daemon gone_view (Expired ''12D3'' ''/ip4'') one_dial) 60000000001
      (Discovery (demo_view 1) (Discovered ''12D3'' ''/ip4'')) []
      (after_discovery demo_daemon (demo_view 1) (Discovered ''12D3'' ''/ip4'') (after_discovery demo_daemon gone_view (Expired ''12D3'' ''/ip4'') one_dial))"
    by (rule discovery_step) code_simp
  have 3: "daemon_step demo_daemon
      (after_discovery demo_daemon (demo_view 1) (Discovered ''12D3'' ''/ip4'') (after_discovery demo_daemon gone_view (Expired ''12D3'' ''/ip4'') one_dial))
      60000000001 StartDial [Dial 60000000001 ''12D3'' ''/ip4''] two_dials"
    unfolding two_dials_def by (rule dial_step [where rest = "[]"]) code_simp+
  have "outstanding ''12D3'' one_dial = 1" "outstanding ''12D3'' two_dials = 2" by code_simp+
  with run_cons [OF 1 run_cons [OF 2 run_cons [OF 3 run_nil]]] show ?thesis by blast
qed


theorem daemon_single_flight_witness: "in_flight ''12D3'' one_dial \<and> outstanding ''12D3'' one_dial = 1"
proof -
  have fl: "in_flight ''12D3'' one_dial" by code_simp
  have "keeps Some ''12D3'' (demo_view 0)" by (simp add: keeps_def demo_view_def records_of_def laptop_def)
  with daemon_single_flight [OF one_dial_run, of "''12D3''"] fl show ?thesis by (simp add: event_views_def demo_daemon_def)
qed

theorem only_pinned_peers_witness: "dom (ds_peers (dm_state (after_discovery demo_daemon gone_view (Expired ''12D3'' ''/ip4'') one_dial))) = {}"
proof -
  have "daemon_step demo_daemon one_dial 60000000001 (Discovery gone_view (Expired ''12D3'' ''/ip4'')) []
      (after_discovery demo_daemon gone_view (Expired ''12D3'' ''/ip4'') one_dial)"
    by (rule discovery_step) code_simp
  from only_pinned_peers [OF one_dial_run this] show ?thesis by (simp add: table_after_def event_views_def pinned_by_def gone_view_def)
qed

end
