(* ===== verification/Edit.thy ===== *)
theory Edit
  imports Identity
begin

text \<open>
  \<open>bypass edit\<close> (\<open>bypass-cli/src/edit.rs\<close>): the plaintext of an entry staged in a private scratch
  directory, an editor on it, the result stored when it differs, and the scratch directory shredded on
  every way out.  The world is a pair: the world of the store, and the file system that holds the
  temporary directories (paths from \<open>/\<close>).  The editor is a process: an effect on both.
\<close>

section \<open>The workspace\<close>

type_synonym ('w, 'z) edit_world = "'w \<times> 'z config_world_scheme"

datatype ('ce, 'se, 've) edit_error =
    EditStore "('ce, 'se, 've) store_error"
  | NoTempdir
  | CreateWorkspace path io_kind
  | CreateTempfile path io_kind
  | WriteTempfile path io_kind
  | SyncTempfile path io_kind
  | SpawnEditor str io_kind
  | EditorExited nat
  | ReadTempfile path io_kind

record ('w, 'z) edit_env =
  ee_editor :: str                                          \<comment> \<open>\<open>$EDITOR\<close>, or \<open>vi\<close>\<close>
  ee_temp_dir :: path                                       \<comment> \<open>\<open>std::env::temp_dir()\<close>\<close>
  ee_sh :: "str \<Rightarrow> (('w, 'z) edit_world, io_kind, nat) eff"   \<comment> \<open>\<open>sh -c\<close>: the exit status\<close>

text \<open>\<open>Path::is_dir\<close>, \<open>set_permissions\<close>, \<open>remove_dir\<close>.\<close>

definition dir_exists :: "'z fs_world_scheme \<Rightarrow> path \<Rightarrow> bool" where
  "dir_exists w p \<longleftrightarrow> lstat w p = Inr Dir"

definition chmod :: "path \<Rightarrow> nat \<Rightarrow> ('z config_world_scheme, io_kind, unit) eff" where
  "chmod p m = attempt (\<lambda>w. if node_at w p = None then (Inl NotFound, w) else (Inr (), w\<lparr>modes := (modes w)(p := m)\<rparr>))"

definition rmdir :: "path \<Rightarrow> ('z fs_world_scheme, io_kind, unit) eff" where
  "rmdir p = attempt (\<lambda>w. case node_at w p of
       Some Dir \<Rightarrow> (if children w p = [] then (Inr (), del_node p w) else (Inl OtherIo, w))
     | Some _ \<Rightarrow> (Inl NotADirectory, w)
     | None \<Rightarrow> (Inl NotFound, w))"

definition shm :: path where "shm = [''dev'', ''shm'']"

definition probe_path :: "'z fs_world_scheme \<Rightarrow> path" where
  "probe_path w = shm @ [''bypass.probe.'' @ show_nat (pid w)]"

definition pick_tempdir :: "path \<Rightarrow> ('z config_world_scheme, ('ce, 'se, 've) edit_error, path) eff" where
  "pick_tempdir temp_dir w =
     (let fallback = (\<lambda>w. (if dir_exists w temp_dir then Inr temp_dir else Inl NoTempdir, w)) in
      if dir_exists w shm then
        (let probe = probe_path w in
         case create_new probe w of
           (Inr _, w) \<Rightarrow> (Inr shm, snd (unlink probe w))
         | (Inl _, w) \<Rightarrow> fallback w)
      else fallback w)"

definition tempfile_name :: "relpath \<Rightarrow> str" where
  "tempfile_name e = map (\<lambda>c. if c = SLASH \<or> c = BACKSLASH then CHR ''_'' else c) (file_name e)"

definition unique_dir_name :: "'z fs_world_scheme \<Rightarrow> str" where
  "unique_dir_name w = ''bypass-edit.'' @ show_nat (pid w) @ ''.'' @ show_nat (nanos w (tick w))"

text \<open>Modes \<open>0700\<close> and \<open>0600\<close>; the result of the first one is dropped.\<close>

definition stage_workspace ::
  "path \<Rightarrow> relpath \<Rightarrow> bytes \<Rightarrow> ('z config_world_scheme, ('ce, 'se, 've) edit_error, path \<times> path) eff" where
  "stage_workspace temp_dir e plaintext w =
     then_eff (pick_tempdir temp_dir w) (\<lambda>parent w.
       let dir = parent @ [unique_dir_name w] in
       then_eff (map_err_st (CreateWorkspace dir) (mkdir dir w)) (\<lambda>_ w.
         let w = snd (chmod dir 448 w); tmp = dir @ [tempfile_name e] in
         then_eff (map_err_st (CreateTempfile tmp) (create_private tmp w)) (\<lambda>_ w.
         then_eff (map_err_st (WriteTempfile tmp) (write_at tmp 0 plaintext w)) (\<lambda>_ w.
         then_eff (map_err_st (SyncTempfile tmp) (sync_all w)) (\<lambda>_ w.
           (Inr (dir, tmp), w))))))"

text \<open>\<open>EditWorkspace::drop\<close>: shred every regular file that is listed, then remove the directory.\<close>

fun shred_files :: "path list \<Rightarrow> 'z fs_world_scheme \<Rightarrow> 'z fs_world_scheme" where
  "shred_files [] w = w"
| "shred_files (p # ps) w =
     shred_files ps (case node_at w p of Some (File _) \<Rightarrow> snd (overwrite_then_unlink p w) | _ \<Rightarrow> w)"

definition drop_workspace :: "path \<Rightarrow> 'z fs_world_scheme \<Rightarrow> 'z fs_world_scheme" where
  "drop_workspace dir w =
     (let w = (case fs_read_dir w dir of Inr entries \<Rightarrow> shred_files entries w | Inl _ \<Rightarrow> w) in
      snd (rmdir dir w))"

section \<open>The command\<close>

text \<open>The path as the shell sees it: in single quotes, each quote in it as \<open>'\''\<close>.\<close>

abbreviation QUOTE :: char where "QUOTE \<equiv> CHR 0x27"

definition escape_quotes :: "str \<Rightarrow> str" where
  "escape_quotes s = replace_char QUOTE [QUOTE, BACKSLASH, QUOTE, QUOTE] s"

definition os_path :: "path \<Rightarrow> str" where
  "os_path p = concat (map (\<lambda>s. SLASH # s) p)"

definition editor_command :: "str \<Rightarrow> path \<Rightarrow> str" where
  "editor_command editor p = editor @ '' '' @ [QUOTE] @ escape_quotes (from_utf8_lossy (os_path p)) @ [QUOTE]"

definition spawn_editor :: "('w, 'z) edit_env \<Rightarrow> path \<Rightarrow> (('w, 'z) edit_world, ('ce, 'se, 've) edit_error, unit) eff" where
  "spawn_editor E p s =
     (let cmd = editor_command (ee_editor E) p in
      then_eff (map_err_st (SpawnEditor cmd) (ee_sh E cmd s)) (\<lambda>status s.
        if status \<noteq> 0 then (Inl (EditorExited status), s) else (Inr (), s)))"

text \<open>Steps 3 to 5; whether the entry was saved.\<close>

definition edit_staged ::
  "('w, 'z) edit_env \<Rightarrow> ('w, 'ce, 'se, 've) store \<Rightarrow> relpath \<Rightarrow> bytes \<Rightarrow> path \<Rightarrow>
     (('w, 'z) edit_world, ('ce, 'se, 've) edit_error, bool) eff" where
  "edit_staged E st e existing tmp s =
     then_eff (spawn_editor E tmp s) (\<lambda>_ s.
     then_eff (map_err (ReadTempfile tmp) (fs_read (snd s) tmp), s) (\<lambda>new_plaintext s.
       if new_plaintext = existing then (Inr False, s)
       else (case store_insert st e new_plaintext True (fst s) of
           (r, w) \<Rightarrow> (map_err EditStore (map_sum id (\<lambda>_. True) r), (w, snd s)))))"

definition existing_plaintext ::
  "('w, 'ce, 'se, 've) store \<Rightarrow> relpath \<Rightarrow> 'w \<Rightarrow> ('ce, 'se, 've) edit_error + bytes" where
  "existing_plaintext st e w =
     (case store_show st e w of
        Inr b \<Rightarrow> Inr b
      | Inl (StoreNotFound _) \<Rightarrow> Inr []
      | Inl err \<Rightarrow> Inl (EditStore err))"

definition edit_run ::
  "('w, 'z) edit_env \<Rightarrow> ('w, 'ce, 'se, 've) store \<Rightarrow> relpath \<Rightarrow>
     (('w, 'z) edit_world, ('ce, 'se, 've) edit_error, bool) eff" where
  "edit_run E st e s =
     then_eff (existing_plaintext st e (fst s), s) (\<lambda>existing s.
     case stage_workspace (ee_temp_dir E) e existing (snd s) of
       (Inl err, t) \<Rightarrow> (Inl err, (fst s, t))
     | (Inr (dir, tmp), t) \<Rightarrow>
         (case edit_staged E st e existing tmp (fst s, t) of
            (r, s) \<Rightarrow> (r, (fst s, drop_workspace dir (snd s)))))"

section \<open>A disk that works\<close>

text \<open>No call fails, everything can be read.\<close>

definition sound_disk :: "'z fs_world_scheme \<Rightarrow> bool" where
  "sound_disk w \<longleftrightarrow> faults w = (\<lambda>_. None) \<and> no_stat w = (\<lambda>_. False) \<and> no_read w = (\<lambda>_. False)"

definition calm :: "'z fs_world_scheme \<Rightarrow> bool" where
  "calm w \<longleftrightarrow> fs_ok w \<and> sound_disk w"

lemma sound_off [simp]:
  "sound_disk (tick_on w) = sound_disk w" "sound_disk (put_node p n w) = sound_disk w" "sound_disk (del_node p w) = sound_disk w"
  "sound_disk (w\<lparr>drawn := k\<rparr>) = sound_disk w"
  by (simp_all add: sound_disk_def tick_on_def put_node_def del_node_def)

lemma sound_modes [simp]: "sound_disk (w\<lparr>modes := m\<rparr>) = sound_disk w"
  by (simp add: sound_disk_def)

lemma sound_attempt [simp]: "sound_disk w \<Longrightarrow> attempt act w = act (tick_on w)"
  by (simp add: attempt_def sound_disk_def)

lemma sound_calls [simp]:
  assumes "sound_disk w"
  shows "write_at p pos new w = (Inr (), put_node p (File (overlay pos new (case node_at w p of Some (File b) \<Rightarrow> b | _ \<Rightarrow> []))) (tick_on w))"
    and "sync_all w = (Inr (), tick_on w)"
    and "lstat w p = (case node_at w p of Some n \<Rightarrow> Inr n | None \<Rightarrow> Inl (if blocked w p then NotADirectory else NotFound))"
  using assms by (simp_all add: write_at_def sync_all_def lstat_def sound_disk_def Let_def)

lemma sound_chunks:
  "sound_disk w \<Longrightarrow> \<exists>w'. write_chunks p pos n w = (Inr (), w') \<and> sound_disk w'"
proof (induction p pos n w rule: write_chunks.induct)
  case (1 p pos n w)
  show ?case
  proof (cases "n = 0")
    case False
    obtain buf v where d: "draw (min n SHRED_BUF) w = (buf, v)" by (cases "draw (min n SHRED_BUF) w")
    then have v: "sound_disk v" using "1.prems" by (auto simp: draw_def)
    let ?u = "put_node p (File (overlay pos buf (case node_at v p of Some (File b) \<Rightarrow> b | _ \<Rightarrow> []))) (tick_on v)"
    have "\<exists>w'. write_chunks p (pos + min n SHRED_BUF) (n - min n SHRED_BUF) ?u = (Inr (), w') \<and> sound_disk w'"
      using v d by (intro "1.IH" [OF False refl d [symmetric] refl]) simp_all
    then show ?thesis using False d v by (simp add: write_chunks.simps [of p pos n w] Let_def)
  qed (use "1.prems" in \<open>simp add: write_chunks.simps\<close>)
qed

lemma sound_passes: "sound_disk w \<Longrightarrow> \<exists>w'. overwrite_passes p len n w = (Inr (), w') \<and> sound_disk w'"
proof (induction n arbitrary: w)
  case (Suc n)
  from sound_chunks [of "tick_on w" p 0 len] Suc.prems
  obtain v where v: "write_chunks p 0 len (tick_on w) = (Inr (), v)" "sound_disk v" by auto
  from Suc.IH [of "tick_on v"] v Suc.prems show ?case by auto
qed simp

lemma sound_shred:
  assumes "calm w" "node_at w p = Some (File b)"
  shows "calm (snd (overwrite_then_unlink p w)) \<and> node_at (snd (overwrite_then_unlink p w)) = (node_at w)(p := None)"
proof -
  have s: "sound_disk w" "fs_ok w" using assms(1) by (simp_all add: calm_def)
  have "\<exists>v. overwrite_in_place p SHRED_PASSES w = (Inr (), v) \<and> sound_disk v"
    using s assms(2) sound_passes [of "tick_on w" p "length b" SHRED_PASSES] by (auto simp: overwrite_in_place_def file_len_def open_write_def)
  then obtain v where v: "overwrite_in_place p SHRED_PASSES w = (Inr (), v)" "sound_disk v" by blast
  from eff_postD [OF overwrite_post [OF s(2)] v(1)] obtain c where "node_at v p = Some (File c)" by auto
  with v have run: "overwrite_then_unlink p w = (Inr (), del_node p (tick_on v))"
    by (simp add: overwrite_then_unlink_def unlink_def)
  from eff_postD [OF shred_post [OF s(2)] run] v(2) run show ?thesis by (simp add: calm_def del: node_at_del_fun)
qed

lemma shred_files_calm:
  "calm w \<Longrightarrow> calm (shred_files ps w) \<and>
     (\<forall>q. node_at (shred_files ps w) q = (if q \<in> set ps \<and> (\<exists>b. node_at w q = Some (File b)) then None else node_at w q))"
proof (induction ps arbitrary: w)
  case (Cons p ps)
  let ?v = "case node_at w p of Some (File _) \<Rightarrow> snd (overwrite_then_unlink p w) | _ \<Rightarrow> w"
  have v: "calm ?v \<and> node_at ?v = (if \<exists>b. node_at w p = Some (File b) then (node_at w)(p := None) else node_at w)"
    using Cons.prems sound_shred [OF Cons.prems, of p] by (auto split: option.split node.split)
  with Cons.IH [of ?v] show ?case by auto
qed simp

lemma rmdir_node: "node_at (snd (rmdir p w)) q = node_at w q \<or> q = p \<and> node_at (snd (rmdir p w)) q = None"
  by (simp add: rmdir_def attempt_def split: option.split node.split)

lemma drop_workspace_calm:
  assumes "calm w"
  shows "butlast q = dir \<Longrightarrow> q \<noteq> [] \<Longrightarrow> node_at (drop_workspace dir w) q \<noteq> Some (File b)"
    and "q \<noteq> dir \<Longrightarrow> butlast q \<noteq> dir \<Longrightarrow> node_at (drop_workspace dir w) q = node_at w q"
proof -
  let ?v = "case fs_read_dir w dir of Inr entries \<Rightarrow> shred_files entries w | Inl _ \<Rightarrow> w"
  have d: "drop_workspace dir w = snd (rmdir dir ?v)" by (simp add: drop_workspace_def Let_def)
  have ok: "fs_ok w" using assms by (simp add: calm_def)
  have v: "node_at ?v q = (if q \<noteq> [] \<and> butlast q = dir \<and> (\<exists>b. node_at w q = Some (File b)) then None else node_at w q)" for q
  proof (cases "fs_read_dir w dir")
    case (Inl e)
    have "\<not> is_dir w dir"
      using Inl assms by (auto simp: fs_read_dir_def calm_def sound_disk_def is_dir_def lstat_def)
    then have "node_at w q = None" if "butlast q = dir" for q
      using fs_ok_node [OF ok, of q] that by (cases "node_at w q") (auto simp: node_ok_def)
    then show ?thesis using Inl by auto
  next
    case (Inr es)
    then have "es = children w dir" by (simp add: fs_read_dir_Inr)
    then show ?thesis using Inr shred_files_calm [OF assms, of es] children_iff [of q w dir] by auto
  qed
  show "node_at (drop_workspace dir w) q \<noteq> Some (File b)" if "butlast q = dir" "q \<noteq> []"
    using rmdir_node [of dir ?v q] v [of q] that unfolding d by (auto split: if_splits)
  show "node_at (drop_workspace dir w) q = node_at w q" if "q \<noteq> dir" "butlast q \<noteq> dir"
    using rmdir_node [of dir ?v q] v [of q] that unfolding d by auto
qed

section \<open>Staging\<close>

lemma tempfile_name_seg: "addr e \<Longrightarrow> seg_addr (tempfile_name e)"
proof -
  assume e: "addr e"
  have "seg_addr (file_name e)"
    using e by (simp add: addr_iff file_name_last list_all_iff segments_def)
  moreover have "tempfile_name e = file_name e"
    using calculation by (auto simp: tempfile_name_def seg_addr_def seg_ok_def intro!: map_idI)
  ultimately show ?thesis by simp
qed

lemma probe_addr: "list_all seg_addr (probe_path w)" and unique_dir_addr: "seg_addr (unique_dir_name w)"
proof -
  have base: "seg_addr ''probe''" "seg_addr ''edit''" "list_all seg_addr shm" by code_simp+
  have p: "plain ''bypass.''" "plain ''bypass-''" "plain ''.''" by (simp_all add: plain_def byte_def)
  then have n: "plain (CHR ''.'' # show_nat k)" "plain (CHR ''.'' # show_nat k @ CHR ''.'' # show_nat l)" for k l
    using plain_append [of "''.''"] plain_append [of "show_nat k" "''.'' @ show_nat l"] plain_nat by simp_all
  from affix_addr [OF base(1) p(1) n(1) [of "pid w"]] base(3)
  show "list_all seg_addr (probe_path w)" by (simp add: probe_path_def)
  from affix_addr [OF base(2) p(2) n(2) [of "pid w" "nanos w (tick w)"]]
  show "seg_addr (unique_dir_name w)" by (simp add: unique_dir_name_def)
qed

lemma calm_tick [simp]: "calm (tick_on w) = calm w" and calm_modes [simp]: "calm (w\<lparr>modes := m\<rparr>) = calm w"
  by (simp_all add: calm_def)

lemma calm_put: "calm w \<Longrightarrow> list_all seg_addr p \<Longrightarrow> is_dir w (butlast p) \<Longrightarrow> node_at w p = None \<Longrightarrow> calm (put_node p n w)"
  unfolding calm_def by (auto intro!: fs_ok_put simp: is_dir_def)

lemma calm_overwrite: "calm w \<Longrightarrow> node_at w p = Some (File b) \<Longrightarrow> calm (put_node p (File c) w)"
  unfolding calm_def by (auto intro!: fs_ok_put_same_kind)

lemma modes_float:
  "put_node p n (w\<lparr>modes := m\<rparr>) = (put_node p n w)\<lparr>modes := m\<rparr>" "tick_on (w\<lparr>modes := m\<rparr>) = (tick_on w)\<lparr>modes := m\<rparr>"
  "modes (put_node p n w) = modes w" "modes (tick_on w) = modes w"
  by (simp_all add: put_node_def tick_on_def)

lemma calm_del: "calm w \<Longrightarrow> \<not> is_dir w p \<Longrightarrow> calm (del_node p w)"
  unfolding calm_def by (auto intro!: fs_ok_del)

lemma calm_dir_exists: "calm w \<Longrightarrow> dir_exists w p = is_dir w p"
  by (auto simp: dir_exists_def is_dir_def calm_def sound_disk_def lstat_def split: option.splits)

lemma pick_tempdir_calm:
  assumes "calm w" "list_all seg_addr temp_dir"
  shows "eff_post (pick_tempdir temp_dir w)
    (\<lambda>p w'. calm w' \<and> node_at w' = node_at w \<and> is_dir w p \<and> list_all seg_addr p) (\<lambda>_ w'. calm w' \<and> node_at w' = node_at w)"
proof -
  have s: "sound_disk w" using assms(1) by (simp add: calm_def)
  have base: "list_all seg_addr shm" by code_simp
  let ?p = "probe_path w"
  have b: "butlast ?p = shm" "?p \<noteq> []" by (simp_all add: probe_path_def)
  have same: "(node_at w)(?p := None) = node_at w" if "node_at w ?p = None" using that by auto
  have c: "calm (put_node ?p (File []) (tick_on w))" if "is_dir w shm" "node_at w ?p = None"
    using that assms(1) b probe_addr [of w] by (intro calm_put) (simp_all add: is_dir_def)
  then have "calm (del_node ?p (tick_on (put_node ?p (File []) (tick_on w))))" if "is_dir w shm" "node_at w ?p = None"
    using that by (intro calm_del) (simp_all add: is_dir_def)
  with s c b same assms base show ?thesis
    by (auto simp: pick_tempdir_def Let_def create_new_def unlink_def eff_post_simps calm_dir_exists is_dir_def)
qed

text \<open>On a disk that works, staging is refused with nothing changed, or the plaintext is in a new file of mode
  \<open>0600\<close> in a new directory of mode \<open>0700\<close>.\<close>

lemma stage_calm:
  assumes "calm w" "list_all seg_addr temp_dir" "addr e"
  shows "eff_post (stage_workspace temp_dir e plaintext w)
    (\<lambda>(dir, tmp) w'. calm w' \<and> node_at w dir = None \<and> node_at w' = (node_at w)(dir \<mapsto> Dir, tmp \<mapsto> File plaintext) \<and>
       butlast tmp = dir \<and> tmp \<noteq> [] \<and> modes w' dir = 448 \<and> modes w' tmp = 384)
    (\<lambda>_ w'. calm w' \<and> node_at w' = node_at w)"
  unfolding stage_workspace_def
proof (rule eff_post_thenI [OF pick_tempdir_calm [OF assms(1,2)]])
  fix p and v :: "'a config_world_scheme"
  assume v: "calm v \<and> node_at v = node_at w \<and> is_dir w p \<and> list_all seg_addr p"
  let ?dir = "p @ [unique_dir_name v]" and ?tmp = "p @ [unique_dir_name v, tempfile_name e]"
  have sv: "sound_disk v" "fs_ok v" using v by (simp_all add: calm_def)
  have fresh: "node_at v ?tmp = None" if "node_at v ?dir = None"
    using fs_ok_node [OF sv(2), of ?tmp] that by (cases "node_at v ?tmp") (auto simp: node_ok_def is_dir_def butlast_append)
  have c1: "calm (put_node ?dir Dir (tick_on v))" if "node_at v ?dir = None"
    using that v unique_dir_addr [of v] by (intro calm_put) (simp_all add: is_dir_def)
  let ?u = "tick_on (tick_on (put_node ?dir Dir (tick_on v)))"
  have c2: "calm (put_node ?tmp (File []) ?u)" if "node_at v ?dir = None"
    using that v c1 fresh unique_dir_addr [of v] tempfile_name_seg [OF assms(3)] by (intro calm_put) (simp_all add: is_dir_def butlast_append)
  show "eff_post
     (let dir = p @ [unique_dir_name v] in
       then_eff (map_err_st (CreateWorkspace dir) (mkdir dir v)) (\<lambda>_ w.
         let w = snd (chmod dir 448 w); tmp = dir @ [tempfile_name e] in
         then_eff (map_err_st (CreateTempfile tmp) (create_private tmp w)) (\<lambda>_ w.
         then_eff (map_err_st (WriteTempfile tmp) (write_at tmp 0 plaintext w)) (\<lambda>_ w.
         then_eff (map_err_st (SyncTempfile tmp) (sync_all w)) (\<lambda>_ w.
           (Inr (dir, tmp), w))))))
    (\<lambda>(dir, tmp) w'. calm w' \<and> node_at w dir = None \<and> node_at w' = (node_at w)(dir \<mapsto> Dir, tmp \<mapsto> File plaintext) \<and>
       butlast tmp = dir \<and> tmp \<noteq> [] \<and> modes w' dir = 448 \<and> modes w' tmp = 384)
    (\<lambda>_ w'. calm w' \<and> node_at w' = node_at w)"
  proof (cases "node_at v ?dir = None")
    case False
    then show ?thesis using v sv by (auto simp: mkdir_def eff_post_simps)
  next
    case True
    have wn: "node_at w ?dir = None" using True v by simp
    have "node_at v p = Some Dir" using v by (simp add: is_dir_def)
    then show ?thesis
      using True v sv fresh [OF True] c1 [OF True] c2 [OF True] wn
      by (simp add: mkdir_def chmod_def create_private_def create_new_def eff_post_simps Let_def is_dir_def butlast_append modes_float
          calm_overwrite overlay_def)
  qed
qed

section \<open>Properties\<close>

text \<open>The editor process leaves the temporary file system working.\<close>

definition tame_editor :: "('w, 'z) edit_env \<Rightarrow> bool" where
  "tame_editor E \<longleftrightarrow> (\<forall>cmd s. calm (snd s) \<longrightarrow> calm (snd (snd (ee_sh E cmd s))))"

lemma edit_staged_disk:
  "snd (snd (edit_staged E st e existing tmp s)) = snd (snd (ee_sh E (editor_command (ee_editor E) tmp) s))"
  by (cases "ee_sh E (editor_command (ee_editor E) tmp) s" rule: eff_exhaust)
    (auto simp: edit_staged_def spawn_editor_def then_eff_def map_err_st_def Let_def split: sum.split prod.split)

text \<open>C36. Editing leaves no plaintext behind.  On a temporary file system where no call fails, and with an
  editor that keeps it so but may do anything else on it, every run of \<open>bypass edit\<close> either changed
  nothing there, or staged the plaintext in a file of mode \<open>0600\<close> in a directory of mode \<open>0700\<close> that did not
  exist before, and whatever then happened (the editor failed, the file was gone, saving failed) no
  regular file is left in that directory: not the plaintext, not a swap file of the editor.
\<close>

theorem edit_leaves_no_plaintext:
  fixes r :: "('ce, 'se, 've) edit_error + bool"
  assumes "calm t" "tame_editor E" "list_all seg_addr (ee_temp_dir E)" "addr e"
    and "edit_run E st e (w, t) = (r, (w', t'))"
  shows "node_at t' = node_at t \<and> (\<exists>err. r = Inl err) \<or>
    (\<exists>dir tmp existing t1. stage_workspace (ee_temp_dir E) e existing t = (Inr (dir, tmp) :: ('ce, 'se, 've) edit_error + path \<times> path, t1) \<and>
       node_at t dir = None \<and> modes t1 dir = 448 \<and> modes t1 tmp = 384 \<and> node_at t1 tmp = Some (File existing) \<and>
       (\<forall>name b. node_at t' (dir @ [name]) \<noteq> Some (File b)))"
proof (cases "existing_plaintext st e w :: ('ce, 'se, 've) edit_error + bytes")
  case (Inl err)
  then show ?thesis using assms(5) by (auto simp: edit_run_def)
next
  case (Inr existing)
  note post = stage_calm [OF assms(1,3,4), of existing]
  show ?thesis
  proof (cases "stage_workspace (ee_temp_dir E) e existing t :: (('ce, 'se, 've) edit_error + path \<times> path) \<times> _" rule: eff_exhaust)
    case (Err err t1)
    then show ?thesis using eff_postD_err [OF post Err] assms(5) Inr by (auto simp: edit_run_def)
  next
    case (Ok ws t1)
    obtain dir tmp where ws: "ws = (dir, tmp)" by (cases ws)
    have t1: "calm t1" "node_at t dir = None" "modes t1 dir = 448" "modes t1 tmp = 384" "node_at t1 tmp = Some (File existing)"
      using eff_postD [OF post Ok] ws by auto
    have t': "t' = drop_workspace dir (snd (snd (edit_staged E st e existing tmp (w, t1))))"
      using assms(5) Inr Ok ws by (auto simp: edit_run_def split: prod.splits)
    have "calm (snd (snd (edit_staged E st e existing tmp (w, t1))))"
      using assms(2) t1(1) unfolding edit_staged_disk tame_editor_def by auto
    from drop_workspace_calm(1) [OF this, of "dir @ [_]" dir] have "\<forall>name b. node_at t' (dir @ [name]) \<noteq> Some (File b)"
      using t' by simp
    with t1 Ok ws show ?thesis by blast
  qed
qed

text \<open>Editing saves what the editor left.  When \<open>bypass edit\<close> reports success, the editor ended with status
  zero on the staged file; if the file then held what the entry held before, the store is untouched;
  otherwise the new content is stored: \<open>show\<close> of the entry returns it and no other blob changed.  On every
  error before the final commit all entries are as they were.
\<close>

lemma edit_saves_what_was_left:
  assumes "lawful storage_fs blobs fs_ok st" "crypto_sound (crypto st) can_read" "fs_ok w" "entry_ok e"
    and "\<forall>cmd s. fst (snd (ee_sh E cmd s)) = fst s"
    and "edit_run E st e (w, t) = (r, (w', t'))"
    and "\<And>rs. resolve_for st e w = Inr rs \<Longrightarrow> can_read w' rs" "\<And>x. st_read (storage st) w' (entry_to_blob e) \<noteq> Inl x"
  shows "case r of
      Inr saved \<Rightarrow> \<exists>existing dir tmp t1 t2 new.
        existing_plaintext st e w = (Inr existing :: ('ce, fs_error, 've) edit_error + bytes) \<and>
        stage_workspace (ee_temp_dir E) e existing t = (Inr (dir, tmp) :: ('ce, fs_error, 've) edit_error + path \<times> path, t1) \<and>
        ee_sh E (editor_command (ee_editor E) tmp) (w, t1) = (Inr 0, (w, t2)) \<and> fs_read t2 tmp = Inr new \<and>
        saved = (new \<noteq> existing) \<and>
        (if saved then store_show st e w' = Inr new \<and> (\<forall>q. q \<noteq> entry_to_blob e \<longrightarrow> blobs w' q = blobs w q) else w' = w)
    | Inl err \<Rightarrow> (\<exists>v. err = EditStore (VcsErr v)) \<or> (\<forall>f. relpath_ok f \<longrightarrow> blobs w' (entry_to_blob f) = blobs w (entry_to_blob f))"
proof -
  have same: "\<forall>f. relpath_ok f \<longrightarrow> blobs w (entry_to_blob f) = blobs w (entry_to_blob f)" by simp
  note run = assms(6)
  show ?thesis
  proof (cases "existing_plaintext st e w :: ('ce, fs_error, 've) edit_error + bytes")
    case (Inl err)
    then show ?thesis using run by (auto simp: edit_run_def)
  next
    case (Inr existing)
    note run = run [unfolded edit_run_def, simplified Inr then_eff_simps fst_conv snd_conv]
    show ?thesis
    proof (cases "stage_workspace (ee_temp_dir E) e existing t :: (('ce, fs_error, 've) edit_error + path \<times> path) \<times> _" rule: eff_exhaust)
      case (Err err t1)
      then show ?thesis using run by auto
    next
      case (Ok ws t1)
      obtain dir tmp where ws: "ws = (dir, tmp)" by (cases ws)
      obtain t2 where body: "edit_staged E st e existing tmp (w, t1) = (r, (w', t2))"
        using run Ok ws by (auto split: prod.splits)
      obtain r0 t0 where sh: "ee_sh E (editor_command (ee_editor E) tmp) (w, t1) = (r0, (w, t0))"
        using assms(5) by (metis fst_conv prod.collapse)
      note body = body [unfolded edit_staged_def spawn_editor_def Let_def sh]
      show ?thesis
      proof (cases "\<exists>new. r0 = Inr 0 \<and> fs_read t0 tmp = Inr new \<and> new \<noteq> existing")
        case False
        then show ?thesis
          using body Ok ws Inr sh by (cases r0; cases "fs_read t0 tmp") (auto split: if_splits)
      next
        case True
        then obtain new where new: "r0 = Inr 0" "fs_read t0 tmp = Inr new" "new \<noteq> existing" by blast
        obtain r1 where ins: "store_insert st e new True w = (r1, w')" "r = map_err EditStore (map_sum id (\<lambda>_. True) r1)"
          using body new by (auto split: prod.splits)
        show ?thesis
        proof (cases r1)
          case (Inl err)
          with eff_postD_err [OF fs.insert_post [OF assms(1,3,4)]] ins(1)
          have "is_vcs_err err \<or> (\<forall>q. \<not> is_tmp_path q \<longrightarrow> blobs w' q = blobs w q)" by blast
          then show ?thesis using Inl ins(2) gpg_not_tmp by (auto simp: is_vcs_err_def split: store_error.splits)
        next
          case r1: (Inr u)
          obtain x where "st_read (storage st) w' (entry_to_blob e) = Inr x" using assms(8) by (metis sum.exhaust)
          from inserted_shows [OF assms(1-4) _ assms(7) this] ins(1) r1
          show ?thesis using ins(2) r1 Inr Ok ws sh new by auto
        qed
      qed
    qed
  qed
qed

section \<open>Examples\<close>

text \<open>An editor that replaces the secret of one entry in the staged file.\<close>

definition demo_tmp :: path where
  "demo_tmp = [''tmp'', ''bypass-edit.7.0'', ''a'']"

definition demo_sh :: "str \<Rightarrow> ((fs_world, unit) edit_world, io_kind, nat) eff" where
  "demo_sh cmd s =
     (Inr 0, (fst s, if node_at (snd s) demo_tmp = Some (File ''s1'') then put_node demo_tmp (File ''s9'') (snd s) else snd s))"

definition demo_editor :: "(fs_world, unit) edit_env" where
  "demo_editor = \<lparr>ee_editor = ''ed'', ee_temp_dir = [''tmp''], ee_sh = demo_sh\<rparr>"

definition demo_temp :: config_world where
  "demo_temp = \<lparr>tree = [([], Dir), ([''tmp''], Dir)], no_stat = (\<lambda>_. False), no_read = (\<lambda>_. False), faults = (\<lambda>_. None),
     tick = 0, pid = 7, nanos = (\<lambda>n. n), entropy = (\<lambda>n. CHR ''x''), drawn = 0, modes = (\<lambda>_. 420)\<rparr>"

lemma demo_temp_simps:
  "tree demo_temp = [([], Dir), ([''tmp''], Dir)]" "no_stat demo_temp = (\<lambda>_. False)" "no_read demo_temp = (\<lambda>_. False)"
  "faults demo_temp = (\<lambda>_. None)" "tick demo_temp = 0" "pid demo_temp = 7" "nanos demo_temp = (\<lambda>n. n)"
  by (simp_all add: demo_temp_def)

lemma demo_editor_simps [simp]: "ee_editor demo_editor = ''ed''" "ee_temp_dir demo_editor = [''tmp'']" "ee_sh demo_editor = demo_sh"
  by (simp_all add: demo_editor_def)

lemma demo_tame: "tame_editor demo_editor"
  by (auto simp: tame_editor_def demo_sh_def calm_overwrite)

lemma demo_calm: "calm demo_temp"
proof -
  have "fs_ok demo_temp" by code_simp
  then show ?thesis by (simp add: calm_def sound_disk_def demo_temp_simps)
qed

lemma demo_edit_names:
  "unique_dir_name demo_temp = ''bypass-edit.7.0''" "tmp_name ''a.gpg'' 7 0 = ''a.gpg.tmp.7.0''" "tempfile_name (RelPath ''web/a'') = ''a''"
  "existing_plaintext demo_store (RelPath ''web/a'') demo = (Inr ''s1'' :: (unit, fs_error, unit) edit_error + bytes)"
  by code_simp+

lemmas edit_simps = edit_run_def edit_staged_def spawn_editor_def stage_workspace_def pick_tempdir_def dir_exists_def shm_def chmod_def
  create_private_def demo_sh_def demo_tmp_def demo_edit_names demo_temp_simps store_insert_def exists_unless_def demo_ab

lemma demo_edit_run: "fst (edit_run demo_editor demo_store (RelPath ''web/a'') (demo, demo_temp)) = Inr True"
  by (simp add: edit_simps fs_run cong: run_weak)

lemma demo_edit_stored:
  "st_read storage_fs (fst (snd (edit_run demo_editor demo_store (RelPath ''web/a'') (demo, demo_temp)))) (RelPath ''web/a.gpg'') = Inr (Some ''!s9'')"
  by (simp add: edit_simps fs_run cong: run_weak)

lemma demo_stage:
  "fst (stage_workspace [''tmp''] (RelPath ''web/a'') ex demo_temp) = Inr ([''tmp'', ''bypass-edit.7.0''], [''tmp'', ''bypass-edit.7.0'', ''a''])"
  by (simp add: edit_simps fs_run cong: run_weak)

theorem edit_leaves_no_plaintext_witness:
  "\<exists>w' t'. edit_run demo_editor demo_store (RelPath ''web/a'') (demo, demo_temp) = (Inr True, (w', t')) \<and>
     (\<forall>name b. node_at t' [''tmp'', ''bypass-edit.7.0'', name] \<noteq> Some (File b))"
proof -
  obtain w' t' where run: "edit_run demo_editor demo_store (RelPath ''web/a'') (demo, demo_temp) = (Inr True, (w', t'))"
    using run_eq [OF demo_edit_run] by (cases "snd (edit_run demo_editor demo_store (RelPath ''web/a'') (demo, demo_temp))") auto
  have a: "list_all seg_addr (ee_temp_dir demo_editor)" "addr (RelPath ''web/a'')" by (simp, code_simp) code_simp
  have "\<nexists>err. (Inr True :: (unit, fs_error, unit) edit_error + bool) = Inl err" by simp
  with edit_leaves_no_plaintext [OF demo_calm demo_tame a run] obtain dir tmp existing t1
    where st: "(stage_workspace [''tmp''] (RelPath ''web/a'') existing demo_temp :: ((unit, fs_error, unit) edit_error + path \<times> path) \<times> _) = (Inr (dir, tmp), t1)"
      and none: "\<forall>name b. node_at t' (dir @ [name]) \<noteq> Some (File b)" by auto
  have "dir = [''tmp'', ''bypass-edit.7.0'']"
    using st demo_stage [of existing, where 'a = unit and 'b = fs_error and 'c = unit] by simp
  with none have "\<forall>name b. node_at t' [''tmp'', ''bypass-edit.7.0'', name] \<noteq> Some (File b)" by auto
  with run show ?thesis by blast
qed

text \<open>When a call fails after the file was created, staging reports the error and nothing shreds the file: the
  plaintext stays behind.  Here the disk fails at \<open>sync_all\<close>.\<close>

lemma unique_dir_faults: "unique_dir_name (w\<lparr>faults := f\<rparr>) = unique_dir_name w"
  by (simp add: unique_dir_name_def)

lemma demo_unsynced:
  "node_at (snd (snd (edit_run demo_editor demo_store (RelPath ''web/a'') (demo, demo_temp\<lparr>faults := (\<lambda>n. if n = 4 then Some 0 else None)\<rparr>)))) demo_tmp =
     Some (File ''s1'')"
  by (simp add: edit_simps unique_dir_faults fs_run cong: run_weak)

end
