(* ===== verification/Status_Socket.thy ===== *)
theory Status_Socket
  imports Daemon Cli_Commands Edit
begin

text \<open>
  The status socket of the daemon (\<open>bypass-cli/src/sync/socket.rs\<close>) and \<open>bypass sync status\<close>
  (\<open>main.rs\<close>).  A Unix socket is an inode in the file system (here a file without bytes) with the process
  that listens on it, if it still does; the JSON of requests and replies is a parameter.
\<close>

section \<open>One daemon per socket\<close>

record sock_world = config_world +
  listening :: "path \<Rightarrow> nat option"     \<comment> \<open>who accepts on the inode at a path\<close>

datatype connect_error = ConnectIo io_kind | ConnectionRefused

datatype socket_error =
    NoRuntimeDir
  | AlreadyRunning path
  | SocketIo path io_kind
  | SocketParent path io_kind
  | SocketChmod path io_kind

text \<open>An environment variable is an optional list of components.\<close>

definition resolve_socket_path :: "path option \<Rightarrow> socket_error + path" where
  "resolve_socket_path xdg_runtime_dir =
     (case xdg_runtime_dir of
        Some dir \<Rightarrow> (if dir \<noteq> [] then Inr (dir @ [''bypass-sync.sock'']) else Inl NoRuntimeDir)
      | None \<Rightarrow> Inl NoRuntimeDir)"

definition connect :: "path \<Rightarrow> 'z sock_world_scheme \<Rightarrow> connect_error + nat" where
  "connect p w =
     (case lstat w p of
        Inl e \<Rightarrow> Inl (ConnectIo e)
      | Inr _ \<Rightarrow> (case listening w p of Some d \<Rightarrow> Inr d | None \<Rightarrow> Inl ConnectionRefused))"

text \<open>Removing an inode leaves its listener without a name.\<close>

definition remove_socket :: "path \<Rightarrow> ('z sock_world_scheme, io_kind, unit) eff" where
  "remove_socket p w = then_eff (unlink p w) (\<lambda>_ w. (Inr (), w\<lparr>listening := (listening w)(p := None)\<rparr>))"

definition bind_socket :: "nat \<Rightarrow> path \<Rightarrow> ('z sock_world_scheme, io_kind, unit) eff" where
  "bind_socket me p w = then_eff (create_new p w) (\<lambda>_ w. (Inr (), w\<lparr>listening := (listening w)(p := Some me)\<rparr>))"

text \<open>The first half: is anybody there?  If nobody is, the path is to be cleared.\<close>

definition probe_socket :: "path \<Rightarrow> 'z sock_world_scheme \<Rightarrow> socket_error + bool" where
  "probe_socket p w =
     (if path_exists w p then (case connect p w of Inr _ \<Rightarrow> Inl (AlreadyRunning p) | Inl _ \<Rightarrow> Inr True) else Inr False)"

definition clear_and_bind :: "nat \<Rightarrow> path \<Rightarrow> bool \<Rightarrow> ('z sock_world_scheme, socket_error, unit) eff" where
  "clear_and_bind me p stale w =
     then_eff
       (if stale then
          (case remove_socket p w of
             (Inl e, w) \<Rightarrow> (if e \<noteq> NotFound then Inl (SocketIo p e) else Inr (), w)
           | (Inr _, w) \<Rightarrow> (Inr (), w))
        else (Inr (), w)) (\<lambda>_ w.
     then_eff (map_err_st (SocketParent (butlast p)) (create_dir_all (butlast p) w)) (\<lambda>_ w.
     then_eff (map_err_st (SocketIo p) (bind_socket me p w)) (\<lambda>_ w.
       map_err_st (SocketChmod p) (chmod p 384 w))))"

definition bind_or_refuse_existing :: "nat \<Rightarrow> path \<Rightarrow> ('z sock_world_scheme, socket_error, unit) eff" where
  "bind_or_refuse_existing me p w = then_eff (probe_socket p w, w) (clear_and_bind me p)"

section \<open>Requests and replies\<close>

datatype response = StatusReply status_snapshot | ErrorReply str

record status_codec =
  sc_request :: bytes                                \<comment> \<open>\<open>to_vec(&Request::Status)\<close>\<close>
  sc_read_request :: "str \<Rightarrow> bool"
  sc_response :: "response \<Rightarrow> str + bytes"
  sc_read_response :: "str \<Rightarrow> str + response"

text \<open>What one connection answers to the bytes a client sent.\<close>

definition handle_client :: "status_codec \<Rightarrow> status_snapshot \<Rightarrow> bytes \<Rightarrow> str + bytes" where
  "handle_client J snap input =
     and_then (read_line_of input) (\<lambda>line.
     let response = (if sc_read_request J (trim line) then StatusReply snap else ErrorReply ''unknown op'') in
     and_then (sc_response J response) (\<lambda>b. Inr (b @ [NL])))"

datatype query_error = DaemonNotRunning path | QueryIo path connect_error | QueryBroken str | DaemonSays str

text \<open>\<open>answer\<close> is the peer at the other end of the connection: request bytes to reply bytes.\<close>

definition query_status ::
  "status_codec \<Rightarrow> path \<Rightarrow> (nat \<Rightarrow> bytes \<Rightarrow> str + bytes) \<Rightarrow> 'z sock_world_scheme \<Rightarrow> query_error + status_snapshot" where
  "query_status J p answer w =
     (case connect p w of
        Inl e \<Rightarrow> (if e = ConnectIo NotFound \<or> e = ConnectionRefused then Inl (DaemonNotRunning p) else Inl (QueryIo p e))
      | Inr d \<Rightarrow>
          and_then (map_err QueryBroken (answer d (sc_request J @ [NL]))) (\<lambda>reply.
          and_then (map_err QueryBroken (read_line_of reply)) (\<lambda>line.
          and_then (map_err QueryBroken (sc_read_response J (trim line))) (\<lambda>response.
          case response of StatusReply s \<Rightarrow> Inr s | ErrorReply e \<Rightarrow> Inl (DaemonSays e)))))"

section \<open>The status table\<close>

text \<open>\<open>{:<n}\<close> counts characters.\<close>

definition pad_right :: "nat \<Rightarrow> str \<Rightarrow> str" where
  "pad_right n s = s @ replicate (n - length (chars s)) (CHR 0x20)"

definition format_relative :: "nat \<Rightarrow> nat \<Rightarrow> str" where
  "format_relative now t =
     (let secs = now - t in
      if secs < 60 then show_nat secs @ ''s''
      else if secs < 3600 then show_nat (secs div 60) @ ''m''
      else if secs < 86400 then show_nat (secs div 3600) @ ''h''
      else show_nat (secs div 86400) @ ''d'')"


definition peer_line :: "nat \<Rightarrow> peer_status \<Rightarrow> str" where
  "peer_line now p =
     (let last_seen = (case (ps_last_sync_action p, ps_last_sync_unix p) of
            (Some act, Some t) \<Rightarrow> act @ '' ('' @ format_relative now t @ '' ago)''
          | _ \<Rightarrow> ''(never)'');
          disc = (if ps_discovered p then ''yes'' else ''no'') in
      ''  '' @ pad_right 12 (ps_name p) @ '' '' @ pad_right 52 (ps_peer_id p) @ ''  discovered='' @ pad_right 4 disc @ ''  last='' @ last_seen)"

definition print_status_table :: "nat \<Rightarrow> status_snapshot \<Rightarrow> str list" where
  "print_status_table now snap =
     [''Daemon:    '' @ ss_local_peer_id snap,
      if ss_listening_addrs snap = [] then ''Listening: (none yet)'' else ''Listening: '' @ join_with '', '' (ss_listening_addrs snap)] @
     (if ss_peers snap = [] then [''Peers:     (none paired)'']
      else ''Peers:'' # map (peer_line now) (ss_peers snap))"

section \<open>Binding\<close>

lemma listening_off: "off_tree listening"
  by (simp add: off_tree_def)

lemma sock_update [simp]:
  "node_at (w\<lparr>listening := l\<rparr>) = node_at w" "no_stat (w\<lparr>listening := l\<rparr>) = no_stat w" "no_stat (w\<lparr>modes := m\<rparr>) = no_stat w"
  "listening (w\<lparr>modes := m\<rparr>) = listening w" "modes (w\<lparr>listening := l\<rparr>) = modes w"
  by (simp_all add: node_at_def fun_eq_iff)

lemma keep_bits [simp]:
  "listening (put_node p n w) = listening w" "listening (tick_on w) = listening w" "no_stat (put_node p n v) = no_stat v" "no_stat (tick_on v) = no_stat v"
  by (simp_all add: put_node_def tick_on_def)

lemma bind_socket_Inr:
  assumes "bind_socket me p w = (Inr u, w')"
  shows "node_at w' p = Some (File []) \<and> listening w' p = Some me \<and> no_stat w' = no_stat w"
  using assms by (auto simp: bind_socket_def then_eff_Inr_iff create_new_def attempt_def split: if_splits)

lemma chmod_Inr:
  "chmod p m w = (Inr u, w') \<Longrightarrow> node_at w' = node_at w \<and> no_stat w' = no_stat w \<and> listening w' = listening w \<and> modes w' p = m"
  by (auto simp: chmod_def attempt_def split: if_splits)

lemma clear_and_bind_Inr:
  assumes "clear_and_bind me p stale w = (Inr u, w')"
  shows "node_at w' p = Some (File []) \<and> listening w' p = Some me \<and> modes w' p = 384 \<and> no_stat w' = no_stat w"
proof -
  obtain w1 w2 w3 where s: "(if stale then (case remove_socket p w of
             (Inl e, w) \<Rightarrow> (if e \<noteq> NotFound then Inl (SocketIo p e) else Inr (), w) | (Inr _, w) \<Rightarrow> (Inr (), w)) else (Inr (), w)) = (Inr (), w1)"
      "create_dir_all (butlast p) w1 = (Inr (), w2)" "bind_socket me p w2 = (Inr (), w3)" "chmod p 384 w3 = (Inr u, w')"
    using assms by (auto simp: clear_and_bind_def then_eff_Inr_iff)
  have "no_stat w1 = no_stat w"
    using s(1) keep_calls(5) [OF no_stat_free, of p w]
    by (cases "unlink p w" rule: eff_exhaust) (auto simp: remove_socket_def split: if_splits)
  moreover have "no_stat w2 = no_stat w1" using keep_create_dir_all [OF no_stat_free, of "butlast p" w1] s(2) by simp
  ultimately show ?thesis using bind_socket_Inr [OF s(3)] chmod_Inr [OF s(4)] by simp
qed

text \<open>C24. One daemon per socket.  A daemon that starts while another one listens on the socket is refused and
  changes nothing; one that starts successfully found nobody there, and from then on whoever connects
  reaches it, through a socket of mode \<open>0600\<close>; so a second start right after it is refused.
\<close>

theorem one_daemon_per_socket:
  assumes "\<not> no_stat w p" "bind_or_refuse_existing me p w = (r, w')"
  shows "(\<forall>d. connect p w = Inr d \<longrightarrow> r = Inl (AlreadyRunning p) \<and> w' = w) \<and>
    (r = Inr () \<longrightarrow> (\<nexists>d. connect p w = Inr d) \<and> connect p w' = Inr me \<and> modes w' p = 384 \<and>
       bind_or_refuse_existing other p w' = (Inl (AlreadyRunning p), w'))"
proof (cases "\<exists>d. connect p w = Inr d")
  case True
  then obtain d where d: "connect p w = Inr d" by blast
  then have "path_exists w p" by (auto simp: connect_def path_exists_def lstat_def split: if_splits option.splits)
  then have "bind_or_refuse_existing me p w = (Inl (AlreadyRunning p), w)" using d by (simp add: bind_or_refuse_existing_def probe_socket_def)
  then show ?thesis using assms(2) by auto
next
  case False
  have "connect p w' = Inr me \<and> modes w' p = 384 \<and> bind_or_refuse_existing other p w' = (Inl (AlreadyRunning p), w')" if ok: "r = Inr ()"
  proof -
    obtain stale where "clear_and_bind me p stale w = (Inr (), w')"
      using assms(2) ok by (auto simp: bind_or_refuse_existing_def then_eff_Inr_iff)
    from clear_and_bind_Inr [OF this] assms(1)
    have w': "node_at w' p = Some (File [])" "listening w' p = Some me" "modes w' p = 384" "\<not> no_stat w' p" by auto
    then have "connect p w' = Inr me" "path_exists w' p" by (simp_all add: connect_def lstat_def path_exists_def)
    then show ?thesis using w' by (simp add: bind_or_refuse_existing_def probe_socket_def)
  qed
  then show ?thesis using False by blast
qed

section \<open>Asking for the status\<close>

text \<open>JSON is one line without blanks around it, and is read back.\<close>

definition line_text :: "bytes \<Rightarrow> bool" where
  "line_text b \<longleftrightarrow> valid_utf8 b \<and> NL \<notin> set b \<and> trim (b @ [NL]) = b"

definition codec_sound :: "status_codec \<Rightarrow> bool" where
  "codec_sound J \<longleftrightarrow> line_text (sc_request J) \<and> sc_read_request J (sc_request J) \<and>
     (\<forall>r b. sc_response J r = Inr b \<longrightarrow> line_text b \<and> sc_read_response J b = Inr r)"

lemma read_line_text: "line_text b \<Longrightarrow> read_line_of (b @ [NL]) = Inr (b @ [NL])"
proof -
  assume b: "line_text b"
  have t: "takeWhile (\<lambda>c. c \<noteq> NL) (b @ [NL]) = b" using b by (auto simp: line_text_def takeWhile_tail)
  have "valid_utf8 (b @ [NL])" using b valid_append [of b "[NL]"] valid_NL [of "[]"] by (simp add: line_text_def)
  then show "read_line_of (b @ [NL]) = Inr (b @ [NL])" by (simp add: read_line_of_def t Let_def from_utf8_def del: valid_utf8.simps)
qed

lemma query_answered:
  assumes "codec_sound J" "connect p w = Inr d" "answer d = handle_client J snap" "sc_response J (StatusReply snap) = Inr b"
  shows "query_status J p answer w = Inr snap"
proof -
  have l: "line_text (sc_request J)" "line_text b" "sc_read_request J (sc_request J)" "sc_read_response J b = Inr (StatusReply snap)"
    using assms(1,4) by (auto simp: codec_sound_def)
  have t: "trim (sc_request J @ [NL]) = sc_request J" "trim (b @ [NL]) = b" using l by (simp_all add: line_text_def)
  show ?thesis
    using assms(2-4) l read_line_text [OF l(1)] read_line_text [OF l(2)]
    by (simp add: query_status_def handle_client_def t)
qed

lemma listed_all: "set order \<subseteq> dom m \<Longrightarrow> map fst (listed_entries order m) = order \<and> set (listed_entries order m) = {(i, e). i \<in> set order \<and> m i = Some e}"
  by (induction order) (auto simp: listed_entries_def)

lemma insort_key_map: "insort_key k (f x) (map f xs) = map f (insort_key (k \<circ> f) x xs)"
  by (induction xs) simp_all

lemma sort_key_map: "sort_key k (map f xs) = map f (sort_key (k \<circ> f) xs)"
  by (induction xs) (simp_all add: insort_key_map comp_def)

text \<open>C25. \<open>bypass sync status\<close> tells what the daemon knows.  When the daemon has bound the socket, asking at the socket
  returns its snapshot: one record for every peer of its table and none besides, in the order of their names, with the name, the base-58
  identifier, the discovery flag and the outcome and time of the last sync of that peer.  The table printed from it has a line
  for the daemon, one for its addresses, and one for each peer with its name, its identifier, \<open>yes\<close> or \<open>no\<close> for the
  flag, and the outcome and age of its last sync or \<open>(never)\<close>.  The JSON of requests and replies is read back as what was written, one
  line without blanks around it; different peers have different identifiers.
\<close>

theorem status_tells_table:
  assumes "codec_sound J" "\<not> no_stat w p" "bind_or_refuse_existing me p w = (Inr (), w')"
    and "snap = snapshot to_base58 show_addr order local addrs st" "answer me = handle_client J snap"
    and "sc_response J (StatusReply snap) = Inr b"
    and "distinct order" "set order = dom (ds_peers st)" "inj to_base58"
  shows "query_status J p answer w' = Inr snap \<and> distinct (map ps_peer_id (ss_peers snap)) \<and>
    (\<exists>es. set es = {(i, e). ds_peers st i = Some e} \<and> distinct (map fst es) \<and> sorted (map (\<lambda>(_, e). en_name e) es) \<and>
       ss_peers snap = map (\<lambda>(i, e). \<lparr>ps_name = en_name e, ps_peer_id = to_base58 i, ps_discovered = en_discovered e,
         ps_last_sync_action = map_option fst (en_last_sync e), ps_last_sync_unix = map_option snd (en_last_sync e)\<rparr>) es \<and>
       print_status_table now snap =
         [''Daemon:    '' @ to_base58 local,
          if addrs = [] then ''Listening: (none yet)'' else ''Listening: '' @ join_with '', '' (map show_addr addrs)] @
         (if es = [] then [''Peers:     (none paired)'']
          else ''Peers:'' # map (\<lambda>(i, e). ''  '' @ pad_right 12 (en_name e) @ '' '' @ pad_right 52 (to_base58 i)
            @ ''  discovered='' @ (if en_discovered e then ''yes '' else ''no  '')
            @ ''  last='' @ (case en_last_sync e of Some (act, t) \<Rightarrow> act @ '' ('' @ format_relative now t @ '' ago)'' | None \<Rightarrow> ''(never)'')) es))"
proof -
  let ?line = "\<lambda>(i, e). ''  '' @ pad_right 12 (en_name e) @ '' '' @ pad_right 52 (to_base58 i)
    @ ''  discovered='' @ (if en_discovered e then ''yes '' else ''no  '')
    @ ''  last='' @ (case en_last_sync e of Some (act, t) \<Rightarrow> act @ '' ('' @ format_relative now t @ '' ago)'' | None \<Rightarrow> ''(never)'')"
  let ?table = "\<lambda>es. [''Daemon:    '' @ to_base58 local,
      if addrs = [] then ''Listening: (none yet)'' else ''Listening: '' @ join_with '', '' (map show_addr addrs)] @
    (if es = [] then [''Peers:     (none paired)''] else ''Peers:'' # map ?line es)"
  let ?f = "\<lambda>(i, e). \<lparr>ps_name = en_name e, ps_peer_id = to_base58 i, ps_discovered = en_discovered e,
    ps_last_sync_action = map_option fst (en_last_sync e), ps_last_sync_unix = map_option snd (en_last_sync e)\<rparr>"
  define es where "es = sort_key (\<lambda>(_, e). en_name e) (listed_entries order (ds_peers st))"
  have f: "(\<lambda>(i, e). status_of to_base58 i e) = ?f" by (auto simp: status_of_def fun_eq_iff)
  have "ss_peers snap = sort_key ps_name (map ?f (listed_entries order (ds_peers st)))"
    unfolding assms(4) snapshot_def by (simp only: f status_snapshot.simps)
  moreover have "sort_key (ps_name \<circ> ?f) (listed_entries order (ds_peers st)) = es"
    unfolding es_def by (rule arg_cong [of _ _ "\<lambda>k. sort_key k (listed_entries order (ds_peers st))"]) (auto simp: fun_eq_iff)
  ultimately have peers: "ss_peers snap = map ?f es" by (simp only: sort_key_map)
  have ls: "map fst (listed_entries order (ds_peers st)) = order" "set (listed_entries order (ds_peers st)) = {(i, e). ds_peers st i = Some e}"
    using listed_all [of order "ds_peers st"] assms(8) by auto
  have "mset (map fst es) = mset order" using ls(1) by (simp add: es_def) (metis mset_map)
  then have es: "set es = {(i, e). ds_peers st i = Some e}" "distinct (map fst es)" "sorted (map (\<lambda>(_, e). en_name e) es)"
    using ls(2) assms(7) mset_eq_imp_distinct_iff [of "map fst es" order] by (simp_all add: es_def)
  have "connect p w' = Inr me"
  proof -
    obtain stale where "clear_and_bind me p stale w = (Inr (), w')"
      using assms(3) by (auto simp: bind_or_refuse_existing_def then_eff_Inr_iff)
    from clear_and_bind_Inr [OF this] assms(2) show ?thesis by (simp add: connect_def lstat_def)
  qed
  from query_answered [where answer = answer, OF assms(1) this assms(5,6)] have "query_status J p answer w' = Inr snap" .
  moreover have "distinct (map ps_peer_id (ss_peers snap))"
  proof -
    have "map ps_peer_id (ss_peers snap) = map to_base58 (map fst es)" by (auto simp: peers)
    then show ?thesis using es(2) inj_on_subset [OF assms(9) subset_UNIV] by (simp add: distinct_map comp_inj_on)
  qed
  moreover have "print_status_table now snap = ?table es"
  proof -
    have pad: "pad_right 4 ''yes'' = ''yes ''" "pad_right 4 ''no'' = ''no  ''" by code_simp+
    have "peer_line now (?f x) = ?line x" if "x \<in> set es" for x
      by (cases x; cases "en_last_sync (snd x)") (auto simp: peer_line_def pad Let_def)
    then have "map (peer_line now) (ss_peers snap) = map ?line es" unfolding peers map_map comp_def by (rule map_cong [OF refl])
    moreover have "ss_peers snap = [] \<longleftrightarrow> es = []" unfolding peers by (rule map_is_Nil_conv)
    moreover have "ss_local_peer_id snap = to_base58 local" "ss_listening_addrs snap = map show_addr addrs" by (simp_all add: assms(4) snapshot_def)
    ultimately show ?thesis by (simp only: print_status_table_def map_is_Nil_conv)
  qed
  ultimately show ?thesis using es peers by (intro conjI exI [of _ es])
qed

section \<open>Examples\<close>

text \<open>The socket of a daemon that crashed.\<close>

definition demo_run_dir :: sock_world where
  "demo_run_dir = \<lparr>tree = [([], Dir), ([''run''], Dir), ([''run'', ''sock''], File [])], no_stat = (\<lambda>_. False), no_read = (\<lambda>_. False),
     faults = (\<lambda>_. None), tick = 0, pid = 7, nanos = (\<lambda>n. n), entropy = (\<lambda>n. CHR ''x''), drawn = 0, modes = (\<lambda>_. 420), listening = (\<lambda>_. None)\<rparr>"

definition demo_sock :: path where "demo_sock = [''run'', ''sock'']"

lemma demo_bound: "fst (bind_or_refuse_existing 1 demo_sock demo_run_dir) = Inr ()" "no_stat demo_run_dir = (\<lambda>_. False)"
  by code_simp (simp add: demo_run_dir_def)

theorem one_daemon_per_socket_witness:
  "\<exists>w'. bind_or_refuse_existing 1 demo_sock demo_run_dir = (Inr (), w') \<and> connect demo_sock w' = Inr 1 \<and>
     bind_or_refuse_existing 2 demo_sock w' = (Inl (AlreadyRunning demo_sock), w')"
  using one_daemon_per_socket [OF _ run_eq [OF demo_bound(1)], of 2] run_eq [OF demo_bound(1)] demo_bound(2) by auto

text \<open>Two daemons that start at the same time can both succeed: each finds the stale socket, and the second
  one's clean-up removes the socket the first one has just bound.  Who connects reaches the second one; the
  first one runs on without a name.\<close>

lemma startup_race:
  "probe_socket demo_sock demo_run_dir = Inr True \<and>
   (case clear_and_bind 1 demo_sock True demo_run_dir of (r1, w1) \<Rightarrow>
      r1 = Inr () \<and> (case clear_and_bind 2 demo_sock True w1 of (r2, w2) \<Rightarrow> r2 = Inr () \<and> connect demo_sock w2 = Inr 2))"
  by code_simp

definition demo_codec :: "status_snapshot \<Rightarrow> status_codec" where
  "demo_codec snap = \<lparr>sc_request = ''status'', sc_read_request = (\<lambda>l. l = ''status''),
     sc_response = (\<lambda>r. if r = StatusReply snap then Inr ''snap'' else Inl ''no''),
     sc_read_response = (\<lambda>l. if l = ''snap'' then Inr (StatusReply snap) else Inl ''no'')\<rparr>"

lemma demo_codec_sound: "codec_sound (demo_codec snap)"
proof -
  have "line_text ''status''" "line_text ''snap''" by code_simp+
  then show ?thesis by (auto simp: codec_sound_def demo_codec_def split: if_splits)
qed

definition demo_state :: "(nat, nat, nat) daemon_state" where
  "demo_state = \<lparr>ds_peers = [4 \<mapsto> \<lparr>en_name = ''phone'', en_addr = None, en_discovered = True, en_last_sync = Some (''UpToDate'', 5), en_in_flight = False\<rparr>],
     ds_mtime = None\<rparr>"

theorem status_tells_table_witness:
  "\<exists>w' snap. bind_or_refuse_existing 1 demo_sock demo_run_dir = (Inr (), w') \<and>
     query_status (demo_codec snap) demo_sock (\<lambda>_. handle_client (demo_codec snap) snap) w' = Inr snap \<and>
     ss_peers snap = [\<lparr>ps_name = ''phone'', ps_peer_id = ''xxxx'', ps_discovered = True, ps_last_sync_action = Some ''UpToDate'', ps_last_sync_unix = Some 5\<rparr>]"
proof -
  let ?name = "\<lambda>n. replicate n (CHR ''x'')"
  define snap where "snap = snapshot ?name ?name [4] 0 [] demo_state"
  have "inj ?name" by (rule injI) (metis length_replicate)
  moreover have "\<not> no_stat demo_run_dir demo_sock" "dom (ds_peers demo_state) = {4}" by (simp_all add: demo_bound(2) demo_state_def)
  moreover have "sc_response (demo_codec snap) (StatusReply snap) = Inr ''snap''" by (simp add: demo_codec_def)
  ultimately have "query_status (demo_codec snap) demo_sock (\<lambda>_. handle_client (demo_codec snap) snap)
      (snd (bind_or_refuse_existing 1 demo_sock demo_run_dir)) = Inr snap"
    using status_tells_table [where b = "''snap''" and answer = "\<lambda>_. handle_client (demo_codec snap) snap", OF demo_codec_sound _ run_eq [OF demo_bound(1)] snap_def refl]
    by simp
  moreover have "ss_peers snap = [\<lparr>ps_name = ''phone'', ps_peer_id = ''xxxx'', ps_discovered = True, ps_last_sync_action = Some ''UpToDate'', ps_last_sync_unix = Some 5\<rparr>]"
    by (simp add: snap_def snapshot_def listed_entries_def demo_state_def status_of_def numeral_nat)
  ultimately show ?thesis using run_eq [OF demo_bound(1)] by blast
qed

end
