(* ===== verification/Fs_Follow.thy ===== *)
theory Fs_Follow
  imports Storage_Fs_Laws
begin

text \<open>
  The calls of \<open>std::fs\<close> that follow symbolic links, for the code outside the storage backends (which refuse links
  themselves): the kernel's walk along a path, with links followed at every component and at most
  \<open>LINK_BUDGET\<close> of them in one walk, and \<open>fs::write\<close>, \<open>fs::create_dir_all\<close>, \<open>fs::remove_file\<close> on top of it.
  Paths are lists of components from the root of the file system.
\<close>

section \<open>The walk along a path\<close>

definition LINK_BUDGET :: nat where "LINK_BUDGET = 40"

text \<open>From the directory \<open>d\<close> along the components left: the place the path names, a last component that is
  missing included.  A link is replaced by its target, from the root when the target is absolute.\<close>

fun walk :: "'z fs_world_scheme \<Rightarrow> nat \<Rightarrow> path \<Rightarrow> str list \<Rightarrow> io_kind + path" where
  "walk w n d [] = Inr d"
| "walk w n d (c # cs) =
     (if c = '''' \<or> c = ''.'' then walk w n d cs
      else if c = ''..'' then walk w n (butlast d) cs
      else (case node_at w (d @ [c]) of
          Some Dir \<Rightarrow> walk w n (d @ [c]) cs
        | Some (Link t) \<Rightarrow>
            (case n of
               0 \<Rightarrow> Inl OtherIo
             | Suc n \<Rightarrow> walk w n (if prefix [SLASH] t then [] else d) (split_char SLASH t @ cs))
        | Some (File _) \<Rightarrow> (if cs = [] then Inr (d @ [c]) else Inl NotADirectory)
        | None \<Rightarrow> (if cs = [] then Inr (d @ [c]) else Inl NotFound)))"

definition follow :: "'z fs_world_scheme \<Rightarrow> path \<Rightarrow> io_kind + path" where
  "follow w p = walk w LINK_BUDGET [] p"

text \<open>The directory entry a path names: links are followed on the way, not at the end.\<close>

definition entry_place :: "'z fs_world_scheme \<Rightarrow> path \<Rightarrow> io_kind + path" where
  "entry_place w p =
     (if p = [] then Inr []
      else and_then (follow w (butlast p)) (\<lambda>d.
        if is_dir w d then Inr (d @ [last p])
        else Inl (if node_at w d = None then NotFound else NotADirectory)))"

section \<open>The calls\<close>

text \<open>\<open>OpenOptions::new().write(true).create(true).truncate(true).open\<close>: the file the path leads to, made when it is
  missing; the handle is its place.\<close>

definition open_truncate :: "path \<Rightarrow> ('z fs_world_scheme, io_kind, path) eff" where
  "open_truncate p = attempt (\<lambda>w.
     case follow w p of
       Inl e \<Rightarrow> (Inl e, w)
     | Inr q \<Rightarrow>
         (case node_at w q of
            Some (File _) \<Rightarrow> (Inr q, put_node q (File []) w)
          | Some _ \<Rightarrow> (Inl IsADirectory, w)
          | None \<Rightarrow> if q = [] \<or> \<not> is_dir w (butlast q) then (Inl NotFound, w) else (Inr q, put_node q (File []) w)))"

text \<open>\<open>fs::write\<close>: create or truncate, then write all.\<close>

definition fs_write :: "path \<Rightarrow> bytes \<Rightarrow> ('z fs_world_scheme, io_kind, unit) eff" where
  "fs_write p b w = then_eff (open_truncate p w) (\<lambda>q w. write_at q 0 b w)"

text \<open>\<open>fs::create_dir_all\<close>: a path that leads to a directory is there already, any other is made; an entry that
  is no directory, a link that leads nowhere included, is in the way.\<close>

fun make_dirs :: "path list \<Rightarrow> ('z fs_world_scheme, io_kind, unit) eff" where
  "make_dirs [] w = (Inr (), w)"
| "make_dirs (p # ps) w =
     (if (case follow w p of Inr q \<Rightarrow> is_dir w q | Inl _ \<Rightarrow> False) then make_dirs ps w
      else (case entry_place w p of
          Inl e \<Rightarrow> (Inl e, w)
        | Inr q \<Rightarrow> then_eff (mkdir q w) (\<lambda>_ w. make_dirs ps w)))"

definition make_dir_all :: "path \<Rightarrow> ('z fs_world_scheme, io_kind, unit) eff" where
  "make_dir_all p = make_dirs (map (\<lambda>k. take k p) [0..<Suc (length p)])"

text \<open>\<open>fs::remove_file\<close>: a link at the end of the path is removed itself.\<close>

definition remove_file :: "path \<Rightarrow> ('z fs_world_scheme, io_kind, unit) eff" where
  "remove_file p w = (case entry_place w p of Inl e \<Rightarrow> (Inl e, w) | Inr q \<Rightarrow> unlink q w)"

section \<open>Paths without links\<close>

definition plain_name :: "str \<Rightarrow> bool" where
  "plain_name c \<longleftrightarrow> c \<noteq> '''' \<and> c \<noteq> ''.'' \<and> c \<noteq> ''..''"

definition no_links :: "'z fs_world_scheme \<Rightarrow> path \<Rightarrow> bool" where
  "no_links w p \<longleftrightarrow> (\<forall>k t. node_at w (take k p) \<noteq> Some (Link t))"

lemma no_links_take: "no_links w p \<Longrightarrow> no_links w (take k p)"
  by (simp add: no_links_def)

lemma walk_straight:
  assumes "list_all plain_name cs" "no_links w (d @ cs)" "walk w n d cs = Inr q"
  shows "q = d @ cs"
  using assms
proof (induction w n d cs rule: walk.induct)
  case (2 w n d c cs)
  have "d @ [c] = take (Suc (length d)) (d @ c # cs)" by simp
  then have "node_at w (d @ [c]) \<noteq> Some (Link t)" for t using "2.prems"(2) unfolding no_links_def by metis
  with 2 show ?case by (auto simp: plain_name_def split: option.splits node.splits if_splits)
qed simp

lemma follow_straight: "list_all plain_name p \<Longrightarrow> no_links w p \<Longrightarrow> follow w p = Inr q \<Longrightarrow> q = p"
  unfolding follow_def using walk_straight [of p w "[]"] by simp

lemma entry_place_straight:
  assumes "list_all plain_name p" "no_links w p" "entry_place w p = Inr q" shows "q = p"
proof (cases "p = []")
  case False
  have "list_all plain_name (butlast p)" using assms(1) by (auto simp: list_all_iff dest: in_set_butlastD)
  moreover have "no_links w (butlast p)" using no_links_take [OF assms(2)] by (simp add: butlast_conv_take)
  ultimately show ?thesis using assms(3) False follow_straight [of "butlast p" w]
    by (auto simp: entry_place_def and_then_Inr_iff split: if_splits)
qed (use assms(3) in \<open>simp add: entry_place_def\<close>)

section \<open>What the calls leave\<close>

lemma walk_cong: "node_at v = node_at w \<Longrightarrow> walk v n d cs = walk w n d cs"
proof (induction v n d cs rule: walk.induct)
  case (2 v n d c cs)
  then show ?case by (auto split: option.split node.split nat.split) metis+
qed simp

lemma follow_tick [simp]: "follow (tick_on w) p = follow w p"
  by (simp add: follow_def walk_cong [of "tick_on w" w])

text \<open>A write that succeeds is to the place its path leads to, and to no other.\<close>

lemma fs_write_follows:
  assumes "fs_write p b w = (Inr (), w')"
  shows "\<exists>q. follow w p = Inr q \<and> node_at w' = (node_at w)(q \<mapsto> File b)"
proof -
  obtain q w1 where o: "open_truncate p w = (Inr q, w1)" "write_at q 0 b w1 = (Inr (), w')"
    using assms by (auto simp: fs_write_def then_eff_Inr_iff)
  have f: "follow w p = Inr q" "node_at w1 = (node_at w)(q \<mapsto> File [])"
    using o(1) by (auto simp: open_truncate_def attempt_def split: if_splits sum.splits option.splits node.splits)
  moreover have "node_at w' = (node_at w1)(q \<mapsto> File b)"
    using o(2) f(2) by (auto simp: write_at_def Let_def overlay_def split: option.splits)
  ultimately show ?thesis by auto
qed

text \<open>Directories are added, and nothing else is touched.\<close>

definition with_dirs :: "'z fs_world_scheme \<Rightarrow> 'z fs_world_scheme \<Rightarrow> bool" where
  "with_dirs w w' \<longleftrightarrow> (\<forall>q. node_at w' q = node_at w q \<or> node_at w q = None \<and> node_at w' q = Some Dir)"

lemma mkdir_adds: "mkdir q w = (Inr (), w') \<Longrightarrow> node_at w q = None \<and> node_at w' = (node_at w)(q \<mapsto> Dir)"
  by (auto simp: mkdir_def attempt_def split: if_splits)

lemma make_dirs_adds: "make_dirs ps w = (Inr (), w') \<Longrightarrow> with_dirs w w'"
proof (induction ps arbitrary: w)
  case (Cons p ps)
  show ?case
  proof (cases "case follow w p of Inr q \<Rightarrow> is_dir w q | Inl _ \<Rightarrow> False")
    case False
    obtain q w1 where m: "mkdir q w = (Inr (), w1)" "make_dirs ps w1 = (Inr (), w')"
      using Cons.prems False by (auto simp: then_eff_Inr_iff split: sum.splits)
    have "with_dirs w w1" using mkdir_adds [OF m(1)] by (simp add: with_dirs_def)
    with Cons.IH [OF m(2)] show ?thesis unfolding with_dirs_def by metis
  qed (use Cons in simp)
qed (simp add: with_dirs_def)

lemma no_links_with_dirs: "with_dirs w w' \<Longrightarrow> no_links w p \<Longrightarrow> no_links w' p"
  unfolding with_dirs_def no_links_def by (metis node.distinct(6) option.inject)

section \<open>Trees\<close>

text \<open>Whatever is there is in a directory.\<close>

definition rooted :: "'z fs_world_scheme \<Rightarrow> bool" where
  "rooted w \<longleftrightarrow> (\<forall>p. node_at w p \<noteq> None \<longrightarrow> is_dir w (butlast p))"

lemma fs_ok_rooted: "fs_ok w \<Longrightarrow> rooted w"
  by (simp add: rooted_def fs_ok_iff node_ok_def)

lemma rooted_put:
  assumes "rooted w" "is_dir w (butlast q)" "is_dir w q \<longrightarrow> n = Dir" "node_at w' = (node_at w)(q \<mapsto> n)"
  shows "rooted w'"
proof -
  have "is_dir w' p" if "is_dir w p" for p using that assms(3,4) by (auto simp: is_dir_def)
  then show ?thesis using assms by (auto simp: rooted_def)
qed

lemma rooted_prefix: "rooted w \<Longrightarrow> node_at w (d @ cs) \<noteq> None \<Longrightarrow> node_at w d \<noteq> None"
proof (induction cs rule: rev_induct)
  case (snoc c cs)
  then have "is_dir w (butlast (d @ cs @ [c]))" unfolding rooted_def by blast
  with snoc show ?case by (simp add: is_dir_def butlast_append)
qed simp

lemma walk_missing:
  assumes "rooted w" "list_all plain_name cs" "no_links w (d @ cs)" "walk w n d cs = Inl NotFound"
  shows "node_at w (d @ cs) = None"
  using assms
proof (induction w n d cs rule: walk.induct)
  case (2 w n d c cs)
  have "d @ [c] = take (Suc (length d)) (d @ c # cs)" by simp
  then have "node_at w (d @ [c]) \<noteq> Some (Link t)" for t using "2.prems"(3) unfolding no_links_def by metis
  moreover have "node_at w ((d @ [c]) @ cs) = None" if "node_at w (d @ [c]) = None" using rooted_prefix [OF "2.prems"(1)] that by blast
  ultimately show ?case using 2 by (auto simp: plain_name_def split: option.splits node.splits if_splits)
qed simp

lemma entry_place_missing:
  assumes "rooted w" "list_all plain_name p" "no_links w p" "entry_place w p = Inl NotFound"
  shows "node_at w p = None"
proof -
  have p: "p \<noteq> []" using assms(4) by (auto simp: entry_place_def)
  have b: "list_all plain_name (butlast p)" "no_links w (butlast p)"
    using assms(2) no_links_take [OF assms(3)] by (auto simp: list_all_iff butlast_conv_take dest: in_set_takeD)
  have "node_at w (butlast p) = None"
    using assms(4) p walk_missing [OF assms(1) b(1), of "[]" LINK_BUDGET] follow_straight [OF b] b(2)
    by (auto simp: entry_place_def follow_def and_then_def split: sum.splits if_splits)
  then show ?thesis using rooted_prefix [OF assms(1), of "butlast p" "[last p]"] p by (cases "node_at w p") simp_all
qed

lemma fs_write_rooted:
  assumes "fs_write p b w = (Inr (), w')" "rooted w" shows "rooted w'"
proof -
  obtain q w1 where o: "open_truncate p w = (Inr q, w1)" "write_at q 0 b w1 = (Inr (), w')"
    using assms by (auto simp: fs_write_def then_eff_Inr_iff)
  have "is_dir w (butlast q) \<and> \<not> is_dir w q"
    using o(1) assms(2) by (auto simp: rooted_def is_dir_def open_truncate_def attempt_def split: if_splits sum.splits option.splits node.splits)
  moreover obtain q' where "follow w p = Inr q'" "node_at w' = (node_at w)(q' \<mapsto> File b)" using fs_write_follows [OF assms(1)] by blast
  moreover have "follow w p = Inr q" using o(1) by (auto simp: open_truncate_def attempt_def split: if_splits sum.splits option.splits node.splits)
  ultimately show ?thesis using rooted_put [OF assms(2), of q "File b" w'] by auto
qed

lemma make_dirs_rooted: "make_dirs ps w = (Inr (), w') \<Longrightarrow> rooted w \<Longrightarrow> rooted w'"
proof (induction ps arbitrary: w)
  case (Cons p ps)
  show ?case
  proof (cases "case follow w p of Inr q \<Rightarrow> is_dir w q | Inl _ \<Rightarrow> False")
    case False
    obtain q w1 where m: "mkdir q w = (Inr (), w1)" "make_dirs ps w1 = (Inr (), w')"
      using Cons.prems(1) False by (auto simp: then_eff_Inr_iff split: sum.splits)
    have "q \<noteq> [] \<longrightarrow> is_dir w (butlast q)" using m(1) by (auto simp: mkdir_def attempt_def is_dir_def split: if_splits)
    then have "rooted w1"
      using mkdir_adds [OF m(1)] Cons.prems(2) rooted_put [of w q Dir w1] by (cases "q = []") (auto simp: rooted_def is_dir_def)
    with Cons.IH [OF m(2)] show ?thesis by simp
  qed (use Cons in simp)
qed simp

text \<open>Removing a file by its path, or finding that there is none.\<close>

lemma remove_file_leaves:
  assumes "list_all plain_name p" "no_links w p" "rooted w" "remove_file p w = (r, w')" "r = Inr () \<or> r = Inl NotFound"
  shows "node_at w' = (node_at w)(p := None) \<and> rooted w'"
proof -
  have u: "node_at w' = (node_at w)(p := None) \<and> (node_at w p = Some Dir \<longrightarrow> False)"
  proof (cases "entry_place w p")
    case (Inl e)
    then show ?thesis using assms(4,5) entry_place_missing [OF assms(3,1,2)] by (auto simp: remove_file_def fun_upd_idem_iff)
  next
    case (Inr q)
    then have "q = p" using entry_place_straight [OF assms(1,2)] by simp
    with Inr assms(4,5) show ?thesis
      by (auto simp: remove_file_def unlink_def attempt_def fun_upd_idem_iff split: if_splits option.splits node.splits)
  qed
  then have "is_dir w' q" if "is_dir w q" for q using that by (auto simp: is_dir_def)
  then show ?thesis using u assms(3) by (auto simp: rooted_def split: if_splits)
qed

end
