(* ===== verification/Host_Install.thy ===== *)
theory Host_Install
  imports Extensions Fs_Follow
begin

text \<open>
  What the program installs for others: the manifests that tell browsers where the native-messaging host is
  (\<open>bypass-cli/src/native_host_install.rs\<close>), and the systemd unit of the sync daemon with the calls of
  \<open>systemctl\<close> (\<open>sync/service.rs\<close>).  Paths are lists of components from the root of the file system; messages
  on the terminal are left out.  Symbolic links are followed as the system does (\<open>Fs_Follow\<close>).
\<close>

section \<open>Manifests\<close>

definition HOST_NAME :: str where "HOST_NAME = ''io.bypass.host''"
definition HOST_DESC :: str where "HOST_DESC = ''bypass password manager native host''"
definition FIREFOX_EXTENSION_ID :: str where "FIREFOX_EXTENSION_ID = ''bypass@bypass.example''"

definition DQUOTE :: char where "DQUOTE = CHR 0x22"
definition TAB :: char where "TAB = CHR 0x09"

text \<open>One byte at a time: a character of several bytes has none of the bytes that are escaped.\<close>

definition json_escape_char :: "char \<Rightarrow> str" where
  "json_escape_char c =
     (if c = BACKSLASH then [BACKSLASH, BACKSLASH]
      else if c = DQUOTE then [BACKSLASH, DQUOTE]
      else if c = NL then [BACKSLASH, CHR ''n'']
      else if c = CR then [BACKSLASH, CHR ''r'']
      else if c = TAB then [BACKSLASH, CHR ''t'']
      else [c])"

definition json_escape :: "str \<Rightarrow> str" where
  "json_escape s = concat (map json_escape_char s)"

text \<open>A quoted name or text of the template.\<close>

definition quoted :: "str \<Rightarrow> str" where "quoted s = [DQUOTE] @ s @ [DQUOTE]"

definition manifest_head :: str where
  "manifest_head = ''{'' @ [NL] @ ''  '' @ quoted ''name'' @ '': '' @ quoted HOST_NAME @ '','' @ [NL]
     @ ''  '' @ quoted ''description'' @ '': '' @ quoted HOST_DESC @ '','' @ [NL]
     @ ''  '' @ quoted ''path'' @ '': '' @ [DQUOTE]"

definition manifest_middle :: "str \<Rightarrow> str" where
  "manifest_middle key = '','' @ [NL] @ ''  '' @ quoted ''type'' @ '': '' @ quoted ''stdio'' @ '','' @ [NL] @ ''  '' @ quoted key @ '': ['' @ [DQUOTE]"

definition render_firefox_manifest :: "str \<Rightarrow> str \<Rightarrow> str" where
  "render_firefox_manifest host_cmd extension_id =
     manifest_head @ json_escape host_cmd @ [DQUOTE] @ manifest_middle ''allowed_extensions''
     @ json_escape extension_id @ [DQUOTE] @ '']'' @ [NL] @ ''}'' @ [NL]"

definition render_chrome_manifest :: "str \<Rightarrow> str \<Rightarrow> str" where
  "render_chrome_manifest host_cmd extension_id =
     manifest_head @ json_escape host_cmd @ [DQUOTE] @ manifest_middle ''allowed_origins''
     @ ''chrome-extension://'' @ json_escape extension_id @ ''/'' @ [DQUOTE] @ '']'' @ [NL] @ ''}'' @ [NL]"

definition host_file :: str where "host_file = HOST_NAME @ ''.json''"

definition firefox_paths :: "path \<Rightarrow> path list" where
  "firefox_paths home = [home @ [''.mozilla'', ''native-messaging-hosts'', host_file]]"

definition chrome_paths :: "path \<Rightarrow> path list" where
  "chrome_paths home =
     [home @ [''.config'', ''google-chrome'', ''NativeMessagingHosts'', host_file],
      home @ [''.config'', ''chromium'', ''NativeMessagingHosts'', host_file]]"

datatype host_error =
    HostExe str
  | NoHomeDir
  | HostCreateDir path io_kind
  | HostWrite path io_kind
  | HostRemove path io_kind
  | NoInstallPaths str

fun write_each :: "path list \<Rightarrow> bytes \<Rightarrow> ('z fs_world_scheme, host_error, unit) eff" where
  "write_each [] body w = (Inr (), w)"
| "write_each (path # paths) body w =
     then_eff (map_err_st (HostCreateDir (butlast path)) (make_dir_all (butlast path) w)) (\<lambda>_ w.
     then_eff (map_err_st (HostWrite path) (fs_write path body w)) (\<lambda>_ w.
       write_each paths body w))"

definition write_to_paths :: "path list \<Rightarrow> bytes \<Rightarrow> str \<Rightarrow> ('z fs_world_scheme, host_error, unit) eff" where
  "write_to_paths paths body label w =
     then_eff (write_each paths body w) (\<lambda>_ w.
       if paths = [] then (Inl (NoInstallPaths label), w) else (Inr (), w))"

text \<open>\<open>current_exe\<close> and \<open>home_dir\<close>.\<close>

record host_env =
  he_exe :: "str + bytes"
  he_home :: "path option"

definition host_install :: "host_env \<Rightarrow> str option \<Rightarrow> str option \<Rightarrow> ('z fs_world_scheme, host_error, nat) eff" where
  "host_install E chrome_id firefox_id w =
     then_eff (map_err HostExe (he_exe E), w) (\<lambda>exe w.
       let host_cmd = from_utf8_lossy exe;
           firefox_ext = unwrap_or FIREFOX_EXTENSION_ID firefox_id;
           firefox_body = render_firefox_manifest host_cmd firefox_ext in
       case he_home E of
         None \<Rightarrow> (Inl NoHomeDir, w)
       | Some home \<Rightarrow>
           then_eff (write_to_paths (firefox_paths home) firefox_body ''Firefox'' w) (\<lambda>_ w.
           then_eff (case chrome_id of
               Some i \<Rightarrow> write_to_paths (chrome_paths home) (render_chrome_manifest host_cmd i) ''Chrome / Chromium'' w
             | None \<Rightarrow> (Inr (), w)) (\<lambda>_ w.
             (Inr 0, w))))"

fun remove_each :: "path list \<Rightarrow> ('z fs_world_scheme, host_error, unit) eff" where
  "remove_each [] w = (Inr (), w)"
| "remove_each (p # ps) w =
     (case remove_file p w of
        (Inr _, w) \<Rightarrow> remove_each ps w
      | (Inl NotFound, w) \<Rightarrow> remove_each ps w
      | (Inl e, w) \<Rightarrow> (Inl (HostRemove p e), w))"

definition host_uninstall :: "host_env \<Rightarrow> ('z fs_world_scheme, host_error, nat) eff" where
  "host_uninstall E w =
     (case he_home E of
        None \<Rightarrow> (Inl NoHomeDir, w)
      | Some home \<Rightarrow> then_eff (remove_each (firefox_paths home @ chrome_paths home) w) (\<lambda>_ w. (Inr 0, w)))"

section \<open>The unit of the daemon\<close>

datatype supervisor_op = OpStart | OpStop | OpEnable | OpDisable | OpStatus

datatype service_error =
    ServiceExe str
  | ServiceHome
  | UnitCreateDir path io_kind
  | UnitWrite path io_kind
  | UnitRemove path io_kind
  | SpawnSystemctl str
  | DaemonReload int

type_synonym 'w systemctl = "str list \<Rightarrow> ('w, str, int option) eff"

definition op_verb :: "supervisor_op \<Rightarrow> str" where
  "op_verb op = (case op of OpStart \<Rightarrow> ''start'' | OpStop \<Rightarrow> ''stop'' | OpEnable \<Rightarrow> ''enable'' | OpDisable \<Rightarrow> ''disable'' | OpStatus \<Rightarrow> ''status'')"

definition supervisor_call :: "'w systemctl \<Rightarrow> supervisor_op \<Rightarrow> ('w, service_error, nat) eff" where
  "supervisor_call Y op w =
     then_eff (map_err_st SpawnSystemctl (Y [''--user'', op_verb op, ''bypass-sync.service''] w)) (\<lambda>status w.
       (Inr (exit_byte status), w))"

definition reload_supervisor :: "'w systemctl \<Rightarrow> ('w, service_error, unit) eff" where
  "reload_supervisor Y w =
     then_eff (map_err_st SpawnSystemctl (Y [''--user'', ''daemon-reload''] w)) (\<lambda>status w.
       if status \<noteq> Some 0 then (Inl (DaemonReload (unwrap_or (-1) status)), w) else (Inr (), w))"

definition unit_path :: "path \<Rightarrow> path" where
  "unit_path home = home @ [''.config'', ''systemd'', ''user'', ''bypass-sync.service'']"

definition render_unit :: "str \<Rightarrow> str" where
  "render_unit exe =
     ''# SPDX-License-Identifier: GPL-3.0-or-later'' @ [NL]
     @ ''# Auto-generated by `bypass sync daemon install` (ADR-0020).'' @ [NL]
     @ ''# Re-run that command after upgrading `bypass` so the path'' @ [NL]
     @ ''# below stays in sync with the actual binary.'' @ [NL]
     @ ''[Unit]'' @ [NL]
     @ ''Description=bypass-sync LAN peer-to-peer sync daemon'' @ [NL]
     @ ''Documentation=https://github.com/hiroshiyui/bypass'' @ [NL]
     @ ''After=network-online.target'' @ [NL] @ [NL]
     @ ''[Service]'' @ [NL]
     @ ''Type=simple'' @ [NL]
     @ ''ExecStart='' @ exe @ '' sync daemon'' @ [NL]
     @ ''Restart=on-failure'' @ [NL]
     @ ''RestartSec=10'' @ [NL]
     @ ''Environment=RUST_LOG=warn'' @ [NL] @ [NL]
     @ ''[Install]'' @ [NL]
     @ ''WantedBy=default.target'' @ [NL]"

definition write_unit_file :: "path \<Rightarrow> bytes \<Rightarrow> ('z fs_world_scheme, service_error, unit) eff" where
  "write_unit_file path body w =
     then_eff (map_err_st (UnitCreateDir (butlast path)) (make_dir_all (butlast path) w)) (\<lambda>_ w.
       map_err_st (UnitWrite path) (fs_write path body w))"

definition service_install :: "host_env \<Rightarrow> 'z fs_world_scheme systemctl \<Rightarrow> ('z fs_world_scheme, service_error, nat) eff" where
  "service_install E Y w =
     then_eff (map_err ServiceExe (he_exe E), w) (\<lambda>exe w.
       case he_home E of
         None \<Rightarrow> (Inl ServiceHome, w)
       | Some home \<Rightarrow>
           then_eff (write_unit_file (unit_path home) (render_unit (from_utf8_lossy exe)) w) (\<lambda>_ w.
           then_eff (reload_supervisor Y w) (\<lambda>_ w. (Inr 0, w))))"

definition service_uninstall :: "host_env \<Rightarrow> 'z fs_world_scheme systemctl \<Rightarrow> ('z fs_world_scheme, service_error, nat) eff" where
  "service_uninstall E Y w =
     (case he_home E of
        None \<Rightarrow> (Inl ServiceHome, w)
      | Some home \<Rightarrow>
          (case remove_file (unit_path home) w of
             (Inl e, w) \<Rightarrow>
               if e = NotFound then then_eff (reload_supervisor Y w) (\<lambda>_ w. (Inr 0, w))
               else (Inl (UnitRemove (unit_path home) e), w)
           | (Inr _, w) \<Rightarrow> then_eff (reload_supervisor Y w) (\<lambda>_ w. (Inr 0, w))))"

section \<open>Strings of JSON\<close>

text \<open>A JSON string from after its opening quote: its value, and what follows its closing quote.  Control
  characters must be escaped.\<close>

definition unescape :: "char \<Rightarrow> char option" where
  "unescape e =
     (if e = BACKSLASH \<or> e = DQUOTE \<or> e = CHR ''/'' then Some e
      else if e = CHR ''n'' then Some NL else if e = CHR ''r'' then Some CR else if e = CHR ''t'' then Some TAB else None)"

fun read_json :: "str \<Rightarrow> (str \<times> str) option" where
  "read_json [] = None"
| "read_json (c # r) =
     (if c = DQUOTE then Some ([], r)
      else if c = BACKSLASH then
        (case r of [] \<Rightarrow> None
         | e # r' \<Rightarrow> (case unescape e of None \<Rightarrow> None | Some x \<Rightarrow> map_option (\<lambda>(s, t). (x # s, t)) (read_json r')))
      else if byte c < 32 then None
      else map_option (\<lambda>(s, t). (c # s, t)) (read_json r))"

definition json_safe :: "str \<Rightarrow> bool" where
  "json_safe s \<longleftrightarrow> (\<forall>c \<in> set s. 32 \<le> byte c \<or> c = NL \<or> c = CR \<or> c = TAB)"

section \<open>Reading JSON\<close>

text \<open>A reader of JSON texts made of strings, arrays and objects, written from the grammar of JSON and not from
  the template: tokens first, with white space between them skipped, then the values.\<close>

datatype json = JStr str | JArr "json list" | JObj "(str \<times> json) list"

datatype tok = TStr str | TOpenObj | TCloseObj | TOpenArr | TCloseArr | TColon | TComma

definition punct :: "char \<Rightarrow> tok option" where
  "punct c = map_of [(CHR ''{'', TOpenObj), (CHR ''}'', TCloseObj), (CHR ''['', TOpenArr), (CHR '']'', TCloseArr),
     (CHR '':'', TColon), (CHR '','', TComma)] c"

definition json_space :: "char \<Rightarrow> bool" where
  "json_space c \<longleftrightarrow> c = CHR '' '' \<or> c = NL \<or> c = CR \<or> c = TAB"

lemma read_json_shorter: "read_json r = Some (s, t) \<Longrightarrow> length t < length r"
proof (induction r arbitrary: s t rule: read_json.induct)
  case (2 c r)
  show ?case
  proof (cases "c = DQUOTE \<or> c \<noteq> BACKSLASH")
    case False
    then obtain e r' x where "r = e # r'" "unescape e = Some x"
      using "2.prems" by (auto split: list.splits option.splits if_splits)
    with 2 False show ?thesis by fastforce
  qed (use 2 in \<open>auto split: if_splits\<close>)
qed simp

function json_tokens :: "str \<Rightarrow> tok list option" where
  "json_tokens [] = Some []"
| "json_tokens (c # r) =
     (if json_space c then json_tokens r
      else if c = DQUOTE then
        (case read_json r of None \<Rightarrow> None | Some (s, t) \<Rightarrow> map_option ((#) (TStr s)) (json_tokens t))
      else (case punct c of None \<Rightarrow> None | Some p \<Rightarrow> map_option ((#) p) (json_tokens r)))"
  by pat_completeness auto
termination by (relation "measure length") (auto dest: read_json_shorter)

text \<open>The number bounds the depth of the calls; each call is one token further on.\<close>

fun json_value :: "nat \<Rightarrow> tok list \<Rightarrow> (json \<times> tok list) option"
  and json_members :: "nat \<Rightarrow> tok list \<Rightarrow> ((str \<times> json) list \<times> tok list) option"
  and json_elements :: "nat \<Rightarrow> tok list \<Rightarrow> (json list \<times> tok list) option" where
  "json_value 0 ts = None"
| "json_value (Suc n) ts =
     (case ts of
        TStr s # r \<Rightarrow> Some (JStr s, r)
      | TOpenObj # r \<Rightarrow>
          if take 1 r = [TCloseObj] then Some (JObj [], tl r)
          else map_option (\<lambda>(ms, r). (JObj ms, r)) (json_members n r)
      | TOpenArr # r \<Rightarrow>
          if take 1 r = [TCloseArr] then Some (JArr [], tl r)
          else map_option (\<lambda>(vs, r). (JArr vs, r)) (json_elements n r)
      | _ \<Rightarrow> None)"
| "json_members 0 ts = None"
| "json_members (Suc n) ts =
     (case ts of
        TStr k # TColon # r \<Rightarrow>
          (case json_value n r of
             Some (v, TComma # r) \<Rightarrow> map_option (\<lambda>(ms, r). ((k, v) # ms, r)) (json_members n r)
           | Some (v, TCloseObj # r) \<Rightarrow> Some ([(k, v)], r)
           | _ \<Rightarrow> None)
      | _ \<Rightarrow> None)"
| "json_elements 0 ts = None"
| "json_elements (Suc n) ts =
     (case json_value n ts of
        Some (v, TComma # r) \<Rightarrow> map_option (\<lambda>(vs, r). (v # vs, r)) (json_elements n r)
      | Some (v, TCloseArr # r) \<Rightarrow> Some ([v], r)
      | _ \<Rightarrow> None)"

definition read_manifest :: "bytes \<Rightarrow> json option" where
  "read_manifest b =
     (case json_tokens b of
        None \<Rightarrow> None
      | Some ts \<Rightarrow> (case json_value (length ts) ts of Some (j, []) \<Rightarrow> Some j | _ \<Rightarrow> None))"

lemma quote_facts: "DQUOTE \<noteq> BACKSLASH" "DQUOTE \<noteq> NL" "DQUOTE \<noteq> CR" "DQUOTE \<noteq> TAB" "BACKSLASH \<noteq> DQUOTE" "byte DQUOTE = 34"
  "TAB \<noteq> NL" "TAB \<noteq> CR" "byte TAB = 9" "TAB \<noteq> BACKSLASH" "DQUOTE \<noteq> CHR '' ''"
  by (simp_all add: DQUOTE_def TAB_def byte_def)

lemma escaped_char:
  assumes "c = BACKSLASH \<or> c = DQUOTE \<or> c = NL \<or> c = CR \<or> c = TAB"
  shows "\<exists>e. json_escape_char c = [BACKSLASH, e] \<and> unescape e = Some c"
  using assms by (elim disjE) (simp_all add: json_escape_char_def unescape_def DQUOTE_def TAB_def)

lemma read_escape: "unescape e = Some x \<Longrightarrow> read_json (BACKSLASH # e # r) = map_option (\<lambda>(s, t). (x # s, t)) (read_json r)"
  by (simp add: quote_facts del: read_json.simps add: read_json.simps(2) [of BACKSLASH])

lemma json_safe_Cons: "json_safe (c # s) \<longleftrightarrow> (32 \<le> byte c \<or> c = NL \<or> c = CR \<or> c = TAB) \<and> json_safe s"
  by (simp add: json_safe_def)

lemma read_escaped: "read_json (json_escape s @ DQUOTE # rest) = (if json_safe s then Some (s, rest) else None)"
proof (induction s)
  case (Cons c s)
  have e: "json_escape (c # s) @ DQUOTE # rest = json_escape_char c @ (json_escape s @ DQUOTE # rest)" by (simp add: json_escape_def)
  show ?case
  proof (cases "c = BACKSLASH \<or> c = DQUOTE \<or> c = NL \<or> c = CR \<or> c = TAB")
    case True
    then obtain x where x: "json_escape_char c = [BACKSLASH, x]" "unescape x = Some c" using escaped_char by blast
    have "byte BACKSLASH = 92" by (simp add: byte_def)
    then have "json_safe (c # s) \<longleftrightarrow> json_safe s" using True by (auto simp: json_safe_Cons quote_facts)
    then show ?thesis unfolding e x(1) using Cons.IH read_escape [OF x(2)] by simp
  next
    case False
    then have "json_escape_char c = [c]" by (simp add: json_escape_char_def)
    then show ?thesis unfolding e using Cons.IH False by (auto simp: json_safe_Cons)
  qed
qed (simp add: json_escape_def json_safe_def)

text \<open>A quoted text is one token; what stands between the texts is read character by character.\<close>

lemma tokens_escaped:
  "json_tokens (DQUOTE # json_escape s @ DQUOTE # rest) = (if json_safe s then map_option ((#) (TStr s)) (json_tokens rest) else None)"
  by (simp add: read_escaped json_space_def quote_facts)

definition plain_text :: "str \<Rightarrow> bool" where
  "plain_text s \<longleftrightarrow> json_safe s \<and> json_escape s = s"

lemma tokens_quoted: "plain_text s \<Longrightarrow> json_tokens (quoted s @ rest) = map_option ((#) (TStr s)) (json_tokens rest)"
  using tokens_escaped [of s rest] by (simp add: plain_text_def quoted_def del: json_tokens.simps)

lemma tokens_space: "json_space c \<Longrightarrow> json_tokens (c # r) = json_tokens r"
  and tokens_punct: "punct c = Some p \<Longrightarrow> json_tokens (c # r) = map_option ((#) p) (json_tokens r)"
  by (auto simp: json_space_def punct_def DQUOTE_def TAB_def split: if_splits)

lemma space_chars: "json_space (CHR '' '')" "json_space NL"
  and punct_chars: "punct (CHR ''{'') = Some TOpenObj" "punct (CHR ''}'') = Some TCloseObj" "punct (CHR ''['') = Some TOpenArr"
    "punct (CHR '']'') = Some TCloseArr" "punct (CHR '':'') = Some TColon" "punct (CHR '','') = Some TComma"
  by (simp_all add: json_space_def punct_def)

lemmas token_rules = tokens_space [OF space_chars(1)] tokens_space [OF space_chars(2)] punct_chars [THEN tokens_punct]

lemma json_escape_append: "json_escape (s @ t) = json_escape s @ json_escape t"
  by (simp add: json_escape_def)

lemma json_safe_append: "json_safe (s @ t) \<longleftrightarrow> json_safe s \<and> json_safe t"
  by (auto simp: json_safe_def)

text \<open>The tokens of a manifest with the path \<open>exe\<close>, and one extension \<open>ext\<close> under \<open>key\<close>.\<close>

definition manifest_tokens :: "str \<Rightarrow> str \<Rightarrow> str \<Rightarrow> tok list" where
  "manifest_tokens exe key ext =
     [TOpenObj, TStr ''name'', TColon, TStr ''io.bypass.host'', TComma,
      TStr ''description'', TColon, TStr ''bypass password manager native host'', TComma,
      TStr ''path'', TColon, TStr exe, TComma, TStr ''type'', TColon, TStr ''stdio'', TComma,
      TStr key, TColon, TOpenArr, TStr ext, TCloseArr, TCloseObj]"

lemma plain_texts: "plain_text ''name''" "plain_text ''io.bypass.host''" "plain_text ''description''"
  "plain_text ''bypass password manager native host''" "plain_text ''path''" "plain_text ''type''" "plain_text ''stdio''"
  "plain_text ''allowed_extensions''" "plain_text ''allowed_origins''" "plain_text ''chrome-extension://''" "plain_text ''/''"
  by code_simp+

lemma manifest_tokens_of:
  assumes "plain_text key"
  shows "json_tokens (manifest_head @ json_escape exe @ [DQUOTE] @ manifest_middle key @ json_escape ext @ [DQUOTE] @ '']'' @ [NL] @ ''}'' @ [NL]) =
    (if json_safe exe \<and> json_safe ext then Some (manifest_tokens exe key ext) else None)"
  using tokens_escaped [of exe] tokens_escaped [of ext]
  by (simp add: manifest_head_def manifest_middle_def HOST_NAME_def HOST_DESC_def manifest_tokens_def token_rules
      tokens_quoted plain_texts assms del: json_tokens.simps(2))

lemma manifest_value:
  "json_value (length (manifest_tokens exe key ext)) (manifest_tokens exe key ext) =
     Some (JObj [(''name'', JStr ''io.bypass.host''), (''description'', JStr ''bypass password manager native host''),
       (''path'', JStr exe), (''type'', JStr ''stdio''), (key, JArr [JStr ext])], [])"
  by (simp add: manifest_tokens_def numeral_eq_Suc)

lemma firefox_reads:
  "read_manifest (render_firefox_manifest exe i) =
     (if json_safe exe \<and> json_safe i
      then Some (JObj [(''name'', JStr ''io.bypass.host''), (''description'', JStr ''bypass password manager native host''),
        (''path'', JStr exe), (''type'', JStr ''stdio''), (''allowed_extensions'', JArr [JStr i])]) else None)"
  unfolding read_manifest_def render_firefox_manifest_def manifest_tokens_of [OF plain_texts(8)]
  by (simp add: manifest_value)

lemma chrome_reads:
  "read_manifest (render_chrome_manifest exe i) =
     (if json_safe exe \<and> json_safe i
      then Some (JObj [(''name'', JStr ''io.bypass.host''), (''description'', JStr ''bypass password manager native host''),
        (''path'', JStr exe), (''type'', JStr ''stdio''), (''allowed_origins'', JArr [JStr (''chrome-extension://'' @ i @ ''/'')])]) else None)"
proof -
  let ?x = "''chrome-extension://'' @ i @ ''/''"
  have x: "json_escape ?x = ''chrome-extension://'' @ json_escape i @ ''/''" "json_safe ?x \<longleftrightarrow> json_safe i"
    using plain_texts(10,11) by (simp_all only: plain_text_def json_escape_append json_safe_append simp_thms)
  have "render_chrome_manifest exe i = manifest_head @ json_escape exe @ [DQUOTE] @ manifest_middle ''allowed_origins''
      @ json_escape ?x @ [DQUOTE] @ '']'' @ [NL] @ ''}'' @ [NL]"
    unfolding render_chrome_manifest_def x(1) by simp
  then show ?thesis
    unfolding read_manifest_def using manifest_tokens_of [OF plain_texts(9), of exe ?x] x(2)
    by (simp add: manifest_value)
qed

section \<open>What writing leaves\<close>

text \<open>The files of a list hold a text; nothing else that was there has changed.\<close>

definition installed :: "path set \<Rightarrow> bytes \<Rightarrow> 'z fs_world_scheme \<Rightarrow> 'z fs_world_scheme \<Rightarrow> bool" where
  "installed ps b w w' \<longleftrightarrow> rooted w' \<and> (\<forall>p \<in> ps. node_at w' p = Some (File b)) \<and>
     (\<forall>q. q \<notin> ps \<longrightarrow> node_at w' q = node_at w q \<or> node_at w q = None \<and> node_at w' q = Some Dir)"

lemma installed_no_links: "installed ps b w w' \<Longrightarrow> no_links w q \<Longrightarrow> no_links w' q"
  unfolding installed_def no_links_def by (metis node.distinct(1,6) option.inject)

lemma write_each_leaves:
  assumes "rooted w" "\<forall>p \<in> set ps. list_all plain_name p \<and> no_links w p" "write_each ps b w = (Inr (), w')"
  shows "installed (set ps) b w w'"
  using assms
proof (induction ps arbitrary: w)
  case (Cons p ps)
  obtain w1 w2 where s: "make_dir_all (butlast p) w = (Inr (), w1)" "fs_write p b w1 = (Inr (), w2)" "write_each ps b w2 = (Inr (), w')"
    using Cons.prems(3) by (auto simp: then_eff_Inr_iff)
  have g: "with_dirs w w1" "rooted w1" using s(1) make_dirs_adds make_dirs_rooted Cons.prems(1) unfolding make_dir_all_def by blast+
  obtain q where "follow w1 p = Inr q" "node_at w2 = (node_at w1)(q \<mapsto> File b)" using fs_write_follows [OF s(2)] by blast
  then have w2: "node_at w2 = (node_at w1)(p \<mapsto> File b)"
    using follow_straight [of p w1 q] no_links_with_dirs [OF g(1)] Cons.prems(2) by simp
  have "no_links w2 r" if "no_links w r" for r using no_links_with_dirs [OF g(1) that] w2 by (simp add: no_links_def)
  then have ih: "installed (set ps) b w2 w'" using Cons.IH [OF fs_write_rooted [OF s(2) g(2)] _ s(3)] Cons.prems(2) by simp
  have "node_at w' p = Some (File b)" using ih w2 by (cases "p \<in> set ps") (auto simp: installed_def)
  moreover have "node_at w' r = node_at w r \<or> node_at w r = None \<and> node_at w' r = Some Dir" if "r \<notin> set (p # ps)" for r
  proof -
    have "node_at w2 r = node_at w1 r" using w2 that by simp
    then show ?thesis using ih g(1) that unfolding installed_def with_dirs_def by (metis list.set_intros(2))
  qed
  ultimately show ?case using ih by (simp add: installed_def)
qed (simp add: installed_def)

lemma home_paths:
  assumes "list_all plain_name home"
  shows "\<forall>p \<in> set (firefox_paths home @ chrome_paths home). list_all plain_name p"
    "set (firefox_paths home) \<inter> set (chrome_paths home) = {}"
proof -
  have "list_all plain_name [''.mozilla'', ''native-messaging-hosts'', host_file]"
    "list_all plain_name [''.config'', ''google-chrome'', ''NativeMessagingHosts'', host_file]"
    "list_all plain_name [''.config'', ''chromium'', ''NativeMessagingHosts'', host_file]" by code_simp+
  then show "\<forall>p \<in> set (firefox_paths home @ chrome_paths home). list_all plain_name p"
    using assms by (simp add: firefox_paths_def chrome_paths_def)
  show "set (firefox_paths home) \<inter> set (chrome_paths home) = {}" by (simp add: firefox_paths_def chrome_paths_def)
qed

lemma remove_each_leaves:
  assumes "rooted w" "\<forall>p \<in> set ps. list_all plain_name p \<and> no_links w p" "remove_each ps w = (Inr (), w')"
  shows "(\<forall>p \<in> set ps. node_at w' p = None) \<and> (\<forall>q. q \<notin> set ps \<longrightarrow> node_at w' q = node_at w q)"
  using assms
proof (induction ps arbitrary: w)
  case (Cons p ps)
  obtain r w1 where u: "remove_file p w = (r, w1)" by fastforce
  then have r: "remove_each ps w1 = (Inr (), w')" "r = Inr () \<or> r = Inl NotFound"
    using Cons.prems(3) by (auto split: sum.splits io_kind.splits)
  have w1: "node_at w1 = (node_at w)(p := None)" "rooted w1"
    using remove_file_leaves [OF _ _ Cons.prems(1) u r(2)] Cons.prems(2) by simp_all
  then have "\<forall>p \<in> set ps. list_all plain_name p \<and> no_links w1 p" using Cons.prems(2) by (simp add: no_links_def)
  with Cons.IH [OF w1(2) _ r(1)] w1(1) show ?case by (cases "p \<in> set ps") auto
qed simp

section \<open>Property\<close>


section \<open>Example\<close>

definition demo_home :: fs_world where
  "demo_home = \<lparr>tree = [([], Dir), ([''home''], Dir), ([''home'', ''.profile''], File ''x'')], no_stat = (\<lambda>_. False), no_read = (\<lambda>_. False),
     faults = (\<lambda>_. None), tick = 0, pid = 7, nanos = (\<lambda>n. n), entropy = (\<lambda>_. CHR ''e''), drawn = 0\<rparr>"

definition demo_host :: host_env where
  "demo_host = \<lparr>he_exe = Inr (''/opt/my '' @ [DQUOTE] @ ''x'' @ [DQUOTE]), he_home = Some [''home'']\<rparr>"

lemma demo_install: "fst (host_install demo_host (Some ''abc'') None demo_home) = Inr 0"
  by code_simp

lemma demo_no_links: "no_links demo_home p"
  by (auto simp: no_links_def demo_home_def node_at_def split: if_splits)

text \<open>A link on the way is followed: the file of another directory is written.\<close>

lemma demo_follow:
  "follow (put_node [''home'', ''.mozilla''] (Link ''../srv/./m'') (put_node [''srv'', ''m''] Dir (put_node [''srv''] Dir demo_home)))
     [''home'', ''.mozilla'', ''x.json''] = Inr [''srv'', ''m'', ''x.json'']"
  "follow (put_node [''a''] (Link ''/a'') demo_home) [''a'', ''b''] = Inl OtherIo"
  by code_simp+


end
