(* ===== verification/Daemon_Start.thy ===== *)
theory Daemon_Start
  imports Pair_Command Status_Socket Host_Install
begin

text \<open>
  The daemon as a command (\<open>main.rs\<close>): \<open>bypass sync daemon\<close> with its supervisor operations, from the
  configuration to the loop of \<open>Daemon\<close> and the removal of the socket, and \<open>bypass sync status\<close>.  The state is
  the network beside the file system with its sockets.  The wait for the first listen address is left out.
\<close>

section \<open>The foreground daemon\<close>

datatype daemon_cmd_error =
    NoDaemonRoot
  | DaemonIdentity identity_error
  | DaemonPeers peers_error
  | DaemonTransport str
  | WatchFailed str
  | DaemonSocket socket_error
  | DaemonLoop str

record ('n, 'k, 'a, 'p, 'm) daemon_input =
  di_root :: "str option"                          \<comment> \<open>\<open>resolve_default_root\<close>\<close>
  di_config :: "'k config_env"
  di_fresh :: 'k
  di_net :: "('n, 'k, 'a, 'p) pair_net"
  di_watch :: "str \<Rightarrow> ('n, str, unit) eff"          \<comment> \<open>the \<open>notify\<close> watcher on the root\<close>
  di_runtime_dir :: "path option"                  \<comment> \<open>\<open>XDG_RUNTIME_DIR\<close>\<close>
  di_pid :: nat
  di_view :: "'m toml_view"                        \<comment> \<open>\<open>peers.toml\<close> when the loop first looks at its age\<close>

type_synonym ('n, 'z, 'b) daemon_op = "('n \<times> 'z sock_world_scheme, daemon_cmd_error, 'b) eff"

text \<open>Everything before the loop: the key, the peers and the path of the socket that is bound.\<close>

definition start_daemon :: "('n, 'k, 'a, 'p, 'm) daemon_input \<Rightarrow> ('n, 'z, 'k \<times> peers \<times> path) daemon_op" where
  "start_daemon I s =
     (let E = di_config I; T = di_net I in
      case di_root I of
        None \<Rightarrow> (Inl NoDaemonRoot, s)
      | Some root \<Rightarrow>
          then_eff (map_err_st DaemonIdentity (on_config (load_or_generate (ce_to_pb E) (ce_from_pb E) (ce_identity E) (di_fresh I)) s)) (\<lambda>kp s.
          then_eff (map_err DaemonPeers (peers_load (ce_of_toml E) (ce_peers E) (snd s)), s) (\<lambda>peers s.
          then_eff (map_err_st DaemonTransport (on_net (pn_start T kp (pn_any T)) s)) (\<lambda>_ s.
          then_eff (map_err_st WatchFailed (on_net (di_watch I root) s)) (\<lambda>_ s.
          then_eff (map_err DaemonSocket (resolve_socket_path (di_runtime_dir I)), s) (\<lambda>sock s.
          then_eff (map_err_st DaemonSocket (on_config (bind_or_refuse_existing (di_pid I) sock) s)) (\<lambda>_ s.
            (Inr (kp, peers, sock), s))))))))"

definition end_daemon :: "path \<Rightarrow> str + unit \<Rightarrow> ('n, 'z, nat) daemon_op" where
  "end_daemon sock result s =
     then_eff (map_err DaemonLoop result, (fst s, snd (remove_socket sock (snd s)))) (\<lambda>_ s. (Inr 0, s))"

text \<open>A run of the command, with what the loop did on the network; while it loops, the world goes its way.\<close>

inductive sync_daemon ::
  "('n, 'k, 'a, 'p, 'm) daemon_input \<Rightarrow> ('p, 'w, 'oid) daemon_env \<Rightarrow> 'n \<times> 'z sock_world_scheme \<Rightarrow>
    ('p, 'a) daemon_output list \<Rightarrow> daemon_cmd_error + nat \<Rightarrow> 'n \<times> 'z sock_world_scheme \<Rightarrow> bool" for I D where
  not_started: "start_daemon I s = (Inl e, s') \<Longrightarrow> sync_daemon I D s [] (Inl e) s'"
| looped: "\<lbrakk>start_daemon I s = (Inr (kp, peers, sock), s1);
      daemon_run D (daemon_init (de_parse D) (di_view I) peers) es outs d;
      end_daemon sock result s2 = (r, s')\<rbrakk> \<Longrightarrow> sync_daemon I D s outs r s'"

datatype daemon_cmd = Foreground | Install | Uninstall | Supervise supervisor_op

text \<open>The supervisor operations of \<open>sync_daemon_dispatch\<close>; nothing stands for the foreground daemon.\<close>

definition sync_daemon_dispatch ::
  "host_env \<Rightarrow> 'z fs_world_scheme systemctl \<Rightarrow> daemon_cmd \<Rightarrow> ('z fs_world_scheme, service_error, nat) eff option" where
  "sync_daemon_dispatch E Y action =
     (case action of
        Foreground \<Rightarrow> None
      | Install \<Rightarrow> Some (service_install E Y)
      | Uninstall \<Rightarrow> Some (service_uninstall E Y)
      | Supervise op \<Rightarrow> Some (supervisor_call Y op))"

section \<open>Asking it\<close>

datatype status_error = StatusSocket socket_error | StatusQuery query_error | StatusJson str

definition sync_status ::
  "status_codec \<Rightarrow> (status_snapshot \<Rightarrow> str + str) \<Rightarrow> (nat \<Rightarrow> bytes \<Rightarrow> str + bytes) \<Rightarrow> path option \<Rightarrow> nat \<Rightarrow> bool \<Rightarrow> 'z sock_world_scheme \<Rightarrow>
    status_error + nat \<times> str list" where
  "sync_status J encode answer runtime_dir now json w =
     and_then (map_err StatusSocket (resolve_socket_path runtime_dir)) (\<lambda>sock.
     and_then (map_err StatusQuery (query_status J sock answer w)) (\<lambda>snap.
     if json then and_then (map_err StatusJson (encode snap)) (\<lambda>t. Inr (0, [t]))
     else Inr (0, print_status_table now snap)))"

section \<open>Lemmas\<close>

text \<open>What a start leaves behind: the peers are those of the file and the socket is the daemon's.\<close>

lemma start_daemon_Inr:
  assumes "start_daemon I (n, w) = (Inr (kp, peers, sock), (n', w'))"
    and "identity_load (ce_from_pb (di_config I)) (ce_identity (di_config I)) w = Inr kp0"
  shows "kp = kp0 \<and> peers_load (ce_of_toml (di_config I)) (ce_peers (di_config I)) w = Inr peers \<and>
    resolve_socket_path (di_runtime_dir I) = Inr sock \<and> bind_or_refuse_existing (di_pid I) sock w = (Inr (), w')"
  using assms
  by (auto simp: start_daemon_def Let_def then_eff_Inr_iff on_net_def on_config_def load_or_generate_def map_err_def
      split: option.splits prod.splits sum.splits)

text \<open>A second daemon on the same socket serves nobody, dials nobody, and leaves the socket to the first.\<close>

lemma second_daemon_stays_out:
  assumes "sync_daemon I D (n, w) outs r (n', w')"
    and "identity_load (ce_from_pb (di_config I)) (ce_identity (di_config I)) w = Inr kp"
    and "resolve_socket_path (di_runtime_dir I) = Inr sock" "\<not> no_stat w sock" "connect sock w = Inr other"
  shows "isl r \<and> outs = [] \<and> w' = w"
proof -
  have refused: "bind_or_refuse_existing me sock w = (Inl (AlreadyRunning sock), w)" for me
    using assms(4,5) by (auto simp: bind_or_refuse_existing_def probe_socket_def connect_def path_exists_def lstat_def split: if_splits option.splits)
  from assms(1) show ?thesis
  proof cases
    case (not_started e)
    then show ?thesis using assms(2,3) refused
      by (auto simp: start_daemon_def Let_def then_eff_def on_net_def on_config_def load_or_generate_def map_err_def map_err_st_def
          split: option.splits prod.splits sum.splits)
  next
    case (looped k ps p s1)
    then obtain a b where "start_daemon I (n, w) = (Inr (k, ps, p), (a, b))" by (cases s1) auto
    from start_daemon_Inr [OF this assms(2)] show ?thesis using assms(3) refused by auto
  qed
qed


end
