(* ===== verification/Dispatch.thy ===== *)
theory Dispatch
  imports Cli_Commands Import_Command Daemon_Start
begin

text \<open>
  The surface of the program (\<open>cli.rs\<close>) and \<open>main\<close> with \<open>dispatch\<close> (\<open>main.rs\<close>): one constructor for every
  command, and the match that runs it.  The commands on entries run on the store, as \<open>Cli_Commands\<close> has them; those
  that another module implements over a state of its own are modelled there (\<open>Cli_Sync\<close>, \<open>Backup_Restore\<close>,
  \<open>Import_Command\<close>, \<open>Edit\<close>, \<open>Doctor\<close>, \<open>Pair_Command\<close>, \<open>Daemon_Start\<close>, ...), and here they are an effect of the
  environment.
\<close>

section \<open>The command line\<close>

datatype sync_cmd =
    SyncPair bool bool "str option" "str option"        \<comment> \<open>show, enter, name, addr\<close>
  | SyncIdentityRotate bool                             \<comment> \<open>confirm\<close>
  | SyncDaemon daemon_cmd
  | SyncStatus bool                                     \<comment> \<open>json\<close>
  | SyncPeerRm str bool                                 \<comment> \<open>name, yes\<close>

datatype messaging_host_cmd = HostInstall "str option" "str option" | HostUninstall

datatype command =
    CmdInit "str list" bool
  | CmdBackup str "str option"
  | CmdImport "import_format option" "str option" str "str option" bool
  | CmdRestore str bool
  | CmdInsert str bool bool                                \<comment> \<open>path, force, multiline\<close>
  | CmdShow str "str option" bool                          \<comment> \<open>path, field, clip\<close>
  | CmdLs "str option"
  | CmdFind str
  | CmdRm str bool
  | CmdEdit str
  | CmdGenerate str "nat option" bool bool bool bool       \<comment> \<open>path, length, no symbols, in place, force, clip\<close>
  | CmdCp str str bool
  | CmdMv str str bool
  | CmdLog "str option"
  | CmdSync bool "sync_cmd option"
  | CmdAudit
  | CmdOtp str bool
  | CmdDoctor
  | CmdGit "str list"
  | CmdExt str "str list"
  | CmdCompletion str
  | CmdMan
  | CmdMessagingHost "messaging_host_cmd option"
  | CmdClipboardSet nat
  | CmdMergeTakeTheirs str str str str str

record ('w, 'ce, 'se, 've) cli_env =
  cl_store :: "('w, 'ce, 'se, 've) store"
  cl_console :: console
  cl_totp :: "str \<Rightarrow> otp_error + str"
  cl_uni :: "str \<Rightarrow> str"
  cl_rng :: "nat \<Rightarrow> nat \<Rightarrow> nat"
  cl_warning :: "git_warning \<Rightarrow> str"
  cl_git :: "str list \<Rightarrow> ('w, str, int option) eff"
  cl_module :: "command \<Rightarrow> ('w, 'ce, 'se, 've, nat) cli_op"      \<comment> \<open>the commands other modules implement\<close>
  cl_report :: "('ce, 'se, 've) cli_error \<Rightarrow> str"                \<comment> \<open>the \<open>{:#}\<close> form of an error\<close>

definition dispatch :: "('w, 'ce, 'se, 've) cli_env \<Rightarrow> command \<Rightarrow> ('w, 'ce, 'se, 've, nat) cli_op" where
  "dispatch E command =
     (let con = cl_console E; st = cl_store E in
      case command of
        CmdOtp path clip \<Rightarrow> cmd_otp (cl_totp E) con st path clip
      | CmdLog path \<Rightarrow> cmd_log st path
      | CmdInsert path force multiline \<Rightarrow> cmd_insert con st path force multiline
      | CmdShow path fld clip \<Rightarrow> cmd_show (cl_uni E) con st path fld clip
      | CmdLs subpath \<Rightarrow> cmd_ls st subpath
      | CmdFind pattern \<Rightarrow> cmd_find con st pattern
      | CmdRm path recursive \<Rightarrow> cmd_rm st path recursive
      | CmdGenerate path len no_symbols in_place force clip \<Rightarrow> cmd_generate (cl_rng E) con st path len no_symbols in_place force clip
      | CmdCp from to force \<Rightarrow> cmd_cp st from to force
      | CmdMv from to force \<Rightarrow> cmd_mv st from to force
      | CmdGit args \<Rightarrow> cmd_git (cl_warning E) (cl_git E) args
      | _ \<Rightarrow> cl_module E command)"

text \<open>\<open>main\<close>: the exit code, with what the process has written.\<close>

definition bypass_main :: "('w, 'ce, 'se, 've) cli_env \<Rightarrow> command \<Rightarrow> 'w \<times> out_event list \<Rightarrow> nat \<times> 'w \<times> out_event list" where
  "bypass_main E command s =
     (case dispatch E command s of
        (Inr code, s) \<Rightarrow> (code, s)
      | (Inl e, s) \<Rightarrow> (1, emit (Stderr (''bypass: '' @ cl_report E e)) s))"

section \<open>What a command writes\<close>

text \<open>The output grows by events that all satisfy a predicate.\<close>

definition adds :: "(out_event \<Rightarrow> bool) \<Rightarrow> 'w \<times> out_event list \<Rightarrow> 'r \<times> 'w \<times> out_event list \<Rightarrow> bool" where
  "adds P s r \<longleftrightarrow> (\<exists>new. snd (snd r) = snd s @ new \<and> list_all P new)"

named_theorems adds_intros

lemma adds_none [adds_intros]: "adds P s (x, s)"
  by (simp add: adds_def)

lemma adds_emit [adds_intros]: "P e \<Longrightarrow> adds P s (x, s') \<Longrightarrow> adds P s (y, emit e s')"
  by (auto simp: adds_def)

lemma adds_println [adds_intros]: "P (Stdout (l @ [NL])) \<Longrightarrow> adds P s (x, s') \<Longrightarrow> adds P s (y, println l s')"
  by (auto simp: adds_def)

lemma adds_trans: "adds P s (x, s') \<Longrightarrow> adds P s' r \<Longrightarrow> adds P s r"
  by (auto simp: adds_def)

lemma adds_fold_from:
  assumes "\<And>c s. adds P s (x, f c s)"
  shows "adds P s (x, s') \<Longrightarrow> adds P s (x, fold f xs s')"
proof (induction xs arbitrary: s')
  case (Cons a xs)
  then show ?case using adds_trans [OF Cons.prems assms] by simp
qed simp

lemma adds_fold [adds_intros]: "(\<And>c s. adds P s (x, f c s)) \<Longrightarrow> adds P s (x, fold f xs s)"
  by (rule adds_fold_from) (auto intro: adds_none)

lemma adds_then [adds_intros]: "adds P s r \<Longrightarrow> (\<And>a s'. r = (Inr a, s') \<Longrightarrow> adds P s' (k a s')) \<Longrightarrow> adds P s (then_eff r k)"
  by (cases r rule: eff_exhaust) (auto intro: adds_trans simp: adds_def)

lemma adds_store [adds_intros]: "adds P s (on_store f s)" "adds P s (look g s)"
  by (simp_all add: adds_def on_store_def look_def split: prod.split)

lemma adds_clip [adds_intros]: "P (Clip b) \<Longrightarrow> P (Stderr (clip_message DEFAULT_CLEAR_SECS)) \<Longrightarrow> adds P s (to_clipboard con b s)"
  by (simp add: to_clipboard_def adds_def split: sum.split)

lemma adds_if [adds_intros]: "(b \<Longrightarrow> adds P s x) \<Longrightarrow> (\<not> b \<Longrightarrow> adds P s y) \<Longrightarrow> adds P s (if b then x else y)"
  by simp

fun on_entries :: "command \<Rightarrow> bool" where
  "on_entries (CmdOtp _ _) = True"
| "on_entries (CmdLog _) = True"
| "on_entries (CmdInsert _ _ _) = True"
| "on_entries (CmdShow _ _ _) = True"
| "on_entries (CmdLs _) = True"
| "on_entries (CmdFind _) = True"
| "on_entries (CmdRm _ _) = True"
| "on_entries (CmdGenerate _ _ _ _ _ _) = True"
| "on_entries (CmdCp _ _ _) = True"
| "on_entries (CmdMv _ _ _) = True"
| "on_entries _ = False"

text \<open>Whether the result was asked for on the clipboard, on standard output, or not at all.\<close>

fun to_clip :: "command \<Rightarrow> bool" where
  "to_clip (CmdOtp _ clip) = clip"
| "to_clip (CmdShow _ _ clip) = clip"
| "to_clip (CmdGenerate _ _ _ _ _ clip) = clip"
| "to_clip _ = False"

fun to_stdout :: "command \<Rightarrow> bool" where
  "to_stdout (CmdOtp _ clip) = (\<not> clip)"
| "to_stdout (CmdShow _ _ clip) = (\<not> clip)"
| "to_stdout (CmdGenerate _ _ _ _ _ clip) = (\<not> clip)"
| "to_stdout (CmdLog _) = True"
| "to_stdout (CmdLs _) = True"
| "to_stdout (CmdFind _) = True"
| "to_stdout _ = False"

text \<open>The messages name what was asked for, never what an entry holds.\<close>

definition clip_notice :: "bool \<Rightarrow> str set" where
  "clip_notice clip = (if clip then {''Copied to clipboard. Will clear in 45 seconds.''} else {})"

lemma clip_notice_eq: "clip_notice clip = (if clip then {clip_message DEFAULT_CLEAR_SECS} else {})"
proof -
  have "clip_message DEFAULT_CLEAR_SECS = ''Copied to clipboard. Will clear in 45 seconds.''" by code_simp
  then show ?thesis by (simp add: clip_notice_def)
qed

fun messages :: "console \<Rightarrow> command \<Rightarrow> str set" where
  "messages con (CmdOtp _ clip) = clip_notice clip"
| "messages con (CmdShow _ _ clip) = clip_notice clip"
| "messages con (CmdInsert path force _) = {(if force then ''updated '' else ''added '') @ path}"
| "messages con (CmdFind pattern) = {''bypass: no entries matching '' @ cn_debug con pattern}"
| "messages con (CmdRm path recursive) = (if recursive then range (\<lambda>p. ''removed '' @ as_str p) else {''removed '' @ path})"
| "messages con (CmdGenerate path _ _ in_place force clip) =
     clip_notice clip \<union> {(if in_place then ''rotated '' else if force then ''updated '' else ''added '') @ path}"
| "messages con (CmdCp from to _) = {''copied '' @ from @ '' to '' @ to}"
| "messages con (CmdMv from to _) = {''renamed '' @ from @ '' to '' @ to}"
| "messages con _ = {}"

fun allowed :: "console \<Rightarrow> command \<Rightarrow> out_event \<Rightarrow> bool" where
  "allowed con c (Clip _) = to_clip c"
| "allowed con c (Stdout _) = to_stdout c"
| "allowed con c (Stderr m) = (m \<in> messages con c)"

lemma adds_if_state [adds_intros]: "adds P s (x, t) \<Longrightarrow> adds P s (x, u) \<Longrightarrow> adds P s (x, if b then t else u)"
  by simp

lemma adds_case_res [adds_intros]: "(\<And>e. adds P s (x, f e)) \<Longrightarrow> (\<And>a. adds P s (x, g a)) \<Longrightarrow> adds P s (x, case r of Inl e \<Rightarrow> f e | Inr a \<Rightarrow> g a)"
  by (simp split: sum.split)

lemma otp_adds: "adds (allowed con (CmdOtp p c)) s (cmd_otp totp con st p c s)"
  unfolding cmd_otp_def by (intro adds_intros; simp add: clip_notice_eq)

lemma log_adds: "adds (allowed con (CmdLog p)) s (cmd_log st p s)"
  unfolding cmd_log_def by (intro adds_intros; simp)

lemma insert_adds: "adds (allowed con (CmdInsert p f m)) s (cmd_insert con st p f m s)"
  unfolding cmd_insert_def by (intro adds_intros; auto simp: parse_entry_Inr_iff)

lemma show_adds: "adds (allowed con (CmdShow p f c)) s (cmd_show uni con st p f c s)"
  unfolding cmd_show_def Let_def by (intro adds_intros; simp add: clip_notice_eq)

lemma ls_adds: "adds (allowed con (CmdLs p)) s (cmd_ls st p s)"
  unfolding cmd_ls_def Let_def case_prod_unfold by (intro adds_intros; simp)

lemma find_adds: "adds (allowed con (CmdFind p)) s (cmd_find con st p s)"
  unfolding cmd_find_def by (intro adds_intros; simp)

lemma rm_adds: "adds (allowed con (CmdRm p r)) s (cmd_rm st p r s)"
  unfolding cmd_rm_def by (intro adds_intros; auto simp: parse_entry_Inr_iff)

lemma generate_adds: "adds (allowed con (CmdGenerate p l n i f c)) s (cmd_generate rng con st p l n i f c s)"
  unfolding cmd_generate_def Let_def by (intro adds_intros; auto simp: parse_entry_Inr_iff clip_notice_eq)

lemma cp_adds: "adds (allowed con (CmdCp a b f)) s (cmd_cp st a b f s)"
  unfolding cmd_cp_def by (intro adds_intros; auto simp: parse_entry_Inr_iff)

lemma mv_adds: "adds (allowed con (CmdMv a b f)) s (cmd_mv st a b f s)"
  unfolding cmd_mv_def by (intro adds_intros; auto simp: parse_entry_Inr_iff)

lemmas command_adds = otp_adds log_adds insert_adds show_adds ls_adds find_adds rm_adds generate_adds cp_adds mv_adds

lemma dispatch_adds: "on_entries c \<Longrightarrow> adds (allowed (cl_console E) c) s (dispatch E c s)"
  by (cases c) (simp_all add: dispatch_def Let_def command_adds del: allowed.simps)

text \<open>A reader leaves the store alone, and so does a command that refuses a path.\<close>

fun reads_only :: "command \<Rightarrow> bool" where
  "reads_only (CmdOtp _ _) = True"
| "reads_only (CmdLog _) = True"
| "reads_only (CmdShow _ _ _) = True"
| "reads_only (CmdLs _) = True"
| "reads_only (CmdFind _) = True"
| "reads_only _ = False"

lemma fst_fold_println: "fst (fold (\<lambda>c. println (f c)) xs s) = fst s"
  by (induction xs arbitrary: s) simp_all

lemma reader_keeps_store: "reads_only c \<Longrightarrow> fst (snd (dispatch E c s)) = fst s"
  by (cases c)
    (auto simp: dispatch_def Let_def cmd_otp_def cmd_log_def cmd_show_def cmd_ls_def cmd_find_def then_eff_def look_def to_clipboard_def
      fst_fold_println split: sum.split prod.split)

lemma refused_path_harmless: "on_entries c \<Longrightarrow> dispatch E c s = (Inl (InvalidEntryPath e), s') \<Longrightarrow> s' = s"
  by (cases c)
    (auto simp: dispatch_def Let_def cmd_otp_def cmd_log_def cmd_show_def cmd_ls_def cmd_find_def cmd_insert_def cmd_rm_def cmd_generate_def
      cmd_cp_def cmd_mv_def then_eff_def look_def on_store_def to_clipboard_def map_err_def split: sum.splits prod.splits if_splits)

section \<open>Property\<close>


section \<open>Example\<close>

definition demo_cli :: "(fs_world, unit, fs_error, unit) cli_env" where
  "demo_cli = \<lparr>cl_store = demo_store, cl_console = demo_pipe, cl_totp = (\<lambda>_. Inr ''000000''), cl_uni = id, cl_rng = (\<lambda>_ _. 0), cl_warning = (\<lambda>_. []),
     cl_git = (\<lambda>_ w. (Inl [], w)), cl_module = (\<lambda>_ s. (Inr 0, s)), cl_report = (\<lambda>_. [])\<rparr>"

lemma demo_dispatch: "dispatch demo_cli (CmdInsert ''web/new'' False False) (demo, []) = (Inr 0, (after_insert, [Stderr ''added web/new'']))"
  by (simp add: dispatch_def demo_cli_def demo_cmd_insert)


end
