(* ===== verification/In_Process.thy ===== *)
theory In_Process
  imports Rust_Prelude "HOL-Library.Multiset"
begin

text \<open>
  The in-process transport (\<open>bypass-cli/src/sync/transport.rs\<close>): two halves joined by two unbounded channels,
  each request with a one-shot channel for its reply.  A one-shot is a numbered slot; its sender is in the
  queue of the half the request was sent to, then in the \<open>Reply\<close> handle that \<open>next_request\<close> gave out.  A step
  uses only what is still owned: a half that was dropped takes no more steps, a handle is used once.
\<close>

section \<open>The halves, the wires and the slots\<close>

datatype half = LeftHalf | RightHalf

fun other_half :: "half \<Rightarrow> half" where
  "other_half LeftHalf = RightHalf"
| "other_half RightHalf = LeftHalf"

datatype in_process_error = Disconnected | UnknownPeer str | NoReply

datatype slot = Waiting | Answered bytes | Dropped

record ip_wire =
  iw_from :: str
  iw_bytes :: bytes
  iw_reply :: nat

record ip_half =
  ip_self_id :: str
  ip_peer_id :: str
  ip_alive :: bool
  ip_inbound :: "ip_wire list"           \<comment> \<open>what the other half has sent and this one not yet received\<close>

record ip_pair =
  ip_half :: "half \<Rightarrow> ip_half"
  ip_slots :: "slot list"
  ip_handles :: "nat list"                \<comment> \<open>the \<open>Reply\<close> handles in the hands of callers\<close>

abbreviation "queue s h \<equiv> ip_inbound (ip_half s h)"
abbreviation "alive s h \<equiv> ip_alive (ip_half s h)"

definition in_process_pair :: "str \<Rightarrow> str \<Rightarrow> ip_pair" where
  "in_process_pair a_id b_id =
     \<lparr>ip_half = (\<lambda>h. case h of
        LeftHalf \<Rightarrow> \<lparr>ip_self_id = a_id, ip_peer_id = b_id, ip_alive = True, ip_inbound = []\<rparr>
      | RightHalf \<Rightarrow> \<lparr>ip_self_id = b_id, ip_peer_id = a_id, ip_alive = True, ip_inbound = []\<rparr>),
      ip_slots = [], ip_handles = []\<rparr>"

definition set_queue :: "half \<Rightarrow> ip_wire list \<Rightarrow> ip_pair \<Rightarrow> ip_pair" where
  "set_queue h q s = s\<lparr>ip_half := (ip_half s)(h := (ip_half s h)\<lparr>ip_inbound := q\<rparr>)\<rparr>"

section \<open>The operations\<close>

text \<open>\<open>request\<close> up to its wait for the reply; the result is the slot it waits on.\<close>

definition request_start :: "half \<Rightarrow> str \<Rightarrow> bytes \<Rightarrow> (ip_pair, in_process_error, nat) eff" where
  "request_start h peer req s =
     (if peer \<noteq> ip_peer_id (ip_half s h) then (Inl (UnknownPeer peer), s)
      else
        let reply_tx = length (ip_slots s) in
        if \<not> alive s (other_half h) then (Inl Disconnected, s)
        else (Inr reply_tx,
          set_queue (other_half h)
            (queue s (other_half h) @ [\<lparr>iw_from = ip_self_id (ip_half s h), iw_bytes = req, iw_reply = reply_tx\<rparr>])
            (s\<lparr>ip_slots := ip_slots s @ [Waiting]\<rparr>)))"

text \<open>The rest of \<open>request\<close>: nothing while it waits.\<close>

definition request_poll :: "nat \<Rightarrow> ip_pair \<Rightarrow> (in_process_error + bytes) option" where
  "request_poll i s = (case ip_slots s ! i of Waiting \<Rightarrow> None | Answered b \<Rightarrow> Some (Inr b) | Dropped \<Rightarrow> Some (Inl NoReply))"

text \<open>\<open>next_request\<close>: nothing while the channel is empty and the other half, its only sender, is there.\<close>

definition next_request :: "half \<Rightarrow> ip_pair \<Rightarrow> (in_process_error + ip_wire) option \<times> ip_pair" where
  "next_request h s =
     (case queue s h of
        [] \<Rightarrow> (if alive s (other_half h) then None else Some (Inl Disconnected), s)
      | m # rest \<Rightarrow> (Some (Inr m), (set_queue h rest s)\<lparr>ip_handles := iw_reply m # ip_handles s\<rparr>))"

definition settle :: "slot \<Rightarrow> nat list \<Rightarrow> ip_pair \<Rightarrow> ip_pair" where
  "settle v is s = s\<lparr>ip_slots := fold (\<lambda>i xs. xs[i := v]) is (ip_slots s)\<rparr>"

definition reply_send :: "nat \<Rightarrow> bytes \<Rightarrow> ip_pair \<Rightarrow> ip_pair" where
  "reply_send i b s = settle (Answered b) [i] (s\<lparr>ip_handles := remove1 i (ip_handles s)\<rparr>)"

definition reply_drop :: "nat \<Rightarrow> ip_pair \<Rightarrow> ip_pair" where
  "reply_drop i s = settle Dropped [i] (s\<lparr>ip_handles := remove1 i (ip_handles s)\<rparr>)"

text \<open>With a half its receiver goes, and with that the wires nobody received.\<close>

definition drop_half :: "half \<Rightarrow> ip_pair \<Rightarrow> ip_pair" where
  "drop_half h s =
     settle Dropped (map iw_reply (queue s h)) (s\<lparr>ip_half := (ip_half s)(h := (ip_half s h)\<lparr>ip_alive := False, ip_inbound := []\<rparr>)\<rparr>)"

section \<open>Steps\<close>

text \<open>The output of a step is what the half that took it got to see.\<close>

datatype ip_output = Asked half "in_process_error + nat" | Got half "(in_process_error + ip_wire) option" | Silent

inductive ip_step :: "ip_pair \<Rightarrow> ip_output \<Rightarrow> ip_pair \<Rightarrow> bool" where
  requests: "alive s h \<Longrightarrow> request_start h peer req s = (r, s') \<Longrightarrow> ip_step s (Asked h r) s'"
| receives: "alive s h \<Longrightarrow> next_request h s = (r, s') \<Longrightarrow> ip_step s (Got h r) s'"
| replies: "i \<in> set (ip_handles s) \<Longrightarrow> ip_step s Silent (reply_send i b s)"
| forgets: "i \<in> set (ip_handles s) \<Longrightarrow> ip_step s Silent (reply_drop i s)"
| closes: "alive s h \<Longrightarrow> ip_step s Silent (drop_half h s)"

inductive ip_run :: "ip_pair \<Rightarrow> ip_output list \<Rightarrow> ip_pair \<Rightarrow> bool" where
  still: "ip_run s [] s"
| stepped: "ip_run s outs s' \<Longrightarrow> ip_step s' out s'' \<Longrightarrow> ip_run s (outs @ [out]) s''"

section \<open>Every waiting request has one owner\<close>

abbreviation "queued s h \<equiv> map iw_reply (queue s h)"

definition owners :: "ip_pair \<Rightarrow> nat list" where
  "owners s = queued s LeftHalf @ queued s RightHalf @ ip_handles s"

definition waiting :: "ip_pair \<Rightarrow> nat set" where
  "waiting s = {i. i < length (ip_slots s) \<and> ip_slots s ! i = Waiting}"

definition ip_ok :: "ip_pair \<Rightarrow> bool" where
  "ip_ok s \<longleftrightarrow> mset_set (waiting s) = mset (owners s) \<and> (\<forall>h. \<not> alive s h \<longrightarrow> queue s h = [])"

lemma settle_slots:
  "length (fold (\<lambda>i xs. xs[i := v]) is xs) = length xs"
  "i < length xs \<Longrightarrow> fold (\<lambda>i xs. xs[i := v]) is xs ! i = (if i \<in> set is then v else xs ! i)"
  by (induction "is" arbitrary: xs) (auto simp: nth_list_update)

lemma waiting_settle: "v \<noteq> Waiting \<Longrightarrow> waiting (settle v is s) = waiting s - set is"
  by (auto simp: waiting_def settle_def settle_slots split: if_splits)

lemma waiting_unchanged [simp]: "waiting (s\<lparr>ip_half := x\<rparr>) = waiting s" "waiting (s\<lparr>ip_handles := y\<rparr>) = waiting s" "waiting (set_queue h q s) = waiting s"
  by (simp_all add: waiting_def set_queue_def)

lemma waiting_more [simp]: "waiting (s\<lparr>ip_slots := ip_slots s @ [Waiting]\<rparr>) = insert (length (ip_slots s)) (waiting s)"
  by (auto simp: waiting_def nth_append)

lemma settle_rest [simp]: "ip_half (settle v is s) = ip_half s" "ip_handles (settle v is s) = ip_handles s"
  by (simp_all add: settle_def)

lemma set_queue_rest [simp]:
  "ip_half (set_queue h q s) h' = (if h' = h then (ip_half s h)\<lparr>ip_inbound := q\<rparr> else ip_half s h')" "ip_handles (set_queue h q s) = ip_handles s"
  "ip_slots (set_queue h q s) = ip_slots s"
  by (simp_all add: set_queue_def)

lemma waiting_below: "i \<in> waiting s \<Longrightarrow> i < length (ip_slots s)"
  by (simp add: waiting_def)

lemma waiting_finite [simp]: "finite (waiting s)"
  by (simp add: waiting_def)

lemma ip_ok_start: "ip_ok (in_process_pair a b)"
  by (auto simp: ip_ok_def owners_def waiting_def in_process_pair_def split: half.split)

text \<open>Requests that get an answer leave both the owners and those that wait.\<close>

lemma mset_set_less:
  assumes "mset_set W = mset q + Q" "finite W"
  shows "mset_set (W - set q) = Q"
proof -
  have "set_mset (mset_set W) = set q \<union> set_mset Q" using assms(1) by simp
  then have "set q \<subseteq> W" using assms(2) by auto
  moreover have "distinct q"
  proof (unfold distinct_count_atmost_1, intro allI)
    fix x
    have "count (mset q) x \<le> count (mset_set W) x" using assms(1) by simp
    also have "\<dots> \<le> 1" using assms(2) by (simp add: count_mset_set')
    finally have "count (mset q) x \<le> 1" .
    moreover have "count (mset q) x = 0 \<longleftrightarrow> x \<notin> set q" by (rule count_mset_0_iff)
    ultimately show "count (mset q) x = (if x \<in> set q then 1 else 0)" by (metis le_neq_trans less_one)
  qed
  then have "mset_set (set q) = mset q" by (rule mset_set_set)
  ultimately show ?thesis using assms by (simp add: mset_set_Diff)
qed

lemma ip_step_ok: "ip_step s out s' \<Longrightarrow> ip_ok s \<Longrightarrow> ip_ok s'"
proof (induction rule: ip_step.induct)
  case (requests s h peer req r s')
  have n: "length (ip_slots s) \<notin> waiting s" using waiting_below by fastforce
  show ?case
  proof (cases "s' = s")
    case False
    then have a: "alive s (other_half h)" and s': "s' = set_queue (other_half h)
            (queue s (other_half h) @ [\<lparr>iw_from = ip_self_id (ip_half s h), iw_bytes = req, iw_reply = length (ip_slots s)\<rparr>])
            (s\<lparr>ip_slots := ip_slots s @ [Waiting]\<rparr>)"
      using requests(2) by (auto simp: request_start_def Let_def split: if_splits)
    have "mset (owners s') = add_mset (length (ip_slots s)) (mset (owners s))"
      unfolding s' by (cases h) (simp_all add: owners_def)
    then show ?thesis using requests(3) a n unfolding s' by (simp add: ip_ok_def)
  qed (use requests(3) in simp)
next
  case (receives s h r s')
  show ?case
  proof (cases "queue s h")
    case Nil
    then show ?thesis using receives by (simp add: next_request_def)
  next
    case (Cons m rest)
    then have s': "s' = (set_queue h rest s)\<lparr>ip_handles := iw_reply m # ip_handles s\<rparr>" using receives(2) by (simp add: next_request_def)
    have "mset (owners s') = mset (owners s)" unfolding s' using Cons by (cases h) (simp_all add: owners_def)
    then show ?thesis using receives(1,3) unfolding s' by (auto simp: ip_ok_def)
  qed
next
  case (replies i s b)
  have "mset_set (waiting s - set [i]) = mset (queued s LeftHalf) + mset (queued s RightHalf) + mset (remove1 i (ip_handles s))"
    by (rule mset_set_less) (use replies in \<open>simp_all add: ip_ok_def owners_def\<close>)
  then show ?case using replies(2) by (simp add: reply_send_def ip_ok_def owners_def waiting_settle)
next
  case (forgets i s)
  have "mset_set (waiting s - set [i]) = mset (queued s LeftHalf) + mset (queued s RightHalf) + mset (remove1 i (ip_handles s))"
    by (rule mset_set_less) (use forgets in \<open>simp_all add: ip_ok_def owners_def\<close>)
  then show ?case using forgets(2) by (simp add: reply_drop_def ip_ok_def owners_def waiting_settle)
next
  case (closes s h)
  have "mset_set (waiting s - set (queued s h)) = mset (queued s (other_half h)) + mset (ip_handles s)"
    by (rule mset_set_less) (use closes in \<open>cases h, simp_all add: ip_ok_def owners_def\<close>)
  then show ?case using closes(2) by (cases h) (simp_all add: drop_half_def ip_ok_def owners_def waiting_settle)
qed

lemma ip_run_ok: "ip_run s outs s' \<Longrightarrow> ip_ok s \<Longrightarrow> ip_ok s'"
  by (induction rule: ip_run.induct) (auto intro: ip_step_ok)

text \<open>So no handle answers for a request that is settled, and no request waits once nobody is left to answer it.\<close>

lemma reply_is_waited_for:
  assumes "ip_run (in_process_pair a b) outs s" "i \<in> set (ip_handles s)"
  shows "request_poll i s = None" "request_poll i (reply_send i bs s) = Some (Inr bs)" "request_poll i (reply_drop i s) = Some (Inl NoReply)"
proof -
  have "mset_set (waiting s) = mset (owners s)" using ip_run_ok [OF assms(1) ip_ok_start] by (simp only: ip_ok_def)
  then have "set (owners s) = waiting s" by (metis finite_set_mset_mset_set set_mset_mset waiting_finite)
  then have "i \<in> waiting s" using assms(2) by (auto simp: owners_def)
  then show "request_poll i s = None" "request_poll i (reply_send i bs s) = Some (Inr bs)" "request_poll i (reply_drop i s) = Some (Inl NoReply)"
    by (simp_all add: request_poll_def waiting_def reply_send_def reply_drop_def settle_def)
qed

lemma nobody_waits_for_nobody:
  assumes "ip_run (in_process_pair a b) outs s" "\<not> alive s LeftHalf" "\<not> alive s RightHalf" "ip_handles s = []" "i < length (ip_slots s)"
  shows "request_poll i s \<noteq> None"
proof -
  have "mset_set (waiting s) = mset (owners s)" "owners s = []"
    using ip_run_ok [OF assms(1) ip_ok_start] assms(2-4) by (simp_all add: ip_ok_def owners_def)
  then have "waiting s = {}" by (simp add: mset_set_empty_iff)
  then show ?thesis using assms(5) by (auto simp: waiting_def request_poll_def split: slot.split)
qed

section \<open>Order\<close>

text \<open>What one half has received so far, and what is on its way to it, is what the other has sent, in order.\<close>

fun got :: "half \<Rightarrow> ip_output list \<Rightarrow> nat list" where
  "got h [] = []"
| "got h (Got h' (Some (Inr m)) # outs) = (if h' = h then [iw_reply m] else []) @ got h outs"
| "got h (_ # outs) = got h outs"

fun sent :: "half \<Rightarrow> ip_output list \<Rightarrow> nat list" where
  "sent h [] = []"
| "sent h (Asked h' (Inr i) # outs) = (if h' = h then [i] else []) @ sent h outs"
| "sent h (_ # outs) = sent h outs"

lemma got_append [simp]: "got h (xs @ ys) = got h xs @ got h ys"
  by (induction h xs rule: got.induct) auto

lemma sent_append [simp]: "sent h (xs @ ys) = sent h xs @ sent h ys"
  by (induction h xs rule: sent.induct) auto

lemma other_half_simps [simp]: "other_half (other_half h) = h" "other_half h \<noteq> h" "h \<noteq> other_half h" "other_half h = other_half k \<longleftrightarrow> h = k"
  by (cases h; cases k; simp)+

lemma in_process_in_order:
  "ip_run s0 outs s \<Longrightarrow> s0 = in_process_pair a b \<Longrightarrow> alive s h \<Longrightarrow> got h outs @ queued s h = sent (other_half h) outs"
proof (induction rule: ip_run.induct)
  case (still s)
  then show ?case by (cases h) (simp_all add: in_process_pair_def)
next
  case (stepped s outs s' out s'')
  from stepped.hyps(2) stepped.IH stepped.prems show ?case
  proof (cases rule: ip_step.cases)
    case (requests k peer req r)
    then show ?thesis using stepped.IH stepped.prems
      by (cases h; cases k) (auto simp: request_start_def Let_def split: if_splits)
  next
    case (receives k r)
    then show ?thesis using stepped.IH stepped.prems
      by (cases "queue s' k"; cases "h = k") (auto simp: next_request_def split: if_splits)
  qed (auto simp: reply_send_def reply_drop_def drop_half_def split: if_splits)
qed

end
