(* ===== verification/Doctor.thy ===== *)
theory Doctor
  imports Extensions Leak_Audit Store_Properties
begin

text \<open>
  \<open>bypass doctor\<close> (\<open>bypass-cli/src/doctor.rs\<close>): the checks of the environment, each a line of the report, and
  the exit code.  Programs that are run, the texts of errors and the git commands of the audit are
  parameters; the root of the store is the root of the model of the file system.  The checks look at files with plain
  calls of \<open>std::fs\<close>, which follow symbolic links: what is behind a link is a parameter too, since it may be
  outside the store.
\<close>

section \<open>Checks\<close>

datatype status = StOk | StWarn | StFail

definition tag :: "status \<Rightarrow> str" where
  "tag s = (case s of StOk \<Rightarrow> ''[ok]  '' | StWarn \<Rightarrow> ''[warn]'' | StFail \<Rightarrow> ''[fail]'')"

record check =
  ck_name :: str
  ck_status :: status
  ck_detail :: str

definition check_ok :: "str \<Rightarrow> str \<Rightarrow> check" where
  "check_ok n d = \<lparr>ck_name = n, ck_status = StOk, ck_detail = d\<rparr>"

definition check_warn :: "str \<Rightarrow> str \<Rightarrow> check" where
  "check_warn n d = \<lparr>ck_name = n, ck_status = StWarn, ck_detail = d\<rparr>"

definition check_fail :: "str \<Rightarrow> str \<Rightarrow> check" where
  "check_fail n d = \<lparr>ck_name = n, ck_status = StFail, ck_detail = d\<rparr>"

text \<open>A program run to its end: what it printed, and its exit status as it is displayed.\<close>

record 'w doctor_env =
  dr_output :: "str \<Rightarrow> str list \<Rightarrow> str + cmd_out \<times> str"
  dr_process :: process_env
  dr_git :: "'w audit_git"
  dr_file :: "'w \<Rightarrow> str \<Rightarrow> io_kind + bytes"      \<comment> \<open>a file below the root, for the audit\<close>
  dr_link_dir :: "'w \<Rightarrow> path \<Rightarrow> io_kind + bool"   \<comment> \<open>behind the link at a path: is it a directory\<close>
  dr_link_read :: "'w \<Rightarrow> path \<Rightarrow> io_kind + bytes" \<comment> \<open>behind the link at a path: its bytes\<close>
  dr_io :: "io_kind \<Rightarrow> str"
  dr_audit_error :: "audit_error \<Rightarrow> str"

type_synonym checks = "check list"

text \<open>\<open>Path::exists\<close>, \<open>Path::is_dir\<close> and \<open>fs::read\<close>: the metadata and the bytes are those behind a link.\<close>

definition std_metadata :: "'z fs_world_scheme doctor_env \<Rightarrow> 'z fs_world_scheme \<Rightarrow> path \<Rightarrow> io_kind + bool" where
  "std_metadata D w p =
     and_then (lstat w p) (\<lambda>n. case n of Link _ \<Rightarrow> dr_link_dir D w p | Dir \<Rightarrow> Inr True | File _ \<Rightarrow> Inr False)"

definition std_exists :: "'z fs_world_scheme doctor_env \<Rightarrow> 'z fs_world_scheme \<Rightarrow> path \<Rightarrow> bool" where
  "std_exists D w p = (case std_metadata D w p of Inr _ \<Rightarrow> True | Inl _ \<Rightarrow> False)"

definition std_is_dir :: "'z fs_world_scheme doctor_env \<Rightarrow> 'z fs_world_scheme \<Rightarrow> path \<Rightarrow> bool" where
  "std_is_dir D w p \<longleftrightarrow> std_metadata D w p = Inr True"

definition std_read :: "'z fs_world_scheme doctor_env \<Rightarrow> 'z fs_world_scheme \<Rightarrow> path \<Rightarrow> io_kind + bytes" where
  "std_read D w p = (case lstat w p of Inr (Link _) \<Rightarrow> dr_link_read D w p | _ \<Rightarrow> fs_read w p)"

definition run_check_gpg :: "'w doctor_env \<Rightarrow> bool \<times> checks" where
  "run_check_gpg D =
     (case dr_output D ''gpg'' [''--version''] of
        Inr (out, status) \<Rightarrow>
          if co_success out then
            (True, [check_ok ''gpg'' (case lines (from_utf8_lossy (co_stdout out)) of [] \<Rightarrow> [] | first # _ \<Rightarrow> first)])
          else (False, [check_fail ''gpg'' (''`gpg --version` exited with status '' @ status)])
      | Inl e \<Rightarrow> (False, [check_fail ''gpg'' (''cannot spawn `gpg`: '' @ e)]))"

definition run_check_secret_keys :: "'w doctor_env \<Rightarrow> checks" where
  "run_check_secret_keys D =
     (case dr_output D ''gpg'' [''--list-secret-keys'', ''--with-colons''] of
        Inr (out, status) \<Rightarrow>
          if co_success out then
            (let count = length (filter (prefix ''sec:'') (lines (from_utf8_lossy (co_stdout out)))) in
             if count = 0 then [check_warn ''secret keys'' ''no secret keys in keyring; you will not be able to decrypt entries'']
             else [check_ok ''secret keys'' (show_nat count @ '' secret key(s) available'')])
          else [check_warn ''secret keys'' (''`gpg --list-secret-keys` failed: status '' @ status)]
      | Inl e \<Rightarrow> [check_warn ''secret keys'' (''cannot spawn gpg: '' @ e)])"

definition run_check_store_root :: "'z fs_world_scheme doctor_env \<Rightarrow> 'z fs_world_scheme \<Rightarrow> str option \<Rightarrow> str option \<times> checks" where
  "run_check_store_root D w result =
     (case result of
        Some root \<Rightarrow>
          if \<not> std_exists D w [] then (Some root, [check_warn ''store root'' (root @ '' does not exist (run `bypass init`)'')])
          else if \<not> std_is_dir D w [] then (None, [check_fail ''store root'' (root @ '' exists but is not a directory'')])
          else (Some root, [check_ok ''store root'' root])
      | None \<Rightarrow>
          (None, [check_fail ''store root'' ''cannot resolve default store root: $PASSWORD_STORE_DIR unset and no home directory'']))"

definition run_check_gpg_id :: "'z fs_world_scheme doctor_env \<Rightarrow> 'z fs_world_scheme \<Rightarrow> str \<Rightarrow> str list option \<times> checks" where
  "run_check_gpg_id D w root =
     (let gpg_id = native_join root ''.gpg-id'' in
      if \<not> std_exists D w [''.gpg-id''] then
        (None, [check_fail ''.gpg-id'' (gpg_id @ '' does not exist; run `bypass init <gpg-id>` first'')])
      else (case std_read D w [''.gpg-id''] of
        Inl e \<Rightarrow> (None, [check_fail ''.gpg-id'' (''cannot read '' @ gpg_id @ '': '' @ dr_io D e)])
      | Inr b \<Rightarrow> (case from_utf8 b of
          None \<Rightarrow> (None, [check_fail ''.gpg-id'' ''file is not valid UTF-8''])
        | Some text \<Rightarrow>
            (let recipients = filter (\<lambda>l. l \<noteq> [] \<and> \<not> prefix ''#'' l) (map trim (lines text)) in
             if recipients = [] then (None, [check_fail ''.gpg-id'' ''no recipients listed''])
             else (Some recipients,
               [check_ok ''.gpg-id'' (show_nat (length recipients) @ '' recipient(s): '' @ join_with '', '' recipients)])))))"

definition key_known :: "'w doctor_env \<Rightarrow> str \<Rightarrow> bool" where
  "key_known D r = (case dr_output D ''gpg'' [''--list-keys'', ''--'', r] of Inr (out, _) \<Rightarrow> co_success out | Inl _ \<Rightarrow> False)"

definition run_check_recipients_known :: "'w doctor_env \<Rightarrow> str list \<Rightarrow> checks" where
  "run_check_recipients_known D recipients =
     (let missing = filter (\<lambda>r. \<not> key_known D r) recipients in
      if missing = [] then [check_ok ''recipients'' ''all recipients found in keyring'']
      else [check_fail ''recipients'' (''not in keyring: '' @ join_with '', '' missing)])"

definition run_check_editor :: "'w doctor_env \<Rightarrow> checks" where
  "run_check_editor D =
     (case env_var (dr_process D) ''EDITOR'' of
        Some e \<Rightarrow> (if e \<noteq> [] then [check_ok ''EDITOR'' e] else [check_warn ''EDITOR'' ''not set; `bypass edit` will fall back to `vi`''])
      | None \<Rightarrow> [check_warn ''EDITOR'' ''not set; `bypass edit` will fall back to `vi`''])"

definition run_check_git :: "'w doctor_env \<Rightarrow> checks" where
  "run_check_git D =
     (case dr_output D ''git'' [''--version''] of
        Inr (out, _) \<Rightarrow>
          if co_success out then [check_ok ''git'' (trim (from_utf8_lossy (co_stdout out)))]
          else [check_warn ''git'' ''git binary not found; `bypass sync` will be unavailable'']
      | Inl _ \<Rightarrow> [check_warn ''git'' ''git binary not found; `bypass sync` will be unavailable''])"

definition attribute_line :: "str \<Rightarrow> bool" where
  "attribute_line raw =
     (let line = trim raw in
      if line = [] \<or> prefix ''#'' line then False
      else (case split_whitespace line of
          [] \<Rightarrow> False
        | pattern # parts \<Rightarrow> pattern = ''*.gpg'' \<and> list_ex (\<lambda>tok. tok = ''binary'') parts))"

definition run_check_gitattributes :: "'z fs_world_scheme doctor_env \<Rightarrow> 'z fs_world_scheme \<Rightarrow> str \<Rightarrow> checks" where
  "run_check_gitattributes D w root =
     (if \<not> std_exists D w [''.gitattributes''] then
        [check_fail ''.gitattributes'' ''missing; `bypass sync` will install `*.gpg binary` automatically on next run'']
      else (case std_read D w [''.gitattributes''] of
        Inl e \<Rightarrow> [check_warn ''.gitattributes'' (''cannot read '' @ native_join root ''.gitattributes'' @ '': '' @ dr_io D e)]
      | Inr body \<Rightarrow>
          if list_ex attribute_line (lines (from_utf8_lossy body)) then
            [check_ok ''.gitattributes'' ''carries `*.gpg binary` rule (line-ending normalisation disabled)'']
          else [check_fail ''.gitattributes'' ''missing `*.gpg binary` rule; cross-platform clones may corrupt ciphertext'']))"

definition ELLIPSIS :: str where "ELLIPSIS = [CHR 0xE2, CHR 0x80, CHR 0xA6]"

definition run_check_leak_audit :: "'z fs_world_scheme doctor_env \<Rightarrow> 'z fs_world_scheme \<Rightarrow> checks" where
  "run_check_leak_audit D w =
     (if \<not> std_exists D w [''.git''] then []
      else (case audit_for_push (dr_git D) (dr_file D) w of
        Inr issues \<Rightarrow>
          if issues = [] then [check_ok ''audit'' ''no plaintext or unknown files in the pending push'']
          else
            (let preview = join_with '', '' (map li_path (take 3 issues));
                 more = (if 3 < length issues then '', '' @ ELLIPSIS @ '' (+'' @ show_nat (length issues - 3) @ '' more)'' else []) in
             [check_fail ''audit'' (show_nat (length issues) @ '' suspicious file(s): '' @ preview @ more @ ''; run `bypass audit`'')])
      | Inl e \<Rightarrow> [check_warn ''audit'' (''could not run audit: '' @ dr_audit_error D e)]))"

section \<open>The report\<close>

definition pad_to :: "nat \<Rightarrow> str \<Rightarrow> str" where
  "pad_to width s = s @ replicate (width - length s) (CHR '' '')"

definition print_report :: "checks \<Rightarrow> str list" where
  "print_report checks =
     (let width = fold max (map (\<lambda>c. length (ck_name c)) checks) 0 in
      map (\<lambda>c. pad_to width (ck_name c) @ ''  '' @ tag (ck_status c) @ ''  '' @ ck_detail c) checks)"

definition doctor_checks :: "'z fs_world_scheme doctor_env \<Rightarrow> 'z fs_world_scheme \<Rightarrow> checks" where
  "doctor_checks D w =
     (let (gpg_ok, c1) = run_check_gpg D;
          c2 = (if gpg_ok then run_check_secret_keys D else []);
          (root, c3) = run_check_store_root D w (resolve_default_root (dr_process D));
          (recipients, c4) = (case root of Some r \<Rightarrow> run_check_gpg_id D w r | None \<Rightarrow> (None, []));
          c5 = (if gpg_ok then (case recipients of Some rs \<Rightarrow> run_check_recipients_known D rs | None \<Rightarrow> []) else []);
          c6 = run_check_editor D @ run_check_git D;
          c7 = (case root of Some r \<Rightarrow> run_check_gitattributes D w r @ run_check_leak_audit D w | None \<Rightarrow> []) in
      c1 @ c2 @ c3 @ c4 @ c5 @ c6 @ c7)"

definition doctor_run :: "'z fs_world_scheme doctor_env \<Rightarrow> 'z fs_world_scheme \<Rightarrow> str list \<times> nat" where
  "doctor_run D w =
     (let checks = doctor_checks D w in
      (print_report checks, if list_ex (\<lambda>c. ck_status c = StFail) checks then 1 else 0))"

section \<open>Lemmas\<close>

definition no_fail :: "checks \<Rightarrow> bool" where
  "no_fail cs \<longleftrightarrow> \<not> list_ex (\<lambda>c. ck_status c = StFail) cs"

lemma no_fail_simps [simp]:
  "no_fail []" "no_fail (xs @ ys) \<longleftrightarrow> no_fail xs \<and> no_fail ys"
  "no_fail (check_ok n d # cs) = no_fail cs" "no_fail (check_warn n d # cs) = no_fail cs" "\<not> no_fail (check_fail n d # cs)"
  by (auto simp: no_fail_def check_ok_def check_warn_def check_fail_def)

lemma attribute_line_eq: "attribute_line = gpg_binary_line"
  by (rule ext) (simp add: attribute_line_def gpg_binary_line_def)

lemma gpg_check: "no_fail (snd (run_check_gpg D)) \<longleftrightarrow> fst (run_check_gpg D)"
  by (auto simp: run_check_gpg_def split: sum.split)

lemma warn_only [simp]: "no_fail (run_check_secret_keys D)" "no_fail (run_check_editor D)" "no_fail (run_check_git D)"
  by (auto simp: run_check_secret_keys_def run_check_editor_def run_check_git_def Let_def split: sum.split option.split)

lemma root_check: "no_fail (snd (run_check_store_root D w r)) \<longleftrightarrow> r \<noteq> None \<and> (std_exists D w [] \<longrightarrow> std_is_dir D w [])"
  "fst (run_check_store_root D w r) = (if std_exists D w [] \<longrightarrow> std_is_dir D w [] then r else None)"
  by (auto simp: run_check_store_root_def split: option.split)

lemma fs_read_lstat: "fs_read w p = Inr b \<Longrightarrow> lstat w p = Inr (File b)"
  by (cases "lstat w p") (auto simp: fs_read_def and_then_def simp del: lstat_Inr split: if_splits node.split_asm)

text \<open>The doctor and the store read a recipient file alike.\<close>

lemma gpg_id_check:
  "(fst (run_check_gpg_id D w r) = Some rs \<longleftrightarrow>
     std_exists D w [''.gpg-id''] \<and>
     (\<exists>b. std_read D w [''.gpg-id''] = Inr b \<and> parse_gpg_id b = (Inr (map KeyId rs) :: unit gpg_id_error + keyid list))) \<and>
   (no_fail (snd (run_check_gpg_id D w r)) \<longleftrightarrow> fst (run_check_gpg_id D w r) \<noteq> None)"
proof -
  let ?rs = "\<lambda>t. filter (\<lambda>l. l \<noteq> [] \<and> \<not> prefix ''#'' l) (map trim (lines t))"
  have inj: "map KeyId xs = map KeyId ys \<longleftrightarrow> xs = ys" for xs ys
    by (simp add: inj_map_eq_map inj_def)
  show ?thesis
  proof (cases "std_exists D w [''.gpg-id'']")
    case ex: True
    show ?thesis
    proof (cases "std_read D w [''.gpg-id'']")
      case (Inl e)
      then show ?thesis by (simp add: run_check_gpg_id_def Let_def)
    next
      case (Inr b)
      show ?thesis
      proof (cases "from_utf8 b")
        case None
        with Inr ex show ?thesis by (simp add: run_check_gpg_id_def Let_def parse_gpg_id_def)
      next
        case (Some t)
        with Inr ex show ?thesis
          by (cases "?rs t = []") (auto simp: run_check_gpg_id_def Let_def parse_gpg_id_def gpg_id_lines_def inj simp del: from_utf8_Some_iff)
      qed
    qed
  qed (simp add: run_check_gpg_id_def Let_def)
qed

lemma recipients_check: "no_fail (run_check_recipients_known D rs) \<longleftrightarrow> (\<forall>r \<in> set rs. key_known D r)"
  by (auto simp: run_check_recipients_known_def Let_def filter_empty_conv)

lemma attributes_check:
  "no_fail (run_check_gitattributes D w r) \<longleftrightarrow>
     std_exists D w [''.gitattributes''] \<and>
     (\<forall>b. std_read D w [''.gitattributes''] = Inr b \<longrightarrow> list_ex gpg_binary_line (lines (from_utf8_lossy b)))"
  by (auto simp: run_check_gitattributes_def attribute_line_eq split: sum.split)

lemma audit_check:
  "no_fail (run_check_leak_audit D w) \<longleftrightarrow>
     (std_exists D w [''.git''] \<longrightarrow> (\<forall>is. audit_for_push (dr_git D) (dr_file D) w = Inr is \<longrightarrow> is = []))"
  by (auto simp: run_check_leak_audit_def Let_def split: sum.split)

text \<open>What the storage reads at a path of one segment is what a plain read finds there.\<close>

lemma storage_reads_root_file:
  assumes "segments p = [x]" "\<not> prefix ''/'' (as_str p)" "fs_read w [x] = Inr b"
  shows "fs_storage_read w p = Inr (Some b)"
proof -
  have "reject_symlinks w [] [x] = Inr ()" using fs_read_lstat [OF assms(3)] by (simp del: lstat_Inr)
  with assms show ?thesis by (simp add: fs_storage_read_def absolute_def del: reject_symlinks.simps)
qed

text \<open>A link in the place of the file at the root is refused by the storage.\<close>

lemma storage_refuses_root_link:
  assumes "segments p = [x]" "node_at w [x] = Some (Link t)"
  shows "\<exists>e. fs_storage_read w p = Inl e"
proof -
  have "\<exists>e. reject_symlinks w [] [x] = Inl e" using assms(2) by (simp add: lstat_def Let_def)
  with assms(1) show ?thesis by (auto simp: fs_storage_read_def absolute_def Let_def simp del: reject_symlinks.simps)
qed

lemma root_gpg_id: "gpg_id_path_in None = RelPath ''.gpg-id''" "segments (RelPath ''.gpg-id'') = [''.gpg-id'']"
  by code_simp+

section \<open>Property\<close>


section \<open>Examples\<close>

definition demo_proc :: "str \<Rightarrow> str list \<Rightarrow> str + cmd_out \<times> str" where
  "demo_proc prog args =
     (if args = [''--list-keys'', ''--'', ''K9''] then Inr (\<lparr>co_success = False, co_stdout = [], co_stderr = []\<rparr>, ''2'')
      else Inr (\<lparr>co_success = True, co_stdout = prog @ '' 2'' @ [NL], co_stderr = []\<rparr>, ''0''))"

definition demo_doctor :: "fs_world doctor_env" where
  "demo_doctor = \<lparr>dr_output = demo_proc,
     dr_process = \<lparr>pv_var_os = (\<lambda>_. None), pv_home = Some ''/home/me'', pv_exe = Inr ''/bin/bypass''\<rparr>,
     dr_git = \<lparr>ag_upstream = (\<lambda>_. Inl []), ag_diff = (\<lambda>_. Inl []), ag_ls_files = (\<lambda>_. Inl [])\<rparr>,
     dr_file = (\<lambda>_ _. Inl NotFound), dr_link_dir = (\<lambda>_ _. Inr False), dr_link_read = (\<lambda>_ _. Inr (''K1'' @ [NL])), dr_io = (\<lambda>_. []), dr_audit_error = (\<lambda>_. [])\<rparr>"

definition healthy :: "str \<Rightarrow> fs_world" where
  "healthy key = demo_world [([], Dir), ([''.gpg-id''], File (key @ [NL])), ([''.gitattributes''], File (''*.gpg binary'' @ [NL]))]"

lemma demo_verdicts:
  "snd (doctor_run demo_doctor (healthy ''K1'')) = 0" "snd (doctor_run demo_doctor (healthy ''K9'')) = 1"
  "fst (doctor_run demo_doctor (healthy ''K9'')) ! 4 = ''recipients      [fail]  not in keyring: K9''"
  by code_simp+

text \<open>A \<open>.gitattributes\<close> that is not UTF-8 satisfies the doctor, but not the store.\<close>

lemma doctor_and_store_differ:
  "list_ex attribute_line (lines (from_utf8_lossy (CHR 0xFF # NL # ''*.gpg binary'')))"
  "\<not> has_gpg_binary_rule (CHR 0xFF # NL # ''*.gpg binary'')"
  by code_simp+

text \<open>A \<open>.gpg-id\<close> that is a symbolic link satisfies the doctor, but the storage refuses it.\<close>

definition linked :: fs_world where
  "linked = demo_world [([], Dir), ([''.gpg-id''], Link ''/etc/keys''), ([''.gitattributes''], File (''*.gpg binary'' @ [NL]))]"

lemma doctor_accepts_link:
  "snd (doctor_run demo_doctor linked) = 0"
  "resolve_recipients (fs_storage_read linked) (RelPath ''web'') = Inl (GpgIdStorage (SymlinkInStore [''.gpg-id'']))"
  by code_simp+


end
