(* ===== verification/Clipboard.thy ===== *)
theory Clipboard
  imports Extensions Cli_Commands
begin

text \<open>
  The clipboard of \<open>show -c\<close> and \<open>generate -c\<close> (\<open>bypass-cli/src/clipboard.rs\<close>): the foreground process
  that starts a detached helper and hands it the password, and the helper, one call of the clipboard at a
  time, with the user free to copy something else between any two of its calls.  Every call can fail.
\<close>

section \<open>The foreground process\<close>

datatype clip_error =
    NoSystemClipboard str
  | ClipLocateSelf str
  | SpawnHelper str str
  | WriteToHelper str
  | ReadHelperInput str
  | EmptyClipPassword
  | ClipNotUtf8
  | BuildRuntime str
  | OpenClipboard
  | WriteClipboard
  | InstallHandler

definition DAEMON_SUBCOMMAND :: str where "DAEMON_SUBCOMMAND = ''__clipboard-set''"

text \<open>Opening the clipboard to see whether there is one, starting the helper, and writing to its input.\<close>

record 'w clip_system =
  cx_probe :: "str + unit"
  cx_spawn :: "str \<Rightarrow> str list \<Rightarrow> ('w, str, unit) eff"
  cx_feed :: "bytes \<Rightarrow> ('w, str, unit) eff"

definition on_helper :: "(str \<Rightarrow> clip_error) \<Rightarrow> ('w, str, unit) eff \<Rightarrow> ('w \<times> out_event list, clip_error, unit) eff" where
  "on_helper err f s = (case f (fst s) of (r, w) \<Rightarrow> (map_err err r, (w, snd s)))"

text \<open>The helper is told the delay in its arguments, and the terminal is told it when the password has been handed over.\<close>

definition copy_and_auto_clear ::
  "'w clip_system \<Rightarrow> process_env \<Rightarrow> bytes \<Rightarrow> nat \<Rightarrow> ('w \<times> out_event list, clip_error, unit) eff" where
  "copy_and_auto_clear X E password seconds s =
     then_eff (map_err NoSystemClipboard (cx_probe X), s) (\<lambda>_ s.
     then_eff (map_err ClipLocateSelf (pv_exe E), s) (\<lambda>exe s.
     then_eff (on_helper (SpawnHelper exe) (cx_spawn X exe [DAEMON_SUBCOMMAND, show_nat seconds]) s) (\<lambda>_ s.
     then_eff (on_helper WriteToHelper (cx_feed X password) s) (\<lambda>_ s.
       (Inr (), emit (Stderr (clip_message seconds)) s)))))"

text \<open>What a command sees of it: the terminal is told just when all went well, and nothing is printed otherwise.\<close>

lemma copy_tells_terminal:
  assumes "copy_and_auto_clear X E password seconds (w, out) = (r, (w', out'))"
  shows "out' = out @ (case r of Inl _ \<Rightarrow> [] | Inr _ \<Rightarrow> [Stderr (clip_message seconds)])"
  using assms by (auto simp: copy_and_auto_clear_def on_helper_def then_eff_def split: sum.splits prod.splits)

section \<open>The helper\<close>

text \<open>What it does before it touches the clipboard.\<close>

definition helper_password :: "str + bytes \<Rightarrow> str + unit \<Rightarrow> clip_error + str" where
  "helper_password stdin runtime =
     and_then (map_err ReadHelperInput stdin) (\<lambda>buf.
     if buf = [] then Inl EmptyClipPassword
     else (case from_utf8 buf of
         None \<Rightarrow> Inl ClipNotUtf8
       | Some password \<Rightarrow> and_then (map_err BuildRuntime runtime) (\<lambda>_. Inr password)))"

text \<open>The clipboard holds nothing, a text, or something that is not text, for which \<open>get_text\<close> fails.\<close>

datatype board = Empty | Text str | NonText

definition get_text :: "bool \<Rightarrow> board \<Rightarrow> str option" where
  "get_text fault b = (if fault then None else case b of Text t \<Rightarrow> Some t | _ \<Rightarrow> None)"

text \<open>
  Where the helper is: before its clipboard is open, before the snapshot, before the password is set,
  waiting with the guard in place, leaving (by the timer, a signal, or because a handler could not be
  installed: the guard runs on every way out), about to put the former text back, at its end.
\<close>

datatype helper =
    Starting
  | Opened
  | Snapped "str option"
  | Waiting "str option"
  | Leaving "str option" "clip_error option"
  | Putting "str option" "clip_error option"
  | Ended "clip_error option"

record clip_state =
  cl_board :: board
  cl_helper :: helper

text \<open>One call each, with whether it failed; the end of the wait; and what somebody else copies.\<close>

datatype clip_event =
    OpenBoard bool
  | Snapshot bool
  | SetPassword bool
  | Handlers                 \<comment> \<open>installing the handler of \<open>SIGTERM\<close> failed\<close>
  | WaitOver                 \<comment> \<open>the timer, \<open>SIGINT\<close> or \<open>SIGTERM\<close>\<close>
  | GuardCheck bool
  | GuardPut bool
  | Copied board

definition put_back :: "str option \<Rightarrow> board" where
  "put_back previous = (case previous of Some prev \<Rightarrow> Text prev | None \<Rightarrow> Empty)"

definition clip_next :: "str \<Rightarrow> clip_event \<Rightarrow> clip_state \<Rightarrow> clip_state option" where
  "clip_next password ev st =
     (case (ev, cl_helper st) of
        (Copied c, _) \<Rightarrow> Some (st\<lparr>cl_board := c\<rparr>)
      | (OpenBoard fault, Starting) \<Rightarrow> Some (st\<lparr>cl_helper := (if fault then Ended (Some OpenClipboard) else Opened)\<rparr>)
      | (Snapshot fault, Opened) \<Rightarrow> Some (st\<lparr>cl_helper := Snapped (get_text fault (cl_board st))\<rparr>)
      | (SetPassword fault, Snapped previous) \<Rightarrow>
          Some (if fault then st\<lparr>cl_helper := Ended (Some WriteClipboard)\<rparr>
                else st\<lparr>cl_board := Text password, cl_helper := Waiting previous\<rparr>)
      | (Handlers, Waiting previous) \<Rightarrow> Some (st\<lparr>cl_helper := Leaving previous (Some InstallHandler)\<rparr>)
      | (WaitOver, Waiting previous) \<Rightarrow> Some (st\<lparr>cl_helper := Leaving previous None\<rparr>)
      | (GuardCheck fault, Leaving previous r) \<Rightarrow>
          (let still_ours = (get_text fault (cl_board st) = Some password) in
           Some (st\<lparr>cl_helper := (if still_ours then Putting previous r else Ended r)\<rparr>))
      | (GuardPut fault, Putting previous r) \<Rightarrow>
          Some (if fault then st\<lparr>cl_helper := Ended r\<rparr> else st\<lparr>cl_board := put_back previous, cl_helper := Ended r\<rparr>)
      | _ \<Rightarrow> None)"

fun clip_run :: "str \<Rightarrow> clip_event list \<Rightarrow> clip_state \<Rightarrow> clip_state option" where
  "clip_run password [] st = Some st"
| "clip_run password (ev # evs) st =
     (case clip_next password ev st of None \<Rightarrow> None | Some st' \<Rightarrow> clip_run password evs st')"

definition clip_start :: "board \<Rightarrow> clip_state" where
  "clip_start b = \<lparr>cl_board = b, cl_helper = Starting\<rparr>"

section \<open>Lemmas\<close>

lemma clip_run_append: "clip_run pw (xs @ ys) st = (case clip_run pw xs st of None \<Rightarrow> None | Some st' \<Rightarrow> clip_run pw ys st')"
  by (induction xs arbitrary: st) (auto split: option.split)

fun is_fault :: "clip_event \<Rightarrow> bool" where
  "is_fault (OpenBoard f) = f"
| "is_fault (Snapshot f) = f"
| "is_fault (SetPassword f) = f"
| "is_fault Handlers = True"
| "is_fault (GuardCheck f) = f"
| "is_fault (GuardPut f) = f"
| "is_fault _ = False"

fun is_copy :: "clip_event \<Rightarrow> bool" where
  "is_copy (Copied _) = True"
| "is_copy _ = False"

definition text_of :: "board \<Rightarrow> str option" where
  "text_of b = (case b of Text t \<Rightarrow> Some t | _ \<Rightarrow> None)"

text \<open>A step by a call of the helper, as a relation between where it was and where it is.\<close>

lemma clip_next_cases:
  assumes "clip_next pw ev st = Some st'"
  obtains c where "ev = Copied c" "st' = st\<lparr>cl_board := c\<rparr>"
  | f where "ev = OpenBoard f" "cl_helper st = Starting" "st' = st\<lparr>cl_helper := (if f then Ended (Some OpenClipboard) else Opened)\<rparr>"
  | f where "ev = Snapshot f" "cl_helper st = Opened" "st' = st\<lparr>cl_helper := Snapped (get_text f (cl_board st))\<rparr>"
  | p where "ev = SetPassword True" "cl_helper st = Snapped p" "st' = st\<lparr>cl_helper := Ended (Some WriteClipboard)\<rparr>"
  | p where "ev = SetPassword False" "cl_helper st = Snapped p" "st' = st\<lparr>cl_board := Text pw, cl_helper := Waiting p\<rparr>"
  | p where "ev = Handlers" "cl_helper st = Waiting p" "st' = st\<lparr>cl_helper := Leaving p (Some InstallHandler)\<rparr>"
  | p where "ev = WaitOver" "cl_helper st = Waiting p" "st' = st\<lparr>cl_helper := Leaving p None\<rparr>"
  | f p r where "ev = GuardCheck f" "cl_helper st = Leaving p r" "get_text f (cl_board st) = Some pw" "st' = st\<lparr>cl_helper := Putting p r\<rparr>"
  | f p r where "ev = GuardCheck f" "cl_helper st = Leaving p r" "get_text f (cl_board st) \<noteq> Some pw" "st' = st\<lparr>cl_helper := Ended r\<rparr>"
  | p r where "ev = GuardPut True" "cl_helper st = Putting p r" "st' = st\<lparr>cl_helper := Ended r\<rparr>"
  | p r where "ev = GuardPut False" "cl_helper st = Putting p r" "st' = st\<lparr>cl_board := put_back p, cl_helper := Ended r\<rparr>"
  using assms by (auto simp: clip_next_def Let_def split: clip_event.splits helper.splits if_splits)

text \<open>Alone, the helper gives back the text it found.\<close>

definition alone_inv :: "str \<Rightarrow> board \<Rightarrow> clip_state \<Rightarrow> bool" where
  "alone_inv pw b st \<longleftrightarrow>
     (case cl_helper st of
        Starting \<Rightarrow> cl_board st = b
      | Opened \<Rightarrow> cl_board st = b
      | Snapped p \<Rightarrow> cl_board st = b \<and> p = text_of b
      | Waiting p \<Rightarrow> cl_board st = Text pw \<and> p = text_of b
      | Leaving p r \<Rightarrow> cl_board st = Text pw \<and> p = text_of b \<and> r = None
      | Putting p r \<Rightarrow> cl_board st = Text pw \<and> p = text_of b \<and> r = None
      | Ended r \<Rightarrow> cl_board st = put_back (text_of b) \<and> r = None)"

lemma alone_step: "alone_inv pw b st \<Longrightarrow> clip_next pw ev st = Some st' \<Longrightarrow> \<not> is_fault ev \<Longrightarrow> \<not> is_copy ev \<Longrightarrow> alone_inv pw b st'"
  by (erule clip_next_cases) (auto simp: alone_inv_def get_text_def text_of_def)

text \<open>Without a failure the password does not stay, unless it was there before or somebody copied it.\<close>

definition gone_inv :: "str \<Rightarrow> clip_state \<Rightarrow> bool" where
  "gone_inv pw st \<longleftrightarrow>
     (case cl_helper st of
        Starting \<Rightarrow> cl_board st \<noteq> Text pw
      | Opened \<Rightarrow> cl_board st \<noteq> Text pw
      | Snapped p \<Rightarrow> cl_board st \<noteq> Text pw \<and> p \<noteq> Some pw
      | Waiting p \<Rightarrow> p \<noteq> Some pw
      | Leaving p r \<Rightarrow> p \<noteq> Some pw
      | Putting p r \<Rightarrow> p \<noteq> Some pw
      | Ended r \<Rightarrow> cl_board st \<noteq> Text pw)"

lemma gone_step: "gone_inv pw st \<Longrightarrow> clip_next pw ev st = Some st' \<Longrightarrow> \<not> is_fault ev \<Longrightarrow> ev \<noteq> Copied (Text pw) \<Longrightarrow> gone_inv pw st'"
  by (erule clip_next_cases)
    (auto simp: gone_inv_def get_text_def put_back_def split: board.splits helper.splits option.splits)

text \<open>What somebody copies while the helper waits stays.\<close>

definition guarded :: "helper \<Rightarrow> bool" where
  "guarded h = (case h of Waiting _ \<Rightarrow> True | Leaving _ _ \<Rightarrow> True | Ended _ \<Rightarrow> True | _ \<Rightarrow> False)"

lemma kept_step:
  "clip_next pw ev st = Some st' \<Longrightarrow> cl_board st = c \<Longrightarrow> c \<noteq> Text pw \<Longrightarrow> guarded (cl_helper st) \<Longrightarrow> \<not> is_copy ev \<Longrightarrow>
     cl_board st' = c \<and> guarded (cl_helper st')"
  by (erule clip_next_cases) (auto simp: guarded_def get_text_def split: board.splits if_splits)

lemma kept_run:
  "clip_run pw evs st = Some st' \<Longrightarrow> cl_board st = c \<Longrightarrow> c \<noteq> Text pw \<Longrightarrow> guarded (cl_helper st) \<Longrightarrow> list_all (\<lambda>e. \<not> is_copy e) evs \<Longrightarrow>
     cl_board st' = c"
proof (induction evs arbitrary: st)
  case (Cons ev evs)
  then obtain st1 where "clip_next pw ev st = Some st1" "clip_run pw evs st1 = Some st'" by (auto split: option.splits)
  with Cons.IH [of st1] Cons.prems(2-) kept_step [of pw ev st st1 c] show ?case by auto
qed simp

lemma run_keeps:
  assumes "\<And>st ev st'. I st \<Longrightarrow> clip_next pw ev st = Some st' \<Longrightarrow> P ev \<Longrightarrow> I st'"
  shows "clip_run pw evs st = Some st' \<Longrightarrow> I st \<Longrightarrow> list_all P evs \<Longrightarrow> I st'"
proof (induction evs arbitrary: st)
  case (Cons ev evs)
  then obtain st1 where "clip_next pw ev st = Some st1" "clip_run pw evs st1 = Some st'" by (auto split: option.splits)
  with Cons.IH [of st1] Cons.prems(2-) assms [of st ev st1] show ?case by auto
qed simp

text \<open>The helper makes at most six calls, and can make the next one until it has ended.\<close>

fun calls_left :: "helper \<Rightarrow> nat" where
  "calls_left Starting = 6"
| "calls_left Opened = 5"
| "calls_left (Snapped _) = 4"
| "calls_left (Waiting _) = 3"
| "calls_left (Leaving _ _) = 2"
| "calls_left (Putting _ _) = 1"
| "calls_left (Ended _) = 0"

lemma calls_step: "clip_next pw ev st = Some st' \<Longrightarrow>
  calls_left (cl_helper st') + (if is_copy ev then 0 else 1) \<le> calls_left (cl_helper st)"
  by (erule clip_next_cases) auto

lemma calls_run: "clip_run pw evs st = Some st' \<Longrightarrow>
  length (filter (\<lambda>e. \<not> is_copy e) evs) + calls_left (cl_helper st') \<le> calls_left (cl_helper st)"
proof (induction evs arbitrary: st)
  case (Cons ev evs)
  then obtain st1 where "clip_next pw ev st = Some st1" "clip_run pw evs st1 = Some st'" by (auto split: option.splits)
  with Cons.IH [of st1] calls_step [of pw ev st st1] show ?case by auto
qed simp

lemma can_go_on: "calls_left (cl_helper st) \<noteq> 0 \<Longrightarrow> \<exists>ev st'. \<not> is_copy ev \<and> clip_next pw ev st = Some st'"
  by (cases "cl_helper st") (force simp: clip_next_def Let_def intro: exI [of _ "OpenBoard True"] exI [of _ "Snapshot True"]
      exI [of _ "SetPassword True"] exI [of _ WaitOver] exI [of _ "GuardCheck True"] exI [of _ "GuardPut True"])+

section \<open>Property\<close>

text \<open>C37. The clipboard is given back: in every interleaving of the helper with what the user copies, when the helper
  has ended: alone and without a failing call it has restored the text it found (nothing, where there was no
  text); what the user copied while it waited, when it was not the password, is still there; the
  password is gone unless a call failed, it was there before, or the user copied it; the helper makes
  at most six calls.\<close>

theorem clipboard_given_back:
  assumes "clip_run pw evs (clip_start b) = Some st" "cl_helper st = Ended r"
  shows "(list_all (\<lambda>e. \<not> is_fault e \<and> \<not> is_copy e) evs \<longrightarrow> cl_board st = put_back (text_of b) \<and> r = None) \<and>
    (\<forall>before c after st0. evs = before @ Copied c # after \<longrightarrow> list_all (\<lambda>e. \<not> is_copy e) after \<longrightarrow> c \<noteq> Text pw \<longrightarrow>
       clip_run pw before (clip_start b) = Some st0 \<longrightarrow> guarded (cl_helper st0) \<longrightarrow> cl_board st = c) \<and>
    (cl_board st = Text pw \<longrightarrow> list_ex is_fault evs \<or> Copied (Text pw) \<in> set evs \<or> b = Text pw) \<and>
    length (filter (\<lambda>e. \<not> is_copy e) evs) \<le> 6"
proof (intro conjI impI allI)
  assume "list_all (\<lambda>e. \<not> is_fault e \<and> \<not> is_copy e) evs"
  with run_keeps [of "alone_inv pw b" pw "\<lambda>e. \<not> is_fault e \<and> \<not> is_copy e", OF _ assms(1)] alone_step
  have "alone_inv pw b st" by (simp add: alone_inv_def clip_start_def)
  then show "cl_board st = put_back (text_of b)" "r = None" using assms(2) by (simp_all add: alone_inv_def)
next
  fix before c after st0
  assume h: "evs = before @ Copied c # after" "list_all (\<lambda>e. \<not> is_copy e) after" "c \<noteq> Text pw"
    "clip_run pw before (clip_start b) = Some st0" "guarded (cl_helper st0)"
  have "clip_run pw after (st0\<lparr>cl_board := c\<rparr>) = Some st"
    using assms(1) h(1,4) by (simp add: clip_run_append clip_next_def)
  then show "cl_board st = c" using kept_run h(2,3,5) by simp
next
  assume pw: "cl_board st = Text pw"
  show "list_ex is_fault evs \<or> Copied (Text pw) \<in> set evs \<or> b = Text pw"
  proof (rule ccontr)
    assume n: "\<not> (list_ex is_fault evs \<or> Copied (Text pw) \<in> set evs \<or> b = Text pw)"
    then have "list_all (\<lambda>e. \<not> is_fault e \<and> e \<noteq> Copied (Text pw)) evs" by (auto simp: list_all_iff list_ex_iff)
    with n run_keeps [of "gone_inv pw" pw "\<lambda>e. \<not> is_fault e \<and> e \<noteq> Copied (Text pw)", OF _ assms(1)] gone_step
    have "gone_inv pw st" by (simp add: gone_inv_def clip_start_def)
    then show False using assms(2) pw by (simp add: gone_inv_def)
  qed
next
  show "length (filter (\<lambda>e. \<not> is_copy e) evs) \<le> 6" using calls_run [OF assms(1)] by (simp add: clip_start_def)
qed

text \<open>Something copied between the look and the restoring is lost, and so is an image from before.\<close>

lemma copied_too_late:
  "clip_run ''pw'' [OpenBoard False, Snapshot False, SetPassword False, WaitOver, GuardCheck False, Copied (Text ''mine''), GuardPut False]
     (clip_start (Text ''old'')) = Some \<lparr>cl_board = Text ''old'', cl_helper = Ended None\<rparr>"
  "clip_run ''pw'' [OpenBoard False, Snapshot False, SetPassword False, WaitOver, GuardCheck False, GuardPut False]
     (clip_start NonText) = Some \<lparr>cl_board = Empty, cl_helper = Ended None\<rparr>"
  by code_simp+

text \<open>The helper refuses a password that is empty or not text, after the foreground process has reported success.\<close>

lemma helper_refuses: "helper_password (Inr []) rt = Inl EmptyClipPassword" "helper_password (Inr [CHR 0xFF]) rt = Inl ClipNotUtf8"
proof -
  have "from_utf8 [CHR 0xFF] = None" by code_simp
  then show "helper_password (Inr []) rt = Inl EmptyClipPassword" "helper_password (Inr [CHR 0xFF]) rt = Inl ClipNotUtf8"
    by (simp_all add: helper_password_def)
qed

theorem clipboard_given_back_witness:
  "the (clip_run ''pw'' [OpenBoard False, Snapshot False, SetPassword False, Copied (Text ''mine''), WaitOver, GuardCheck False]
     (clip_start (Text ''old''))) = \<lparr>cl_board = Text ''mine'', cl_helper = Ended None\<rparr>"
proof -
  let ?b = "[OpenBoard False, Snapshot False, SetPassword False]" and ?a = "[WaitOver, GuardCheck False]"
  have r: "clip_run ''pw'' (?b @ Copied (Text ''mine'') # ?a) (clip_start (Text ''old'')) =
      Some \<lparr>cl_board = cl_board (the (clip_run ''pw'' (?b @ Copied (Text ''mine'') # ?a) (clip_start (Text ''old'')))), cl_helper = Ended None\<rparr>"
    "clip_run ''pw'' ?b (clip_start (Text ''old'')) = Some \<lparr>cl_board = Text ''pw'', cl_helper = Waiting (Some ''old'')\<rparr>"
    by code_simp+
  from clipboard_given_back [OF r(1) clip_state.select_convs(2)]
  have "cl_board (the (clip_run ''pw'' (?b @ Copied (Text ''mine'') # ?a) (clip_start (Text ''old'')))) = Text ''mine''"
    using r(2) by (fastforce simp: guarded_def)
  with r(1) show ?thesis by simp
qed

end
