(* ===== verification/Gpg_Cli.thy ===== *)
theory Gpg_Cli
  imports Bulk_Writes
begin

text \<open>
  The crypto backend of the command line (\<open>bypass-cli/src/crypto_gpg.rs\<close>): the argument vectors handed to
  \<open>gpg\<close>, one process per call, and what becomes of its exit.  A process is a parameter: from the world, the
  program, its arguments and its standard input to how it ended.
\<close>

section \<open>Processes\<close>

record command =
  co_program :: str
  co_args :: "str list"

datatype child =
    CannotSpawn str
  | StdinBroken str
  | CannotWait str
  | Exited "int option" bytes bytes   \<comment> \<open>exit code (none: a signal), standard output, standard error\<close>

type_synonym 'w spawn = "'w \<Rightarrow> command \<Rightarrow> bytes \<Rightarrow> child \<times> 'w"

datatype gpg_error =
    GpgSpawn str str
  | GpgStdin str
  | GpgWait str
  | GpgNonZero int str

section \<open>The backend\<close>

record gpg_config =
  g_binary :: bytes
  g_homedir :: "str option"

definition gpg_default :: gpg_config where
  "gpg_default = \<lparr>g_binary = ''gpg'', g_homedir = None\<rparr>"

definition with_homedir :: "str \<Rightarrow> gpg_config \<Rightarrow> gpg_config" where
  "with_homedir h g = g\<lparr>g_homedir := Some h\<rparr>"

definition arg :: "str \<Rightarrow> command \<Rightarrow> command" where
  "arg a c = c\<lparr>co_args := co_args c @ [a]\<rparr>"

definition base_command :: "gpg_config \<Rightarrow> command" where
  "base_command g =
     (let cmd = \<lparr>co_program = g_binary g, co_args = []\<rparr>;
          cmd = (case g_homedir g of None \<Rightarrow> cmd | Some home \<Rightarrow> arg home (arg ''--homedir'' cmd)) in
      arg ''--yes'' (arg ''--quiet'' (arg ''--no-tty'' (arg ''--batch'' cmd))))"

definition binary_for_error :: "gpg_config \<Rightarrow> str" where
  "binary_for_error g = from_utf8_lossy (g_binary g)"

definition encrypt_stream_command :: "gpg_config \<Rightarrow> str \<Rightarrow> command" where
  "encrypt_stream_command g recipient =
     arg recipient (arg ''--recipient'' (arg ''--encrypt'' (arg ''-'' (arg ''--output''
       (arg ''always'' (arg ''--trust-model'' (base_command g)))))))"

definition decrypt_stream_command :: "gpg_config \<Rightarrow> command" where
  "decrypt_stream_command g = arg ''--decrypt'' (arg ''-'' (arg ''--output'' (base_command g)))"

definition run_gpg :: "'w spawn \<Rightarrow> gpg_config \<Rightarrow> command \<Rightarrow> bytes \<Rightarrow> ('w, gpg_error, bytes) eff" where
  "run_gpg P g cmd stdin_data w =
     (case P w cmd stdin_data of
        (CannotSpawn e, w) \<Rightarrow> (Inl (GpgSpawn (binary_for_error g) e), w)
      | (StdinBroken e, w) \<Rightarrow> (Inl (GpgStdin e), w)
      | (CannotWait e, w) \<Rightarrow> (Inl (GpgWait e), w)
      | (Exited code out err, w) \<Rightarrow>
          if code \<noteq> Some 0 then (Inl (GpgNonZero (unwrap_or (-1) code) (from_utf8_lossy err)), w)
          else (Inr out, w))"

text \<open>The end of a streaming child: the output was pumped by the caller.\<close>

definition finish_streaming :: "bytes \<Rightarrow> str + int option \<Rightarrow> gpg_error + unit" where
  "finish_streaming stderr_buf waited =
     and_then (map_err GpgWait waited) (\<lambda>code.
       if code \<noteq> Some 0 then Inl (GpgNonZero (unwrap_or (-1) code) (from_utf8_lossy stderr_buf)) else Inr ())"

fun with_recipients :: "keyid list \<Rightarrow> command \<Rightarrow> command" where
  "with_recipients [] cmd = cmd"
| "with_recipients (r # rs) cmd = with_recipients rs (arg (keyid_str r) (arg ''--recipient'' cmd))"

definition encrypt_command :: "gpg_config \<Rightarrow> keyid list \<Rightarrow> command" where
  "encrypt_command g recipients =
     with_recipients recipients
       (arg ''--encrypt'' (arg ''-'' (arg ''--output'' (arg ''always'' (arg ''--trust-model'' (base_command g))))))"

definition decrypt_command :: "gpg_config \<Rightarrow> command" where
  "decrypt_command g = arg ''--decrypt'' (arg ''-'' (arg ''--output'' (base_command g)))"

definition gpg_cli :: "'w spawn \<Rightarrow> gpg_config \<Rightarrow> ('w, gpg_error) crypto_impl" where
  "gpg_cli P g = \<lparr>cr_encrypt = (\<lambda>pt rs. run_gpg P g (encrypt_command g rs) pt),
     cr_decrypt = (\<lambda>w ct. fst (run_gpg P g (decrypt_command g) ct w))\<rparr>"

section \<open>What gpg reads\<close>

text \<open>
  How \<open>gpg\<close> takes an argument vector apart: an option with a value takes the next argument, whatever it
  is; anything else that does not begin with a dash is a file.
\<close>

datatype gpg_arg = Option str | Value str str | File_Arg str | Missing str

definition takes_value :: "str \<Rightarrow> bool" where
  "takes_value a \<longleftrightarrow> a \<in> {''--homedir'', ''--trust-model'', ''--output'', ''--recipient''}"

fun read_args :: "str list \<Rightarrow> gpg_arg list" where
  "read_args [] = []"
| "read_args (a # rest) =
     (if takes_value a then (case rest of [] \<Rightarrow> [Missing a] | v # r \<Rightarrow> Value a v # read_args r)
      else if prefix ''-'' a then Option a # read_args rest
      else File_Arg a # read_args rest)"

definition value_of :: "str \<Rightarrow> gpg_arg list \<Rightarrow> str list" where
  "value_of o' as = List.map_filter (\<lambda>a. case a of Value k v \<Rightarrow> (if k = o' then Some v else None) | _ \<Rightarrow> None) as"

definition fully_read :: "gpg_arg list \<Rightarrow> bool" where
  "fully_read as \<longleftrightarrow> list_all (\<lambda>a. case a of File_Arg _ \<Rightarrow> False | Missing _ \<Rightarrow> False | _ \<Rightarrow> True) as"

text \<open>A request to encrypt standard input to standard output for some keys, and one to decrypt.\<close>

definition asks_encrypt :: "str option \<Rightarrow> str list \<Rightarrow> str list \<Rightarrow> bool" where
  "asks_encrypt home keys args \<longleftrightarrow>
     (let as = read_args args in
      fully_read as \<and> Option ''--encrypt'' \<in> set as \<and> Option ''--decrypt'' \<notin> set as \<and> Option ''--batch'' \<in> set as \<and>
      value_of ''--output'' as = [''-''] \<and> value_of ''--recipient'' as = keys \<and>
      value_of ''--trust-model'' as = [''always''] \<and> value_of ''--homedir'' as = (case home of None \<Rightarrow> [] | Some h \<Rightarrow> [h]))"

definition asks_decrypt :: "str option \<Rightarrow> str list \<Rightarrow> bool" where
  "asks_decrypt home args \<longleftrightarrow>
     (let as = read_args args in
      fully_read as \<and> Option ''--decrypt'' \<in> set as \<and> Option ''--encrypt'' \<notin> set as \<and> Option ''--batch'' \<in> set as \<and>
      value_of ''--output'' as = [''-''] \<and> value_of ''--homedir'' as = (case home of None \<Rightarrow> [] | Some h \<Rightarrow> [h]))"

text \<open>The documented behaviour: what an encryption for some keys prints is decrypted again in every world
  whose key ring, the one of the same home directory, can read it.\<close>

definition gpg_documented :: "'w spawn \<Rightarrow> str \<Rightarrow> str option \<Rightarrow> ('w \<Rightarrow> str list \<Rightarrow> bool) \<Rightarrow> bool" where
  "gpg_documented P binary home can_read \<longleftrightarrow>
     (\<forall>w args pt ct err w1 keys w2 args'.
        P w \<lparr>co_program = binary, co_args = args\<rparr> pt = (Exited (Some 0) ct err, w1) \<longrightarrow> asks_encrypt home keys args \<longrightarrow>
        can_read w2 keys \<longrightarrow> asks_decrypt home args' \<longrightarrow>
        (\<exists>err' w3. P w2 \<lparr>co_program = binary, co_args = args'\<rparr> ct = (Exited (Some 0) pt err', w3)))"

section \<open>Lemmas\<close>

lemma read_args_app: "read_args xs = as \<Longrightarrow> fully_read as \<Longrightarrow> read_args (xs @ ys) = as @ read_args ys"
proof (induction xs arbitrary: as rule: read_args.induct)
  case (2 a rest)
  show ?case
  proof (cases rest)
    case Nil
    then show ?thesis using "2.prems" by (auto simp: fully_read_def split: if_splits)
  next
    case (Cons v r)
    then show ?thesis using 2 by (auto simp: fully_read_def split: if_splits)
  qed
qed simp

lemma value_of_simps [simp]:
  "value_of k [] = []" "value_of k (as @ bs) = value_of k as @ value_of k bs"
  "value_of k (Value k' v # as) = (if k' = k then v # value_of k as else value_of k as)"
  "value_of k (Option x # as) = value_of k as"
  by (simp_all add: value_of_def map_filter_def)

lemma with_recipients_args:
  "co_args (with_recipients rs c) = co_args c @ concat (map (\<lambda>r. [''--recipient'', keyid_str r]) rs) \<and>
   co_program (with_recipients rs c) = co_program c"
  by (induction rs c rule: with_recipients.induct) (simp_all add: arg_def)

lemma read_recipients:
  "read_args (concat (map (\<lambda>r. [''--recipient'', keyid_str r]) rs)) = map (\<lambda>r. Value ''--recipient'' (keyid_str r)) rs"
  by (induction rs) (simp_all add: takes_value_def)

definition base_args :: "gpg_config \<Rightarrow> str list" where
  "base_args g = (case g_homedir g of None \<Rightarrow> [] | Some h \<Rightarrow> [''--homedir'', h]) @ [''--batch'', ''--no-tty'', ''--quiet'', ''--yes'']"

lemma base_command_eq: "base_command g = \<lparr>co_program = g_binary g, co_args = base_args g\<rparr>"
  by (simp add: base_command_def base_args_def arg_def Let_def split: option.split)

lemma encrypt_command_eq:
  "encrypt_command g rs = \<lparr>co_program = g_binary g, co_args = base_args g @ [''--trust-model'', ''always'', ''--output'', ''-'', ''--encrypt'']
     @ concat (map (\<lambda>r. [''--recipient'', keyid_str r]) rs)\<rparr>"
  by (rule command.equality) (simp_all add: encrypt_command_def with_recipients_args base_command_eq arg_def)

lemma decrypt_command_eq:
  "decrypt_command g = \<lparr>co_program = g_binary g, co_args = base_args g @ [''--output'', ''-'', ''--decrypt'']\<rparr>"
  by (simp add: decrypt_command_def base_command_eq arg_def)

lemma recipients_values:
  "value_of k (map (\<lambda>r. Value ''--recipient'' (keyid_str r)) rs) = (if k = ''--recipient'' then map keyid_str rs else [])"
  by (induction rs) auto

lemma read_head:
  "read_args (base_args g @ [''--trust-model'', ''always'', ''--output'', ''-'', ''--encrypt'']) =
     (case g_homedir g of None \<Rightarrow> [] | Some h \<Rightarrow> [Value ''--homedir'' h]) @
     [Option ''--batch'', Option ''--no-tty'', Option ''--quiet'', Option ''--yes'', Value ''--trust-model'' ''always'',
      Value ''--output'' ''-'', Option ''--encrypt'']"
  by (simp add: base_args_def takes_value_def split: option.split)

lemma encrypt_asks: "asks_encrypt (g_homedir g) (map keyid_str rs) (co_args (encrypt_command g rs))"
proof -
  let ?t = "map (\<lambda>r. Value ''--recipient'' (keyid_str r)) rs"
  have h: "fully_read (read_args (base_args g @ [''--trust-model'', ''always'', ''--output'', ''-'', ''--encrypt'']))"
    unfolding read_head by (simp add: fully_read_def split: option.split)
  have r: "read_args (co_args (encrypt_command g rs)) =
      read_args (base_args g @ [''--trust-model'', ''always'', ''--output'', ''-'', ''--encrypt'']) @ ?t"
    by (simp only: encrypt_command_eq command.select_convs append_assoc [symmetric] read_args_app [OF refl h] read_recipients)
  have t: "fully_read ?t" "\<And>x. Option x \<notin> set ?t" by (auto simp: fully_read_def list_all_iff)
  let ?as = "(case g_homedir g of None \<Rightarrow> [] | Some h \<Rightarrow> [Value ''--homedir'' h]) @
     [Option ''--batch'', Option ''--no-tty'', Option ''--quiet'', Option ''--yes'', Value ''--trust-model'' ''always'',
      Value ''--output'' ''-'', Option ''--encrypt''] @ ?t"
  have as: "read_args (co_args (encrypt_command g rs)) = ?as" unfolding r read_head by simp
  have "fully_read ?as" using t(1) by (simp add: fully_read_def split: option.split)
  moreover have "Option ''--encrypt'' \<in> set ?as" "Option ''--batch'' \<in> set ?as" by simp_all
  moreover have "Option ''--decrypt'' \<notin> set ?as" using t(2) by (simp split: option.split)
  moreover have "value_of ''--output'' ?as = [''-'']" "value_of ''--trust-model'' ?as = [''always'']" "value_of ''--recipient'' ?as = map keyid_str rs"
    "value_of ''--homedir'' ?as = (case g_homedir g of None \<Rightarrow> [] | Some h \<Rightarrow> [h])"
    by (simp_all add: recipients_values split: option.split)
  ultimately show ?thesis unfolding asks_encrypt_def Let_def as by blast
qed

lemma decrypt_asks: "asks_decrypt (g_homedir g) (co_args (decrypt_command g))"
  by (auto simp: decrypt_command_eq asks_decrypt_def Let_def base_args_def fully_read_def takes_value_def split: option.split)

lemma run_gpg_Inr: "run_gpg P g cmd b w = (Inr out, w') \<longleftrightarrow> (\<exists>err. P w cmd b = (Exited (Some 0) out err, w'))"
  by (auto simp: run_gpg_def split: prod.splits child.splits)

lemma gpg_cli_sound:
  assumes "gpg_documented P (g_binary g) (g_homedir g) can_read"
  shows "crypto_sound (gpg_cli P g) (\<lambda>w rs. can_read w (map keyid_str rs))"
proof -
  have "cr_decrypt (gpg_cli P g) w2 ct = Inr pt"
    if h: "cr_encrypt (gpg_cli P g) pt rs w = (Inr ct, w1)" "can_read w2 (map keyid_str rs)" for pt rs w ct w1 w2
  proof -
    obtain err where e: "P w (encrypt_command g rs) pt = (Exited (Some 0) ct err, w1)"
      using h(1) by (auto simp: gpg_cli_def run_gpg_Inr)
    have "encrypt_command g rs = \<lparr>co_program = g_binary g, co_args = co_args (encrypt_command g rs)\<rparr>"
      "decrypt_command g = \<lparr>co_program = g_binary g, co_args = co_args (decrypt_command g)\<rparr>"
      by (simp_all add: encrypt_command_eq decrypt_command_eq)
    then obtain err' w3 where "P w2 (decrypt_command g) ct = (Exited (Some 0) pt err', w3)"
      using assms e h(2) encrypt_asks decrypt_asks unfolding gpg_documented_def by metis
    then show ?thesis by (simp add: gpg_cli_def run_gpg_def)
  qed
  then show ?thesis by (simp add: crypto_sound_def)
qed

section \<open>Property\<close>

text \<open>Running processes leaves the store alone.\<close>

definition spawn_quiet :: "'z fs_world_scheme spawn \<Rightarrow> bool" where
  "spawn_quiet P \<longleftrightarrow> (\<forall>w cmd b r w'. fs_ok w \<longrightarrow> P w cmd b = (r, w') \<longrightarrow> fs_ok w' \<and> blobs w' = blobs w)"

lemma gpg_cli_quiet: "spawn_quiet P \<Longrightarrow> crypto_quiet blobs fs_ok (gpg_cli P g)"
  by (fastforce simp: spawn_quiet_def crypto_quiet_def quiet_def gpg_cli_def run_gpg_def split: prod.splits child.splits if_splits)

text \<open>C3. The store over \<open>gpg\<close>: when \<open>insert\<close> succeeds with the command-line backend, the plaintext went to the
  standard input of one process, whose argument vector \<open>gpg\<close> reads as a request to encrypt to standard
  output for exactly the keys the entry's path resolves to, with the configured home directory and with no
  argument taken for a file; what that process printed is the blob of the entry, and no other blob
  changed; a \<open>gpg\<close> that behaves as documented, with a key ring that can read those keys, gives \<open>show\<close> the
  plaintext back.\<close>

theorem gpg_entry_roundtrip:
  fixes st :: "('z fs_world_scheme, gpg_error, fs_error, 've) store"
  assumes "crypto st = gpg_cli P g" "storage st = storage_fs" "spawn_quiet P" "vcs_quiet blobs fs_ok (vcs st)"
    and "store_insert st e pt ow w = (Inr (), w')" "fs_ok w" "entry_ok e"
  shows "\<exists>rs args ct err w1. resolve_for st e w = Inr rs \<and>
    P w \<lparr>co_program = g_binary g, co_args = args\<rparr> pt = (Exited (Some 0) ct err, w1) \<and>
    asks_encrypt (g_homedir g) (map keyid_str rs) args \<and>
    blobs w' = (blobs w)(entry_to_blob e \<mapsto> ct) \<and>
    (\<forall>can_read r. gpg_documented P (g_binary g) (g_homedir g) can_read \<longrightarrow> can_read w' (map keyid_str rs) \<longrightarrow>
       st_read storage_fs w' (entry_to_blob e) = Inr r \<longrightarrow> store_show st e w' = Inr pt)"
proof -
  have lw: "lawful storage_fs blobs fs_ok st"
    using assms(1-4) by (simp add: lawful_def gpg_cli_quiet)
  from eff_postD [OF fs.insert_post [OF lw assms(6,7)] assms(5)]
  obtain rs ct w1 where i: "fs_ok w'" "resolve_for st e w = Inr rs" "cr_encrypt (crypto st) pt rs w = (Inr ct, w1)"
      "blobs w' = (blobs w)(entry_to_blob e \<mapsto> ct)" by blast
  obtain err where p: "P w (encrypt_command g rs) pt = (Exited (Some 0) ct err, w1)"
    using i(3) by (auto simp: assms(1) gpg_cli_def run_gpg_Inr)
  have c: "encrypt_command g rs = \<lparr>co_program = g_binary g, co_args = co_args (encrypt_command g rs)\<rparr>"
    by (simp add: encrypt_command_eq)
  have "store_show st e w' = Inr pt"
    if h: "gpg_documented P (g_binary g) (g_homedir g) can_read" "can_read w' (map keyid_str rs)"
      "st_read storage_fs w' (entry_to_blob e) = Inr r" for can_read r
    using inserted_shows [OF lw gpg_cli_sound [OF h(1), folded assms(1)] assms(6,7,5)] h(2,3) i(2) assms(2) by simp
  then show ?thesis using i(2,4) p encrypt_asks c by metis
qed

section \<open>Example\<close>

definition demo_gpg :: "fs_world spawn" where
  "demo_gpg w cmd b =
     (if Option ''--decrypt'' \<in> set (read_args (co_args cmd)) then (Exited (Some 0) (tl b) [], w)
      else (Exited (Some 0) (CHR ''!'' # b) [], w))"

definition gpg_store :: "(fs_world, gpg_error, fs_error, unit) store" where
  "gpg_store = \<lparr>crypto = gpg_cli demo_gpg gpg_default, storage = storage_fs, vcs = no_vcs\<rparr>"

lemma demo_gpg_documented: "gpg_documented demo_gpg b h (\<lambda>_ _. True)"
  by (auto simp: gpg_documented_def demo_gpg_def asks_encrypt_def asks_decrypt_def Let_def)

lemma gpg_store_simps [simp]:
  "crypto gpg_store = gpg_cli demo_gpg gpg_default" "storage gpg_store = storage_fs" "vcs gpg_store = no_vcs"
  by (simp_all add: gpg_store_def)

lemma demo_gpg_encrypts: "cr_encrypt (gpg_cli demo_gpg gpg_default) pt rs w = (Inr (CHR ''!'' # pt), w)"
proof -
  have "Option ''--decrypt'' \<notin> set (read_args (co_args (encrypt_command gpg_default rs)))"
    using encrypt_asks [of gpg_default rs] by (simp add: asks_encrypt_def Let_def)
  then show ?thesis by (simp add: gpg_cli_def run_gpg_def demo_gpg_def)
qed

lemma demo_gpg_insert:
  "fst (store_insert gpg_store (RelPath ''a'') ''pw'' False target) = Inr ()"
  "st_read storage_fs (snd (store_insert gpg_store (RelPath ''a'') ''pw'' False target)) (RelPath ''a.gpg'') = Inr (Some ''!pw'')"
proof -
  have t: "tree target = [([], Dir), ([''.gpg-id''], File (''K2'' @ [NL]))]" "no_stat target = (\<lambda>_. False)" "no_read target = (\<lambda>_. False)"
    "faults target = (\<lambda>_. None)" "tick target = 0" "pid target = 7" "nanos target = (\<lambda>n. n)"
    by (simp_all add: target_def demo_world_def)
  have p: "entry_to_blob (RelPath ''a'') = RelPath ''a.gpg''" "segments (RelPath ''a.gpg'') = [''a.gpg'']"
    "resolve_for gpg_store (RelPath ''a'') target = Inr [KeyId ''K2'']" "tmp_name ''a.gpg'' 7 0 = ''a.gpg.tmp.7.0''"
    by code_simp+
  show "fst (store_insert gpg_store (RelPath ''a'') ''pw'' False target) = Inr ()"
    "st_read storage_fs (snd (store_insert gpg_store (RelPath ''a'') ''pw'' False target)) (RelPath ''a.gpg'') = Inr (Some ''!pw'')"
    by (simp_all add: store_insert_def exists_unless_def p t demo_gpg_encrypts fs_storage_remove_def fs_run no_vcs_def cong: run_weak)
qed

theorem gpg_entry_roundtrip_witness:
  "store_show gpg_store (RelPath ''a'') (snd (store_insert gpg_store (RelPath ''a'') ''pw'' False target)) = Inr ''pw''"
proof -
  have q: "spawn_quiet demo_gpg" "vcs_quiet blobs fs_ok (vcs gpg_store)"
    by (auto simp: spawn_quiet_def demo_gpg_def vcs_quiet_def quiet_def no_vcs_def split: if_splits)
  have ok: "fs_ok target" "entry_ok (RelPath ''a'')" "entry_to_blob (RelPath ''a'') = RelPath ''a.gpg''"
    unfolding entry_ok_def by code_simp+
  from gpg_entry_roundtrip [OF gpg_store_simps(1,2) q run_eq [OF demo_gpg_insert(1)] ok(1,2)] demo_gpg_documented demo_gpg_insert(2) ok(3)
  show ?thesis by auto
qed

end
