(* ===== verification/Git2_Vcs.thy ===== *)
theory Git2_Vcs
  imports Storage_Fs_Laws
begin

text \<open>
  The version-control backend of the CLI (\<open>bypass-cli/src/vcs_git2.rs\<close>).  The repository is reached
  through \<open>libgit2\<close>, whose calls are the fields of \<open>git2_lib\<close> (an index handle is \<open>'i\<close>, a commit handle
  \<open>'c\<close>, an object id \<open>'oid\<close>); what the module asks of the file system runs on \<open>fs_world\<close>.
\<close>

section \<open>The library\<close>

datatype repo_state =
    Clean | Merge | Revert | RevertSequence | CherryPick | CherryPickSequence | Bisect
  | Rebase | RebaseInteractive | RebaseMerge | ApplyMailbox | ApplyMailboxOrRebase

datatype head_error = UnbornBranch str | HeadOther str

definition head_error_str :: "head_error \<Rightarrow> str" where
  "head_error_str e = (case e of UnbornBranch s \<Rightarrow> s | HeadOther s \<Rightarrow> s)"

record ('w, 'i, 'oid, 'c) git2_lib =
  gl_init :: "('w, str, unit) eff"
  gl_open :: "'w \<Rightarrow> str + unit"
  gl_state :: "'w \<Rightarrow> repo_state"
  gl_index :: "'w \<Rightarrow> str + 'i"
  gl_add_path :: "'w \<Rightarrow> str \<Rightarrow> 'i \<Rightarrow> (str + unit) \<times> 'i"
  gl_remove_path :: "str \<Rightarrow> 'i \<Rightarrow> (str + unit) \<times> 'i"
  gl_write_tree :: "'i \<Rightarrow> ('w, str, 'oid) eff"
  gl_index_write :: "'i \<Rightarrow> ('w, str, unit) eff"
  gl_find_tree :: "'w \<Rightarrow> 'oid \<Rightarrow> str + unit"
  gl_head :: "'w \<Rightarrow> head_error + unit"
  gl_peel_head :: "'w \<Rightarrow> str + 'c"
  gl_tree_id :: "'c \<Rightarrow> 'oid"
  gl_config :: "'w \<Rightarrow> str + (str \<Rightarrow> str + str)"
  gl_signature_now :: "'w \<Rightarrow> str \<Rightarrow> str \<Rightarrow> str + (str \<times> str)"
  gl_commit :: "str \<times> str \<Rightarrow> str \<Rightarrow> 'oid \<Rightarrow> 'c list \<Rightarrow> ('w, str, unit) eff"
  gl_revwalk :: "'w \<Rightarrow> str + unit"
  gl_push_head :: "'w \<Rightarrow> str + unit"
  gl_set_sorting :: "'w \<Rightarrow> str + unit"
  gl_walk :: "'w \<Rightarrow> (str + 'oid) list"
  gl_find_commit :: "'w \<Rightarrow> 'oid \<Rightarrow> str + 'c"
  gl_commit_info :: "'c \<Rightarrow> str \<times> str option \<times> str option \<times> int"  \<comment> \<open>id, summary, author name, time\<close>
  gl_tree :: "'w \<Rightarrow> 'c \<Rightarrow> str + 'oid"
  gl_parents :: "'c \<Rightarrow> nat"
  gl_parent :: "'w \<Rightarrow> 'c \<Rightarrow> nat \<Rightarrow> str + 'c"
  gl_diff :: "'w \<Rightarrow> 'oid option \<Rightarrow> 'oid \<Rightarrow> str + (str option \<times> str option) list"  \<comment> \<open>old and new path of each delta\<close>

datatype git2_error = Git2Err str | Git2Io path io_kind | DirtyTree str

section \<open>Operations\<close>

definition git2_is_initialized :: "'z fs_world_scheme \<Rightarrow> git2_error + bool" where
  "git2_is_initialized w = Inr (path_exists w [''.git''])"

definition unfinished_state :: "repo_state \<Rightarrow> str option" where
  "unfinished_state s =
     (case s of
        Clean \<Rightarrow> None
      | Merge \<Rightarrow> Some ''merge''
      | Revert \<Rightarrow> Some ''revert'' | RevertSequence \<Rightarrow> Some ''revert''
      | CherryPick \<Rightarrow> Some ''cherry-pick'' | CherryPickSequence \<Rightarrow> Some ''cherry-pick''
      | Bisect \<Rightarrow> Some ''bisect''
      | Rebase \<Rightarrow> Some ''rebase'' | RebaseInteractive \<Rightarrow> Some ''rebase'' | RebaseMerge \<Rightarrow> Some ''rebase''
      | ApplyMailbox \<Rightarrow> Some ''am'' | ApplyMailboxOrRebase \<Rightarrow> Some ''am'')"

definition unfinished_state_name :: "('z fs_world_scheme, 'i, 'oid, 'c) git2_lib \<Rightarrow> 'z fs_world_scheme \<Rightarrow> git2_error + str option" where
  "unfinished_state_name L w =
     (if \<not> path_exists w [''.git''] then Inr None
      else and_then (map_err Git2Err (gl_open L w)) (\<lambda>_. Inr (unfinished_state (gl_state L w))))"

definition git2_init :: "('z fs_world_scheme, 'i, 'oid, 'c) git2_lib \<Rightarrow> ('z fs_world_scheme, git2_error, unit) eff" where
  "git2_init L w =
     then_eff (git2_is_initialized w, w) (\<lambda>initialized w.
     if initialized then (Inr (), w)
     else
       then_eff (map_err_st (Git2Io []) (create_dir_all [] w)) (\<lambda>_ w.
         map_err_st Git2Err (gl_init L w)))"

definition signature :: "('w, 'i, 'oid, 'c) git2_lib \<Rightarrow> 'w \<Rightarrow> git2_error + (str \<times> str)" where
  "signature L w =
     and_then (map_err Git2Err (gl_config L w)) (\<lambda>cfg.
       (let name = (case cfg ''user.name'' of Inr n \<Rightarrow> n | Inl _ \<Rightarrow> ''bypass'');
            email = (case cfg ''user.email'' of Inr m \<Rightarrow> m | Inl _ \<Rightarrow> ''bypass@localhost'') in
        map_err Git2Err (gl_signature_now L w name email)))"

text \<open>The staging loop: a path that exists is added, one that is gone is removed (errors ignored).\<close>

fun stage_paths ::
  "('z fs_world_scheme, 'i, 'oid, 'c) git2_lib \<Rightarrow> 'z fs_world_scheme \<Rightarrow> relpath list \<Rightarrow> 'i \<Rightarrow> git2_error + 'i" where
  "stage_paths L w [] ix = Inr ix"
| "stage_paths L w (p # ps) ix =
     (if path_exists w (segments p) then
        (case gl_add_path L w (as_str p) ix of
           (Inl e, _) \<Rightarrow> Inl (Git2Err e)
         | (Inr _, ix) \<Rightarrow> stage_paths L w ps ix)
      else stage_paths L w ps (snd (gl_remove_path L (as_str p) ix)))"

text \<open>The no-op guard: \<open>Some\<close> when the new tree is that of HEAD.\<close>

definition same_as_head :: "('w, 'i, 'oid, 'c) git2_lib \<Rightarrow> 'w \<Rightarrow> 'oid \<Rightarrow> git2_error + bool" where
  "same_as_head L w tree_id =
     (case gl_head L w of Inl _ \<Rightarrow> Inr False
      | Inr _ \<Rightarrow> and_then (map_err Git2Err (gl_peel_head L w)) (\<lambda>c. Inr (gl_tree_id L c = tree_id)))"

definition head_parents :: "('w, 'i, 'oid, 'c) git2_lib \<Rightarrow> 'w \<Rightarrow> git2_error + 'c list" where
  "head_parents L w =
     (case gl_head L w of
        Inr _ \<Rightarrow> and_then (map_err Git2Err (gl_peel_head L w)) (\<lambda>c. Inr [c])
      | Inl (UnbornBranch _) \<Rightarrow> Inr []
      | Inl e \<Rightarrow> Inl (Git2Err (head_error_str e)))"

definition git2_commit ::
  "('z fs_world_scheme, 'i, 'oid, 'c) git2_lib \<Rightarrow> relpath list \<Rightarrow> str \<Rightarrow> ('z fs_world_scheme, git2_error, unit) eff" where
  "git2_commit L paths message w =
     then_eff (if paths = [] then Inr False else git2_is_initialized w, w) (\<lambda>go w.
     if \<not> go then (Inr (), w)
     else
       then_eff (map_err Git2Err (gl_open L w), w) (\<lambda>_ w.
       case unfinished_state (gl_state L w) of Some state \<Rightarrow> (Inl (DirtyTree state), w)
       | None \<Rightarrow>
           then_eff (map_err Git2Err (gl_index L w), w) (\<lambda>ix w.
           then_eff (stage_paths L w paths ix, w) (\<lambda>ix w.
           then_eff (map_err_st Git2Err (gl_write_tree L ix w)) (\<lambda>tree_id w.
           then_eff (map_err_st Git2Err (gl_index_write L ix w)) (\<lambda>_ w.
           then_eff (map_err Git2Err (gl_find_tree L w tree_id), w) (\<lambda>_ w.
           then_eff (same_as_head L w tree_id, w) (\<lambda>same w.
           if same then (Inr (), w)
           else
             then_eff (signature L w, w) (\<lambda>sig w.
             then_eff (head_parents L w, w) (\<lambda>parents w.
               map_err_st Git2Err (gl_commit L sig message tree_id parents w)))))))))))"

definition touches_path :: "('w, 'i, 'oid, 'c) git2_lib \<Rightarrow> 'w \<Rightarrow> 'c \<Rightarrow> str \<Rightarrow> git2_error + bool" where
  "touches_path L w c needle =
     and_then (map_err Git2Err (gl_tree L w c)) (\<lambda>new_tree.
     and_then (if gl_parents L c = 0 then Inr None
               else and_then (map_err Git2Err (gl_parent L w c 0)) (\<lambda>p. map_err Git2Err (map_sum id Some (gl_tree L w p)))) (\<lambda>old_tree.
     and_then (map_err Git2Err (gl_diff L w old_tree new_tree)) (\<lambda>deltas.
       Inr (list_ex (\<lambda>(old, new). list_ex (\<lambda>p. case p of None \<Rightarrow> False
             | Some s \<Rightarrow> valid_utf8 s \<and> (s = needle \<or> prefix (needle @ ''/'') s)) [old, new]) deltas))))"

fun log_loop :: "('w, 'i, 'oid, 'c) git2_lib \<Rightarrow> 'w \<Rightarrow> str option \<Rightarrow> (str + 'oid) list \<Rightarrow> git2_error + commit list" where
  "log_loop L w needle [] = Inr []"
| "log_loop L w needle (oid # oids) =
     and_then (map_err Git2Err oid) (\<lambda>oid.
     and_then (map_err Git2Err (gl_find_commit L w oid)) (\<lambda>c.
     and_then (case needle of None \<Rightarrow> Inr True | Some n \<Rightarrow> touches_path L w c n) (\<lambda>keep.
     and_then (log_loop L w needle oids) (\<lambda>rest.
       Inr (if keep then
          (case gl_commit_info L c of (i, s, a, t) \<Rightarrow>
             \<lparr>c_id = i, c_summary = unwrap_or [] s, c_author = a, c_time_unix = t\<rparr> # rest)
        else rest)))))"

definition git2_log :: "('z fs_world_scheme, 'i, 'oid, 'c) git2_lib \<Rightarrow> 'z fs_world_scheme \<Rightarrow> relpath option \<Rightarrow> git2_error + commit list" where
  "git2_log L w path =
     and_then (git2_is_initialized w) (\<lambda>initialized.
     if \<not> initialized then Inr []
     else
       and_then (map_err Git2Err (gl_open L w)) (\<lambda>_.
       and_then (map_err Git2Err (gl_revwalk L w)) (\<lambda>_.
       case gl_push_head L w of Inl _ \<Rightarrow> Inr []
       | Inr _ \<Rightarrow>
           and_then (map_err Git2Err (gl_set_sorting L w)) (\<lambda>_.
             log_loop L w (map_option as_str path) (gl_walk L w)))))"

text \<open>\<open>impl VersionControl for Git2Vcs\<close>.\<close>

definition git2_vcs :: "('z fs_world_scheme, 'i, 'oid, 'c) git2_lib \<Rightarrow> ('z fs_world_scheme, git2_error) vcs_impl" where
  "git2_vcs L = \<lparr>vc_init = git2_init L, vc_is_initialized = git2_is_initialized, vc_commit = git2_commit L, vc_log = git2_log L\<rparr>"

section \<open>Lemmas\<close>

text \<open>What \<open>libgit2\<close> promises of an index, of the trees written from it and of HEAD.\<close>

definition git_laws ::
  "('z fs_world_scheme, 'i, 'oid, 'c) git2_lib \<Rightarrow> ('i \<Rightarrow> str \<Rightarrow> bytes option) \<Rightarrow> ('oid \<Rightarrow> str \<Rightarrow> bytes option) \<Rightarrow>
    ('z fs_world_scheme \<Rightarrow> 'oid option) \<Rightarrow> bool" where
  "git_laws L ix_shown tree_shown head_tree \<longleftrightarrow>
     (\<forall>w p ix u ix'. gl_add_path L w p ix = (Inr u, ix') \<longrightarrow> ix_shown ix' = (ix_shown ix)(p := file_bytes (node_at w (split_char SLASH p)))) \<and>
     (\<forall>p ix. ix_shown (snd (gl_remove_path L p ix)) = (ix_shown ix)(p := None)) \<and>
     (\<forall>ix w t w'. gl_write_tree L ix w = (Inr t, w') \<longrightarrow> tree_shown t = ix_shown ix) \<and>
     (\<forall>w c. gl_peel_head L w = Inr c \<longrightarrow> head_tree w = Some (gl_tree_id L c)) \<and>
     (\<forall>sig m t ps w w'. gl_commit L sig m t ps w = (Inr (), w') \<longrightarrow> head_tree w' = Some t)"

text \<open>What a path of the work tree holds for git.\<close>

definition in_worktree :: "'z fs_world_scheme \<Rightarrow> str \<Rightarrow> bytes option" where
  "in_worktree w s = (if path_exists w (split_char SLASH s) then file_bytes (node_at w (split_char SLASH s)) else None)"

lemma stage_paths_shown:
  assumes "git_laws L ix_shown tree_shown head_tree" "stage_paths L w ps ix = Inr ix'"
  shows "ix_shown ix' s = (if s \<in> as_str ` set ps then in_worktree w s else ix_shown ix s)"
  using assms(2)
proof (induction ps arbitrary: ix)
  case (Cons p ps)
  have add: "gl_add_path L w p ix = (Inr u, ix') \<Longrightarrow> ix_shown ix' = (ix_shown ix)(p := file_bytes (node_at w (split_char SLASH p)))"
    and rm: "ix_shown (snd (gl_remove_path L p ix)) = (ix_shown ix)(p := None)" for p ix u ix'
    using assms(1) unfolding git_laws_def by blast+
  obtain ix1 where 1: "stage_paths L w ps ix1 = Inr ix'" "ix_shown ix1 = (ix_shown ix)(as_str p := in_worktree w (as_str p))"
  proof (cases "path_exists w (segments p)")
    case True
    then obtain u ix1 where a: "gl_add_path L w (as_str p) ix = (Inr u, ix1)" "stage_paths L w ps ix1 = Inr ix'"
      using Cons.prems by (auto split: prod.splits sum.splits)
    moreover have "ix_shown ix1 = (ix_shown ix)(as_str p := in_worktree w (as_str p))"
      using add [OF a(1)] True by (simp only: in_worktree_def segments_def if_True)
    ultimately show ?thesis using that by blast
  next
    case False
    then have "ix_shown (snd (gl_remove_path L (as_str p) ix)) = (ix_shown ix)(as_str p := in_worktree w (as_str p))"
      using rm [of "as_str p" ix] by (simp only: in_worktree_def segments_def if_False)
    with False Cons.prems show ?thesis using that by simp
  qed
  from Cons.IH [OF 1(1)] 1(2) show ?case by auto
qed simp

lemma commit_records:
  assumes "git_laws L ix_shown tree_shown head_tree" "git2_commit L ps m w = (Inr (), w')"
    and "ps \<noteq> []" "path_exists w [''.git'']"
  shows "gl_state L w = Clean \<and> (\<exists>ix t. gl_index L w = Inr ix \<and> head_tree w' = Some t \<and>
    tree_shown t = (\<lambda>s. if s \<in> as_str ` set ps then in_worktree w s else ix_shown ix s))"
proof -
  from assms(2-4) obtain ix ix' t w1 w2 where s: "unfinished_state (gl_state L w) = None" "gl_index L w = Inr ix"
      "stage_paths L w ps ix = Inr ix'" "gl_write_tree L ix' w = (Inr t, w1)" "gl_index_write L ix' w1 = (Inr (), w2)"
    and rest: "then_eff (same_as_head L w2 t, w2) (\<lambda>same w. if same then (Inr (), w)
       else then_eff (signature L w, w) (\<lambda>sig w. then_eff (head_parents L w, w) (\<lambda>parents w.
         map_err_st Git2Err (gl_commit L sig m t parents w)))) = (Inr (), w')"
    by (auto simp: git2_commit_def git2_is_initialized_def then_eff_Inr_iff split: option.splits)
  have "tree_shown t = ix_shown ix'" using assms(1) s(4) unfolding git_laws_def by blast
  then have shown: "tree_shown t = (\<lambda>s. if s \<in> as_str ` set ps then in_worktree w s else ix_shown ix s)"
    using stage_paths_shown [OF assms(1) s(3)] by auto
  have "head_tree w' = Some t"
  proof (cases "same_as_head L w2 t = Inr True")
    case True
    then obtain c where "gl_peel_head L w2 = Inr c" "gl_tree_id L c = t"
      by (auto simp: same_as_head_def and_then_Inr_iff split: sum.splits)
    moreover have "w' = w2" using rest True by simp
    ultimately show ?thesis using assms(1) unfolding git_laws_def by blast
  next
    case False
    with rest obtain sig ps' v where "gl_commit L sig m t ps' v = (Inr (), w')"
      by (auto simp: then_eff_Inr_iff split: if_splits)
    with assms(1) show ?thesis unfolding git_laws_def by blast
  qed
  moreover have "gl_state L w = Clean"
    using s(1) by (auto simp: unfinished_state_def split: repo_state.splits)
  ultimately show ?thesis using s(2) shown by blast
qed

text \<open>The library works in \<open>.git\<close> only: it changes no blob.\<close>

definition git_quiet :: "('z fs_world_scheme, 'i, 'oid, 'c) git2_lib \<Rightarrow> bool" where
  "git_quiet L \<longleftrightarrow> quiet blobs fs_ok (gl_init L) \<and> (\<forall>ix. quiet blobs fs_ok (gl_write_tree L ix)) \<and>
     (\<forall>ix. quiet blobs fs_ok (gl_index_write L ix)) \<and> (\<forall>sig m t ps. quiet blobs fs_ok (gl_commit L sig m t ps))"

lemma quiet_eff_post:
  "quiet view ok f \<longleftrightarrow> (\<forall>w. ok w \<longrightarrow> eff_post (f w) (\<lambda>_ w'. ok w' \<and> view w' = view w) (\<lambda>_ w'. ok w' \<and> view w' = view w))"
proof
  assume "quiet view ok f"
  then show "\<forall>w. ok w \<longrightarrow> eff_post (f w) (\<lambda>_ w'. ok w' \<and> view w' = view w) (\<lambda>_ w'. ok w' \<and> view w' = view w)"
    by (auto simp: quiet_def intro!: eff_postI)
next
  assume h: "\<forall>w. ok w \<longrightarrow> eff_post (f w) (\<lambda>_ w'. ok w' \<and> view w' = view w) (\<lambda>_ w'. ok w' \<and> view w' = view w)"
  have "ok w' \<and> view w' = view w" if "ok w" "f w = (r, w')" for w r w'
  proof (cases r)
    case (Inl e)
    with that eff_postD_err [OF h [rule_format, OF that(1)]] show ?thesis by blast
  next
    case (Inr a)
    with that eff_postD [OF h [rule_format, OF that(1)]] show ?thesis by blast
  qed
  then show "quiet view ok f" unfolding quiet_def by blast
qed

lemma quiet_then:
  assumes "ok w" "view w = v0" "quiet view ok f"
    and "\<And>a w'. ok w' \<Longrightarrow> view w' = v0 \<Longrightarrow> eff_post (k a w') (\<lambda>_ w. ok w \<and> view w = v0) (\<lambda>_ w. ok w \<and> view w = v0)"
  shows "eff_post (then_eff (map_err_st g (f w)) k) (\<lambda>_ w. ok w \<and> view w = v0) (\<lambda>_ w. ok w \<and> view w = v0)"
  unfolding eff_post_then eff_post_map_err
  using assms(1,3) by (intro eff_post_mono [OF assms(3) [unfolded quiet_eff_post, rule_format, OF assms(1)]])
    (use assms(2,4) in auto)

lemma quiet_pure:
  assumes "ok w" "view w = v0"
    and "\<And>a. eff_post (k a w) (\<lambda>_ w. ok w \<and> view w = v0) (\<lambda>_ w. ok w \<and> view w = v0)"
  shows "eff_post (then_eff (r, w) k) (\<lambda>_ w. ok w \<and> view w = v0) (\<lambda>_ w. ok w \<and> view w = v0)"
  using assms by (cases r) (auto simp: eff_post_simps)

lemma git2_quiet:
  assumes "git_quiet L"
  shows "vcs_quiet blobs fs_ok (git2_vcs L)"
  unfolding vcs_quiet_def
proof (intro conjI allI)
  show "quiet blobs fs_ok (vc_init (git2_vcs L))"
    unfolding quiet_eff_post
  proof (intro allI impI)
    fix w :: "'a fs_world_scheme" assume ok: "fs_ok w"
    have c: "quiet blobs fs_ok (create_dir_all [] :: ('a fs_world_scheme, io_kind, unit) eff)"
      unfolding quiet_eff_post
      by (intro allI impI eff_post_mono [OF create_dir_all_post]) (auto simp: grown_blobs grown_def)
    have i: "quiet blobs fs_ok (gl_init L)" using assms by (simp add: git_quiet_def)
    show "eff_post (vc_init (git2_vcs L) w) (\<lambda>_ w'. fs_ok w' \<and> blobs w' = blobs w) (\<lambda>_ w'. fs_ok w' \<and> blobs w' = blobs w)"
      unfolding git2_vcs_def vcs_impl.simps git2_init_def git2_is_initialized_def
      using ok i [unfolded quiet_eff_post]
      by (auto simp: eff_post_simps eff_post_map_err intro!: quiet_then [where ok = fs_ok and view = blobs, OF ok refl c] eff_post_mono [OF i [unfolded quiet_eff_post, rule_format]])
  qed
next
  fix ps m
  show "quiet blobs fs_ok (vc_commit (git2_vcs L) ps m)"
    unfolding quiet_eff_post
  proof (intro allI impI)
    fix w :: "'a fs_world_scheme" assume ok: "fs_ok w"
    have q: "quiet blobs fs_ok (gl_write_tree L ix)" "quiet blobs fs_ok (gl_index_write L ix)" "quiet blobs fs_ok (gl_commit L sig m t qs)"
      for ix sig t qs using assms unfolding git_quiet_def by blast+
    have last: "eff_post (map_err_st Git2Err (gl_commit L sig m t qs v)) (\<lambda>_ w'. fs_ok w' \<and> blobs w' = blobs w) (\<lambda>_ w'. fs_ok w' \<and> blobs w' = blobs w)"
      if "fs_ok v" "blobs v = blobs w" for sig t qs v
      unfolding eff_post_map_err
      by (rule eff_post_mono [OF q(3) [unfolded quiet_eff_post, rule_format, OF that(1)]]) (use that in simp_all)
    show "eff_post (vc_commit (git2_vcs L) ps m w) (\<lambda>_ w'. fs_ok w' \<and> blobs w' = blobs w) (\<lambda>_ w'. fs_ok w' \<and> blobs w' = blobs w)"
      unfolding git2_vcs_def vcs_impl.simps git2_commit_def
      by (rule quiet_pure [where ok = fs_ok and view = blobs, OF ok refl])
        (auto simp: eff_post_simps ok split: option.split intro!: quiet_pure [where ok = fs_ok and view = blobs] quiet_then [where ok = fs_ok and view = blobs, OF _ _ q(1)] quiet_then [where ok = fs_ok and view = blobs, OF _ _ q(2)] last)
  qed
qed

section \<open>Properties\<close>

text \<open>C38. A commit records the work tree: when committing some paths of an initialised repository reports
  success, the repository was in no unfinished operation, and HEAD's tree holds for each of these paths
  what the work tree holds (nothing, if it is gone) and for every other path what the index held; this
  is so too when the tree was that of HEAD already and no commit was made.\<close>

theorem commit_records_worktree:
  assumes "git_laws L ix_shown tree_shown head_tree" "git2_commit L ps m w = (Inr (), w')"
    and "ps \<noteq> []" "path_exists w [''.git'']"
  shows "gl_state L w = Clean \<and> (\<exists>ix t. gl_index L w = Inr ix \<and> head_tree w' = Some t \<and>
    tree_shown t = (\<lambda>s. if s \<in> as_str ` set ps then in_worktree w s else ix_shown ix s))"
  by (rule commit_records [OF assms])

text \<open>The CLI's own stack keeps the laws: a store over the file-system storage and this backend, with a
  cryptographic backend and a \<open>libgit2\<close> that touch no blob, fulfils what every property of the store
  asks of its backends, so initialising and committing never change a blob, whatever they return.\<close>

lemma cli_stack_lawful:
  assumes "crypto_quiet blobs fs_ok C" "git_quiet L"
  shows "lawful storage_fs blobs fs_ok \<lparr>crypto = C, storage = storage_fs, vcs = git2_vcs L\<rparr>"
  using assms git2_quiet [OF assms(2)] by (simp add: lawful_def)

section \<open>Examples\<close>

text \<open>A repository kept in the world: the tree of HEAD, as the list of its paths and contents.\<close>

record repo_world = fs_world +
  head_list :: "(str \<times> bytes) list option"

definition demo_git2 :: "(repo_world, (str \<times> bytes) list, (str \<times> bytes) list, (str \<times> bytes) list) git2_lib" where
  "demo_git2 = \<lparr>gl_init = (\<lambda>w. (Inr (), w)), gl_open = (\<lambda>_. Inr ()), gl_state = (\<lambda>_. Clean),
     gl_index = (\<lambda>w. Inr (unwrap_or [] (head_list w))),
     gl_add_path = (\<lambda>w p ix. case file_bytes (node_at w (split_char SLASH p)) of
         Some b \<Rightarrow> (Inr (), AList.update p b ix) | None \<Rightarrow> (Inl ''not a file'', ix)),
     gl_remove_path = (\<lambda>p ix. (Inr (), AList.delete p ix)),
     gl_write_tree = (\<lambda>ix w. (Inr ix, w)), gl_index_write = (\<lambda>ix w. (Inr (), w)), gl_find_tree = (\<lambda>_ _. Inr ()),
     gl_head = (\<lambda>w. case head_list w of None \<Rightarrow> Inl (UnbornBranch '''') | Some _ \<Rightarrow> Inr ()),
     gl_peel_head = (\<lambda>w. case head_list w of None \<Rightarrow> Inl '''' | Some t \<Rightarrow> Inr t), gl_tree_id = (\<lambda>c. c),
     gl_config = (\<lambda>_. Inr (\<lambda>_. Inl '''')), gl_signature_now = (\<lambda>_ n m. Inr (n, m)),
     gl_commit = (\<lambda>sig m t ps w. (Inr (), w\<lparr>head_list := Some t\<rparr>)),
     gl_revwalk = (\<lambda>_. Inr ()), gl_push_head = (\<lambda>_. Inr ()), gl_set_sorting = (\<lambda>_. Inr ()), gl_walk = (\<lambda>_. []),
     gl_find_commit = (\<lambda>_ t. Inr t), gl_commit_info = (\<lambda>_. ('''', None, None, 0)), gl_tree = (\<lambda>_ t. Inr t),
     gl_parents = (\<lambda>_. 0), gl_parent = (\<lambda>_ _ _. Inl ''''), gl_diff = (\<lambda>_ _ _. Inr [])\<rparr>"

lemma demo_git2_laws: "git_laws demo_git2 map_of (\<lambda>t. map_of t) head_list"
  unfolding git_laws_def
proof (intro conjI allI impI)
  fix w p ix u ix'
  assume "gl_add_path demo_git2 w p ix = (Inr u, ix')"
  then show "map_of ix' = (map_of ix)(p := file_bytes (node_at w (split_char SLASH p)))"
    by (auto simp: demo_git2_def update_conv' split: option.splits)
next
  show "map_of (snd (gl_remove_path demo_git2 p ix)) = (map_of ix)(p := None)" for p ix
    by (simp add: demo_git2_def delete_conv')
qed (auto simp: demo_git2_def split: option.splits)

lemma demo_git2_quiet: "git_quiet demo_git2"
proof -
  have "fs_ok (w\<lparr>head_list := t\<rparr>) = fs_ok w" "blobs (w\<lparr>head_list := t\<rparr>) = blobs w" for w :: repo_world and t
    by (simp_all add: fs_ok_def node_ok_def is_dir_def node_at_def blobs_def fun_eq_iff)
  then show ?thesis by (auto simp: git_quiet_def quiet_def demo_git2_def)
qed

definition demo_repo :: repo_world where
  "demo_repo = \<lparr>tree = [([], Dir), ([''.git''], Dir), ([''a.gpg''], File ''new'')], no_stat = (\<lambda>_. False), no_read = (\<lambda>_. False),
     faults = (\<lambda>_. None), tick = 0, pid = 1, nanos = (\<lambda>n. n), entropy = (\<lambda>_. CHR ''x''), drawn = 0,
     head_list = Some [(''a.gpg'', ''old''), (''b.gpg'', ''gone''), (''c.gpg'', ''kept'')]\<rparr>"

lemma demo_git2_run: "fst (git2_commit demo_git2 [RelPath ''a.gpg'', RelPath ''b.gpg''] ''m'' demo_repo) = Inr ()"
  by (simp add: git2_commit_def git2_is_initialized_def demo_git2_def demo_repo_def path_exists_def lstat_def node_at_def
      unfinished_state_def segments_def same_as_head_def signature_def head_parents_def)

theorem commit_records_worktree_witness:
  "\<exists>t. head_list (snd (git2_commit demo_git2 [RelPath ''a.gpg'', RelPath ''b.gpg''] ''m'' demo_repo)) = Some t \<and>
     map_of t ''a.gpg'' = Some ''new'' \<and> map_of t ''b.gpg'' = None \<and> map_of t ''c.gpg'' = Some ''kept''"
proof -
  have e: "path_exists demo_repo [''.git'']" "in_worktree demo_repo ''a.gpg'' = Some ''new''" "in_worktree demo_repo ''b.gpg'' = None"
    by (simp_all add: path_exists_def lstat_def node_at_def demo_repo_def in_worktree_def)
  have ix: "gl_index demo_git2 demo_repo = Inr [(''a.gpg'', ''old''), (''b.gpg'', ''gone''), (''c.gpg'', ''kept'')]"
    by (simp add: demo_git2_def demo_repo_def unwrap_or_def)
  from commit_records_worktree [OF demo_git2_laws run_eq [OF demo_git2_run] _ e(1)] ix e(2,3) show ?thesis by auto
qed

definition idle_crypto :: "(repo_world, unit) crypto_impl" where
  "idle_crypto = \<lparr>cr_encrypt = (\<lambda>pt rs w. (Inr pt, w)), cr_decrypt = (\<lambda>w ct. Inr ct)\<rparr>"

end
