(* ===== verification/Cli_Sync.thy ===== *)
theory Cli_Sync
  imports Edit Cli_Commands Git2_Vcs Leak_Audit
begin

text \<open>
  \<open>bypass sync\<close>, \<open>init\<close> and \<open>audit\<close> (\<open>bypass-cli/src/main.rs\<close>), and the registration and the body of the
  merge driver (\<open>sync/merge_driver.rs\<close>).  The store is the CLI's own stack; \<open>git\<close> as a
  process is a call that answers its exit code (none when a signal ended it); standard error is a list of
  events beside the world.
\<close>

section \<open>Processes and the stack\<close>

record ('z, 'i, 'oid, 'c, 'ce) sync_shell =
  sy_root :: str                                                         \<comment> \<open>the root, as printed\<close>
  sy_crypto :: "('z config_world_scheme, 'ce) crypto_impl"
  sy_lib :: "('z config_world_scheme, 'i, 'oid, 'c) git2_lib"
  sy_audit :: "'z config_world_scheme audit_git"
  sy_git :: "str list \<Rightarrow> ('z config_world_scheme, str, int option) eff"   \<comment> \<open>\<open>git -C <root>\<close> with these arguments\<close>
  sy_exe :: "str + str"                                                  \<comment> \<open>\<open>current_exe\<close>, as text\<close>
  sy_peers :: "str + (peers_error + peers)"                              \<comment> \<open>the default path, and what loading it gives\<close>

datatype 'ce sync_cli_error =
    UnfinishedGit str
  | SyncVcs git2_error
  | SyncStore "('ce, fs_error, git2_error) store_error"
  | SpawnGit "str list" str
  | GitFailed "str list" int
  | CurrentExe str
  | SyncAudit audit_error
  | RefusingPush nat
  | CreateRoot io_kind
  | ChmodRoot io_kind
  | AlreadyInitialised "str list"

type_synonym ('z, 'ce, 'a) sync_op =
  "'z config_world_scheme \<times> out_event list \<Rightarrow> ('ce sync_cli_error + 'a) \<times> 'z config_world_scheme \<times> out_event list"

definition cli_store :: "('z, 'i, 'oid, 'c, 'ce) sync_shell \<Rightarrow> ('z config_world_scheme, 'ce, fs_error, git2_error) store" where
  "cli_store E = \<lparr>crypto = sy_crypto E, storage = storage_fs, vcs = git2_vcs (sy_lib E)\<rparr>"

text \<open>An effect of the world in the middle of a command.\<close>

definition on_world :: "('z config_world_scheme \<Rightarrow> ('e + 'a) \<times> 'z config_world_scheme) \<Rightarrow> ('e \<Rightarrow> 'ce sync_cli_error) \<Rightarrow> ('z, 'ce, 'a) sync_op" where
  "on_world f err s = (case f (fst s) of (r, w) \<Rightarrow> (map_err err r, (w, snd s)))"

definition run_git_cmd :: "('z, 'i, 'oid, 'c, 'ce) sync_shell \<Rightarrow> str list \<Rightarrow> ('z, 'ce, unit) sync_op" where
  "run_git_cmd E args s =
     then_eff (on_world (sy_git E args) (SpawnGit args) s) (\<lambda>code s.
       if code \<noteq> Some 0 then (Inl (GitFailed args (unwrap_or (- 1) code)), s) else (Inr (), s))"

section \<open>The merge driver\<close>

definition DRIVER_NAME :: str where "DRIVER_NAME = ''bypass-take-theirs''"

definition shell_quote :: "str \<Rightarrow> str" where
  "shell_quote s = [QUOTE] @ escape_quotes s @ [QUOTE]"

definition set_config :: "('z, 'i, 'oid, 'c, 'ce) sync_shell \<Rightarrow> str \<Rightarrow> str \<Rightarrow> ('z, 'ce, unit) sync_op" where
  "set_config E key val = run_git_cmd E [''config'', key, val]"

definition register_in_git_config :: "('z, 'i, 'oid, 'c, 'ce) sync_shell \<Rightarrow> ('z, 'ce, unit) sync_op" where
  "register_in_git_config E s =
     (if \<not> path_exists (fst s) [''.git''] then (Inr (), s)
      else
        then_eff (set_config E (''merge.'' @ DRIVER_NAME @ ''.name'') ''bypass: take-theirs for opaque .gpg blobs'' s) (\<lambda>_ s.
        then_eff (map_err CurrentExe (sy_exe E), s) (\<lambda>me s.
          set_config E (''merge.'' @ DRIVER_NAME @ ''.driver'') (shell_quote me @ '' __merge-take-theirs %O %A %B %P %L'') s)))"

text \<open>\<open>fs::write\<close> truncates what is there: \<open>open\<close>, then the bytes.\<close>

definition fs_overwrite :: "path \<Rightarrow> bytes \<Rightarrow> ('z fs_world_scheme, io_kind, unit) eff" where
  "fs_overwrite p b w =
     then_eff (attempt (\<lambda>w. case node_at w p of
         Some Dir \<Rightarrow> (Inl IsADirectory, w)
       | Some (Link _) \<Rightarrow> (Inl OtherIo, w)
       | Some (File _) \<Rightarrow> (Inr (), put_node p (File []) w)
       | None \<Rightarrow> (if p = [] \<or> \<not> is_dir w (butlast p) then (Inl NotFound, w) else (Inr (), put_node p (File []) w))) w)
       (\<lambda>_ w. write_at p 0 b w)"

datatype driver_error = ReadTheirs io_kind | WriteResolved io_kind

definition take_theirs :: "path \<Rightarrow> path \<Rightarrow> path \<Rightarrow> ('z fs_world_scheme, driver_error, nat) eff" where
  "take_theirs ancestor ours theirs w =
     then_eff (map_err ReadTheirs (fs_read w theirs), w) (\<lambda>b w.
     then_eff (map_err_st WriteResolved (fs_overwrite ours b w)) (\<lambda>_ w. (Inr 0, w)))"

section \<open>Synchronising with the remote\<close>

definition attributes_message :: str where
  "attributes_message = ''bypass: install .gitattributes for binary `.gpg` files''"

definition install_gitattributes_if_missing :: "('z, 'i, 'oid, 'c, 'ce) sync_shell \<Rightarrow> ('z, 'ce, unit) sync_op" where
  "install_gitattributes_if_missing E s =
     then_eff (on_world (install_gitattributes (cli_store E)) SyncStore s) (\<lambda>changed s.
       if changed then
         then_eff (on_world (git2_commit (sy_lib E) [gitattributes_path] attributes_message) SyncVcs s) (\<lambda>_ s.
           (Inr (), emit (Stderr ''bypass: installed missing `.gitattributes` rule'') s))
       else (Inr (), s))"

definition read_worktree :: "'z fs_world_scheme \<Rightarrow> str \<Rightarrow> io_kind + bytes" where
  "read_worktree w p = fs_read w (split_char SLASH p)"

definition push_issues :: "('z, 'i, 'oid, 'c, 'ce) sync_shell \<Rightarrow> 'z config_world_scheme \<Rightarrow> 'ce sync_cli_error + leak_issue list" where
  "push_issues E w = map_err SyncAudit (audit_for_push (sy_audit E) read_worktree w)"

definition issue_line :: "leak_issue \<Rightarrow> str" where
  "issue_line i = from_utf8_lossy (li_path i) @ '': '' @ leak_describe (li_kind i) @ '' ('' @ li_detail i @ '')''"

definition audit_gate :: "('z, 'i, 'oid, 'c, 'ce) sync_shell \<Rightarrow> bool \<Rightarrow> ('z, 'ce, unit) sync_op" where
  "audit_gate E force s =
     (if force then (Inr (), s)
      else
        then_eff (push_issues E (fst s), s) (\<lambda>issues s.
          if issues \<noteq> [] then
            (Inl (RefusingPush (length issues)), fold (\<lambda>i. emit (Stderr (''bypass: '' @ issue_line i))) issues s)
          else (Inr (), s)))"

definition notice_paired_peers :: "('z, 'i, 'oid, 'c, 'ce) sync_shell \<Rightarrow> 'w \<times> out_event list \<Rightarrow> 'w \<times> out_event list" where
  "notice_paired_peers E s =
     (case sy_peers E of
        Inl _ \<Rightarrow> s
      | Inr (Inl _) \<Rightarrow> s
      | Inr (Inr peers) \<Rightarrow>
          (if peers = [] then s
           else fold (\<lambda>r. emit (Stderr (''  - '' @ pr_name r @ '' ('' @ pr_peer_id r @ '')''))) peers
             (emit (Stderr (''bypass: '' @ show_nat (length peers) @
                '' paired peer(s) on file; peer-to-peer sync activates when the daemon lands (Phase 5.2.c):'')) s)))"

text \<open>Everything before the audit.\<close>

definition sync_prepare :: "('z, 'i, 'oid, 'c, 'ce) sync_shell \<Rightarrow> ('z, 'ce, unit) sync_op" where
  "sync_prepare E s =
     then_eff (map_err SyncVcs (unfinished_state_name (sy_lib E) (fst s)), s) (\<lambda>state s.
     case state of Some name \<Rightarrow> (Inl (UnfinishedGit name), s)
     | None \<Rightarrow>
         then_eff (run_git_cmd E [''pull'', ''--rebase''] s) (\<lambda>_ s.
         then_eff (install_gitattributes_if_missing E s) (\<lambda>_ s.
           register_in_git_config E s)))"

definition cmd_sync :: "('z, 'i, 'oid, 'c, 'ce) sync_shell \<Rightarrow> bool \<Rightarrow> ('z, 'ce, nat) sync_op" where
  "cmd_sync E force s =
     then_eff (sync_prepare E s) (\<lambda>_ s.
     then_eff (audit_gate E force s) (\<lambda>_ s.
     then_eff (run_git_cmd E [''push''] s) (\<lambda>_ s.
       (Inr 0, notice_paired_peers E (emit (Stderr ''synced.'') s)))))"

definition audit_cmd :: "('z, 'i, 'oid, 'c, 'ce) sync_shell \<Rightarrow> ('z, 'ce, nat) sync_op" where
  "audit_cmd E s =
     then_eff (push_issues E (fst s), s) (\<lambda>issues s.
       if issues = [] then (Inr 0, emit (Stderr ''audit: store looks clean'') s)
       else (Inr 1, fold (\<lambda>i. println (issue_line i)) issues s))"

section \<open>Initialising\<close>

text \<open>The root exists, for the owner only.\<close>

definition init_root :: "('z, 'ce, unit) sync_op" where
  "init_root s =
     then_eff (if \<not> path_exists (fst s) [] then on_world (create_dir_all []) CreateRoot s else (Inr (), s)) (\<lambda>_ s.
       on_world (chmod [] 448) ChmodRoot s)"

definition cmd_init :: "('z, 'i, 'oid, 'c, 'ce) sync_shell \<Rightarrow> str list \<Rightarrow> bool \<Rightarrow> ('z, 'ce, nat) sync_op" where
  "cmd_init E gpg_ids force s =
     then_eff (init_root s) (\<lambda>_ s.
       if path_exists (fst s) [''.gpg-id''] \<and> \<not> force then (Inl (AlreadyInitialised gpg_ids), s)
       else
         then_eff (on_world (store_init (cli_store E) (map KeyId gpg_ids)) SyncStore s) (\<lambda>_ s.
         then_eff (register_in_git_config E s) (\<lambda>_ s.
           (Inr 0, emit (Stderr (''initialised store at '' @ sy_root E @ '' for '' @ join_with '', '' gpg_ids)) s))))"

section \<open>Properties\<close>

lemma on_world_cases:
  obtains r w where "f (fst s) = (r, w)" "on_world f err s = (map_err err r, (w, snd s))"
  by (cases "f (fst s)") (auto simp: on_world_def)

lemma fold_emit_world: "fst (fold (\<lambda>x. emit (g x)) xs s) = fst s"
  by (induction xs arbitrary: s) (auto simp: emit_def)

lemma audit_gate_world: "fst (snd (audit_gate E force s)) = fst s"
  by (cases "push_issues E (fst s)") (simp_all add: audit_gate_def fold_emit_world)

lemma audit_gate_Inr:
  assumes "audit_gate E force s = (Inr u, s')"
  shows "force \<or> push_issues E (fst s) = Inr []"
  using assms by (cases "push_issues E (fst s)") (auto simp: audit_gate_def split: if_splits)

lemma push_issues_Nil:
  assumes "push_issues E w = Inr []"
  shows "\<exists>files. files_to_audit (sy_audit E) w = Inr files \<and> (\<forall>f b. f \<in> set files \<longrightarrow> read_worktree w f = Inr b \<longrightarrow> publishable f b)"
proof -
  have "audit_for_push (sy_audit E) read_worktree w = Inr []"
    using assms by (cases "audit_for_push (sy_audit E) read_worktree w") (simp_all add: push_issues_def)
  from push_audit_exact [OF this] show ?thesis by auto
qed

lemma notice_world: "notice_paired_peers E s = (v, evs) \<Longrightarrow> v = fst s"
proof -
  have "fst (notice_paired_peers E s) = fst s"
    by (simp add: notice_paired_peers_def fold_emit_world emit_def split: sum.split)
  then show "notice_paired_peers E s = (v, evs) \<Longrightarrow> v = fst s" by simp
qed

text \<open>C20. Nothing suspicious leaves with \<open>bypass sync\<close>.  When the preparation fails (an unfinished merge or
  rebase, a failing pull, a failing commit of \<open>.gitattributes\<close> or registration of the merge driver), its
  error is returned and the command goes no further.  Otherwise either the command stops at the audit,
  leaving the world as the preparation left it, or \<open>git push\<close> ran in that world and it was forced or every
  file of the list git printed is, where it is on disk, ciphertext or recognised metadata; and the command
  succeeds only when the push did.
\<close>

theorem sync_pushes_only_audited:
  assumes "sync_prepare E (w, out) = (p, (w1, out1))" "cmd_sync E force (w, out) = (r, (w', out'))"
  shows "case p of
      Inl e \<Rightarrow> r = Inl e \<and> w' = w1
    | Inr _ \<Rightarrow>
        (w' = w1 \<and> (\<exists>e. r = Inl e) \<or>
         w' = snd (sy_git E [''push''] w1) \<and>
         (force \<or> (\<exists>files. files_to_audit (sy_audit E) w1 = Inr files \<and>
            (\<forall>f b. f \<in> set files \<longrightarrow> read_worktree w1 f = Inr b \<longrightarrow> publishable f b)))) \<and>
        (\<forall>n. r = Inr n \<longrightarrow> n = 0 \<and> fst (sy_git E [''push''] w1) = Inr (Some 0))"
proof (cases p)
  case (Inl e)
  then show ?thesis using assms by (simp add: cmd_sync_def)
next
  case (Inr u)
  obtain g s2 where gate: "audit_gate E force (w1, out1) = (g, s2)" by (cases "audit_gate E force (w1, out1)")
  then have s2: "fst s2 = w1" using audit_gate_world [of E force "(w1, out1)"] by simp
  show ?thesis
  proof (cases g)
    case (Inl e)
    then show ?thesis using assms gate s2 Inr by (cases s2) (auto simp: cmd_sync_def)
  next
    case g: (Inr v)
    obtain c w2 where push: "sy_git E [''push''] w1 = (c, w2)" by (cases "sy_git E [''push''] w1")
    have "force \<or> push_issues E w1 = Inr []" using audit_gate_Inr [of E force "(w1, out1)" v] gate g by simp
    moreover have "w' = w2 \<and> (\<forall>n. r = Inr n \<longrightarrow> n = 0 \<and> c = Inr (Some 0))"
      using assms gate g Inr push s2
      by (cases c) (auto simp: cmd_sync_def run_git_cmd_def on_world_def emit_def dest: notice_world split: if_splits)
    ultimately show ?thesis using push push_issues_Nil [of E w1] Inr by auto
  qed
qed

lemma path_exists_cong: "node_at v = node_at w \<Longrightarrow> no_stat v = no_stat w \<Longrightarrow> path_exists v p = path_exists w p"
  by (simp add: path_exists_def lstat_def blocked_def is_dir_def)

lemma chmod_world:
  "fs_ok (snd (chmod p m w)) = fs_ok w \<and> node_at (snd (chmod p m w)) = node_at w \<and> no_stat (snd (chmod p m w)) = no_stat w"
  by (simp add: chmod_def attempt_def) (simp add: tick_on_def)

lemma init_root_post:
  fixes q :: "'ce sync_cli_error + unit"
  assumes "fs_ok w" "init_root (w, out) = (q, (v, evs))"
  shows "fs_ok v \<and> blobs v = blobs w \<and> (path_exists w [''.gpg-id''] \<longrightarrow> path_exists v [''.gpg-id''])"
proof (cases "path_exists w []")
  case True
  then have "v = snd (chmod [] 448 w)" using assms(2) by (auto simp: init_root_def on_world_def split: prod.splits)
  then show ?thesis
    using assms(1) chmod_world [of "[]" 448 w] blobs_cong [of v w] path_exists_cong [of v w] by simp
next
  case False
  obtain r u where cr: "create_dir_all [] w = (r, u)" by (cases "create_dir_all [] w")
  have g: "grown w u" using create_dir_all_post [OF assms(1), of "[]"] cr by (cases r) (auto simp: eff_post_simps)
  have v: "v = u \<or> v = snd (chmod [] 448 u)"
    using assms(2) False cr by (cases r) (auto simp: init_root_def on_world_def split: prod.splits)
  have "\<not> no_stat w []" using assms(1) by (simp add: fs_ok_def)
  then have "\<not> is_dir w []" using False by (auto simp: path_exists_def lstat_def is_dir_def)
  then have "node_at w [''.gpg-id''] = None" using fs_ok_node [OF assms(1), of "[''.gpg-id'']"] by (cases "node_at w [''.gpg-id'']") (auto simp: node_ok_def)
  then have "\<not> path_exists w [''.gpg-id'']" by (simp add: path_exists_def lstat_def)
  then show ?thesis
    using v g grown_blobs [OF g] chmod_world [of "[]" 448 u] blobs_cong [of "snd (chmod [] 448 u)" u] by (auto simp: grown_def)
qed

text \<open>C10. \<open>bypass init\<close> never splits a store: on a store that has a \<open>.gpg-id\<close>, without \<open>--force\<close>, the command
  fails and no blob changes.  Whenever it succeeds, \<open>.gpg-id\<close> holds one line for each given id, in order, right after
  the store was initialised, \<open>.gitattributes\<close> (when it was text) declares \<open>*.gpg\<close> binary, and every other blob is as it was.
  The file then lists exactly the given keys to the store when every id is one a line of it can hold: not empty, UTF-8,
  without a line end, without white space at either end, and not starting with a hash sign.
\<close>

theorem init_guarded:
  fixes E :: "('z, 'i, 'oid, 'c, 'ce) sync_shell"
  assumes "lawful storage_fs blobs fs_ok (cli_store E)" "fs_ok w"
    and "cmd_init E ids force (w, out) = (r, (w', out'))"
  shows "(path_exists w [''.gpg-id''] \<and> \<not> force \<longrightarrow> (\<exists>e. r = Inl e) \<and> blobs w' = blobs w) \<and>
    (\<forall>n. r = Inr n \<longrightarrow> n = 0 \<and> (\<exists>w1 out1 out2 b. register_in_git_config E (w1, out1) = (Inr (), (w', out2)) \<and>
       blobs w1 gpg_id_path = Some b \<and> b = concat (map (\<lambda>i. i @ [NL]) ids) \<and> ids \<noteq> [] \<and>
       (list_all keyid_clean (map KeyId ids) \<longrightarrow> parse_gpg_id b = Inr (map KeyId ids)) \<and>
       (valid_utf8 (unwrap_or [] (blobs w gitattributes_path)) \<longrightarrow> has_gpg_binary_rule (unwrap_or [] (blobs w1 gitattributes_path))) \<and>
       (\<forall>q. q \<noteq> gpg_id_path \<longrightarrow> q \<noteq> gitattributes_path \<longrightarrow> blobs w1 q = blobs w q)))"
proof -
  obtain q v evs where ir: "init_root (w, out) = (q :: 'ce sync_cli_error + unit, (v, evs))" by (metis prod.exhaust)
  note root = init_root_post [OF assms(2) ir]
  show ?thesis
  proof (cases "(\<exists>e. q = Inl e) \<or> path_exists v [''.gpg-id''] \<and> \<not> force")
    case True
    then show ?thesis
    proof (cases q)
      case (Inl e)
      then show ?thesis using assms(3) ir root by (auto simp: cmd_init_def)
    next
      case (Inr u)
      with True have "r = Inl (AlreadyInitialised ids)" "w' = v" using assms(3) ir by (auto simp: cmd_init_def)
      then show ?thesis using root by simp
    qed
  next
    case False
    then have q: "q = Inr ()" and go: "\<not> (path_exists v [''.gpg-id''] \<and> \<not> force)" by (cases q; auto)+
    obtain r1 w1 where st: "store_init (cli_store E) (map KeyId ids) v = (r1, w1)" by (cases "store_init (cli_store E) (map KeyId ids) v")
    have "(\<exists>b. register_in_git_config E (w1, evs) = (Inr (), (w', b))) \<and> n = 0 \<and> r1 = Inr ()" if "r = Inr n" for n
      using assms(3) that q go st unfolding cmd_init_def ir
      by (cases r1; cases "register_in_git_config E (w1, evs)" rule: eff_exhaust) (auto simp: on_world_def emit_def)
    moreover have "(\<exists>b. blobs w1 gpg_id_path = Some b \<and> b = concat (map (\<lambda>i. i @ [NL]) ids) \<and> ids \<noteq> [] \<and>
         (list_all keyid_clean (map KeyId ids) \<longrightarrow> parse_gpg_id b = Inr (map KeyId ids))) \<and>
       (valid_utf8 (unwrap_or [] (blobs w gitattributes_path)) \<longrightarrow> has_gpg_binary_rule (unwrap_or [] (blobs w1 gitattributes_path))) \<and>
       (\<forall>q. q \<noteq> gpg_id_path \<longrightarrow> q \<noteq> gitattributes_path \<longrightarrow> blobs w1 q = blobs w q)" if "r1 = Inr ()"
    proof -
      have "gpg_id_body (map KeyId ids) = concat (map (\<lambda>i. i @ [NL]) ids)" by (simp add: gpg_id_body_def comp_def)
      then show ?thesis
        using eff_postD [OF fs.init_op_post [OF assms(1)]] root st gpg_id_roundtrip [of "map KeyId ids"] that by (metis Nil_is_map_conv)
    qed
    moreover have "path_exists w [''.gpg-id''] \<and> \<not> force \<longrightarrow> (\<exists>e. r = Inl e) \<and> blobs w' = blobs w"
      using root go by blast
    ultimately show ?thesis by metis
  qed
qed

section \<open>Examples\<close>

text \<open>A repository whose \<open>git\<close> leaves a mark for each command it ran; a note in plain text is tracked.\<close>

definition idle_lib :: "(config_world, unit, unit, unit) git2_lib" where
  "idle_lib = \<lparr>gl_init = (\<lambda>w. (Inr (), w)), gl_open = (\<lambda>_. Inr ()), gl_state = (\<lambda>_. Clean), gl_index = (\<lambda>_. Inr ()),
     gl_add_path = (\<lambda>_ _ ix. (Inr (), ix)), gl_remove_path = (\<lambda>_ ix. (Inr (), ix)), gl_write_tree = (\<lambda>_ w. (Inr (), w)),
     gl_index_write = (\<lambda>_ w. (Inr (), w)), gl_find_tree = (\<lambda>_ _. Inr ()), gl_head = (\<lambda>_. Inr ()), gl_peel_head = (\<lambda>_. Inr ()),
     gl_tree_id = (\<lambda>c. c), gl_config = (\<lambda>_. Inr (\<lambda>_. Inl [])), gl_signature_now = (\<lambda>_ n m. Inr (n, m)),
     gl_commit = (\<lambda>_ _ _ _ w. (Inr (), w)), gl_revwalk = (\<lambda>_. Inr ()), gl_push_head = (\<lambda>_. Inr ()), gl_set_sorting = (\<lambda>_. Inr ()),
     gl_walk = (\<lambda>_. []), gl_find_commit = (\<lambda>_ t. Inr t), gl_commit_info = (\<lambda>_. ([], None, None, 0)), gl_tree = (\<lambda>_ t. Inr t),
     gl_parents = (\<lambda>_. 0), gl_parent = (\<lambda>_ _ _. Inl []), gl_diff = (\<lambda>_ _ _. Inr [])\<rparr>"

definition idle_config_crypto :: "(config_world, unit) crypto_impl" where
  "idle_config_crypto = \<lparr>cr_encrypt = (\<lambda>pt rs w. (Inr pt, w)), cr_decrypt = (\<lambda>w ct. Inr ct)\<rparr>"

definition demo_listing :: "config_world audit_git" where
  "demo_listing = \<lparr>ag_upstream = (\<lambda>_. Inr \<lparr>co_success = False, co_stdout = [], co_stderr = []\<rparr>), ag_diff = (\<lambda>_. Inl ''no''),
     ag_ls_files = (\<lambda>_. Inr \<lparr>co_success = True, co_stdout = ''notes.txt'' @ [NL] @ ''.gpg-id'' @ [NL], co_stderr = []\<rparr>)\<rparr>"

definition demo_shell :: "(unit, unit, unit, unit, unit) sync_shell" where
  "demo_shell = \<lparr>sy_root = ''/store'', sy_crypto = idle_config_crypto, sy_lib = idle_lib, sy_audit = demo_listing,
     sy_git = (\<lambda>args w. (Inr (Some 0), put_node [''.git'', hd args] (File []) w)), sy_exe = Inr ''/bin/bypass'', sy_peers = Inl ''none''\<rparr>"

definition demo_synced :: config_world where
  "demo_synced = \<lparr>tree = [([], Dir), ([''.git''], Dir), ([''.gpg-id''], File (''K1'' @ [NL])), ([''.gitattributes''], File GITATTRIBUTES_RULE),
       ([''notes.txt''], File ''secret'')], no_stat = (\<lambda>_. False), no_read = (\<lambda>_. False), faults = (\<lambda>_. None),
     tick = 0, pid = 7, nanos = (\<lambda>n. n), entropy = (\<lambda>n. CHR ''x''), drawn = 0, modes = (\<lambda>_. 420)\<rparr>"

lemma demo_shell_simps [simp]:
  "sy_crypto demo_shell = idle_config_crypto" "sy_lib demo_shell = idle_lib" "sy_audit demo_shell = demo_listing"
  "sy_git demo_shell args w = (Inr (Some 0), put_node [''.git'', hd args] (File []) w)" "sy_exe demo_shell = Inr ''/bin/bypass''"
  "sy_peers demo_shell = Inl ''none''"
  by (simp_all add: demo_shell_def)

lemma demo_prepare: "fst (sync_prepare demo_shell (demo_synced, [])) = Inr ()"
  "node_at (fst (snd (sync_prepare demo_shell (demo_synced, [])))) [''.git'', ''push''] = None"
  "read_worktree (fst (snd (sync_prepare demo_shell (demo_synced, [])))) ''notes.txt'' = Inr ''secret''"
  by code_simp+

theorem sync_pushes_only_audited_witness:
  "\<exists>e w' out'. cmd_sync demo_shell False (demo_synced, []) = (Inl e, (w', out')) \<and> node_at w' [''.git'', ''push''] = None"
proof -
  obtain w1 out1 where p: "sync_prepare demo_shell (demo_synced, []) = (Inr (), (w1, out1))"
    using run_eq [OF demo_prepare(1)] by (metis prod.collapse)
  obtain r w' out' where run: "cmd_sync demo_shell False (demo_synced, []) = (r, (w', out'))" by (metis prod.exhaust)
  have "files_to_audit demo_listing w1 = Inr [''notes.txt'', ''.gpg-id'']"
    by (simp add: files_to_audit_def git_diff_against_upstream_def demo_listing_def) code_simp
  moreover have "read_worktree w1 ''notes.txt'' = Inr ''secret''" "node_at w1 [''.git'', ''push''] = None" using demo_prepare p by simp_all
  moreover have "\<not> publishable ''notes.txt'' ''secret''" by code_simp
  ultimately show ?thesis using sync_pushes_only_audited [OF p run] run by auto
qed

lemma demo_shell_lawful: "lawful storage_fs blobs fs_ok (cli_store demo_shell)"
proof -
  have "git_quiet idle_lib" by (simp add: git_quiet_def quiet_def idle_lib_def)
  from git2_quiet [OF this] show ?thesis
    by (simp add: lawful_def cli_store_def crypto_quiet_def quiet_def idle_config_crypto_def)
qed

lemma demo_init_runs: "fst (cmd_init demo_shell [''K2''] True (demo_synced, [])) = Inr 0" "fs_ok demo_synced"
  "path_exists demo_synced [''.gpg-id'']" "blobs demo_synced gpg_id_path = Some (''K1'' @ [NL])" "list_all keyid_clean [KeyId ''K2'']"
  by code_simp+

theorem init_guarded_witness:
  "(\<exists>e w' out'. cmd_init demo_shell [''K2''] False (demo_synced, []) = (Inl e, (w', out')) \<and> blobs w' gpg_id_path = Some (''K1'' @ [NL])) \<and>
   (\<exists>w' out' w1 b. cmd_init demo_shell [''K2''] True (demo_synced, []) = (Inr 0, (w', out')) \<and>
      blobs (w1 :: config_world) gpg_id_path = Some b \<and> parse_gpg_id b = Inr [KeyId ''K2''])"
proof
  have k: "list_all keyid_clean (map KeyId [''K2''])" using demo_init_runs(5) by simp
  note init = init_guarded [OF demo_shell_lawful demo_init_runs(2)]
  obtain r w' out' where run: "cmd_init demo_shell [''K2''] False (demo_synced, []) = (r, (w', out'))" by (metis prod.exhaust)
  from init [OF run] run demo_init_runs(3,4)
  show "\<exists>e w' out'. cmd_init demo_shell [''K2''] False (demo_synced, []) = (Inl e, (w', out')) \<and> blobs w' gpg_id_path = Some (''K1'' @ [NL])" by auto
  obtain v out2 where run2: "cmd_init demo_shell [''K2''] True (demo_synced, []) = (Inr 0, (v, out2))"
    using run_eq [OF demo_init_runs(1)] by (metis prod.collapse)
  from init [OF run2] run2 k
  show "\<exists>w' out' w1 b. cmd_init demo_shell [''K2''] True (demo_synced, []) = (Inr 0, (w', out')) \<and>
      blobs (w1 :: config_world) gpg_id_path = Some b \<and> parse_gpg_id b = Inr [KeyId ''K2'']" by auto
qed

text \<open>The merge driver leaves \<open>ours\<close> with exactly the bytes of \<open>theirs\<close>, when it reports success.\<close>

lemma take_theirs_takes:
  assumes "take_theirs anc ours theirs w = (Inr n, w')"
  shows "n = 0 \<and> (\<exists>b. fs_read w theirs = Inr b \<and> node_at w' = (node_at w)(ours \<mapsto> File b))"
  using assms
  by (auto simp: take_theirs_def then_eff_Inr_iff fs_overwrite_def attempt_def write_at_def overlay_def Let_def
      split: option.splits node.splits if_splits)

end
