(* ===== verification/Watcher.thy ===== *)
theory Watcher
  imports Fs_World
begin

text \<open>
  The watcher of the store (\<open>bypass-cli/src/sync/watcher.rs\<close>): the filter on file-system events and the
  pump that turns bursts of them into ticks for the daemon.  Absolute paths are lists of components;
  the channel to the daemon has room for one tick.  The pump is a step relation: raw events, the timer
  (enabled once the deadline has passed, and possibly late) and the daemon reading a tick, in any order.
\<close>

section \<open>The filter\<close>

datatype event_kind = KindAny | KindAccess | KindCreate | KindModify | KindRemove | KindOther

record notify_event =
  ev_kind :: event_kind
  ev_paths :: "path list"

definition GIT_INTERNAL :: str where "GIT_INTERNAL = ''.git''"

definition path_is_inside_git_dir :: "path \<Rightarrow> path \<Rightarrow> bool" where
  "path_is_inside_git_dir p root =
     (if \<not> prefix root p then True
      else (case drop (length root) p of [] \<Rightarrow> False | c # _ \<Rightarrow> c = GIT_INTERNAL))"

definition event_is_relevant :: "notify_event \<Rightarrow> path \<Rightarrow> bool" where
  "event_is_relevant event root =
     (if ev_kind event \<notin> {KindCreate, KindModify, KindRemove} then False
      else list_ex (\<lambda>p. \<not> path_is_inside_git_dir p root) (ev_paths event))"

section \<open>The pump\<close>

text \<open>Milliseconds.\<close>

definition DEBOUNCE :: nat where "DEBOUNCE = 500"

record pump =
  pm_pending :: bool
  pm_deadline :: "nat option"
  pm_tick :: bool      \<comment> \<open>the debounced channel holds a tick\<close>
  pm_ended :: bool

definition pump_start :: pump where
  "pump_start = \<lparr>pm_pending = False, pm_deadline = None, pm_tick = False, pm_ended = False\<rparr>"

datatype watch_input = Raw "str + notify_event" | RawClosed | TimerFired | Drained

definition pump_event :: "path \<Rightarrow> nat \<Rightarrow> str + notify_event \<Rightarrow> pump \<Rightarrow> pump" where
  "pump_event root now ev st =
     (case ev of
        Inr event \<Rightarrow>
          (if event_is_relevant event root then st\<lparr>pm_pending := True, pm_deadline := Some (now + DEBOUNCE)\<rparr> else st)
      | Inl _ \<Rightarrow> st)"

text \<open>\<open>try_send\<close>: with a tick in the channel already, the second one is dropped.\<close>

definition pump_timer :: "pump \<Rightarrow> pump" where
  "pump_timer st = (if pm_pending st then st\<lparr>pm_tick := True, pm_pending := False\<rparr> else st)\<lparr>pm_deadline := None\<rparr>"

inductive watch_step :: "path \<Rightarrow> pump \<Rightarrow> nat \<Rightarrow> watch_input \<Rightarrow> pump \<Rightarrow> bool" for root where
  raw: "\<not> pm_ended st \<Longrightarrow> watch_step root st now (Raw ev) (pump_event root now ev st)"
| closed: "\<not> pm_ended st \<Longrightarrow> watch_step root st now RawClosed (st\<lparr>pm_ended := True\<rparr>)"
| timer: "\<not> pm_ended st \<Longrightarrow> pm_deadline st = Some d \<Longrightarrow> d \<le> now \<Longrightarrow> watch_step root st now TimerFired (pump_timer st)"
| drain: "pm_tick st \<Longrightarrow> watch_step root st now Drained (st\<lparr>pm_tick := False\<rparr>)"

inductive_cases watch_step_cases: "watch_step root st now i st'"

inductive_simps watch_step_simps [simp]:
  "watch_step root st now (Raw ev) st'" "watch_step root st now RawClosed st'"
  "watch_step root st now TimerFired st'" "watch_step root st now Drained st'"

inductive watched :: "path \<Rightarrow> (nat \<times> watch_input) list \<Rightarrow> pump \<Rightarrow> bool" for root where
  start: "watched root [] pump_start"
| step: "watched root es st \<Longrightarrow> watch_step root st now i st' \<Longrightarrow> watched root (es @ [(now, i)]) st'"

section \<open>What a run has seen\<close>

definition change_times :: "path \<Rightarrow> nat \<times> watch_input \<Rightarrow> nat list" where
  "change_times root x = (case x of (t, Raw (Inr ev)) \<Rightarrow> (if event_is_relevant ev root then [t] else []) | _ \<Rightarrow> [])"

definition changes :: "path \<Rightarrow> (nat \<times> watch_input) list \<Rightarrow> nat list" where
  "changes root es = concat (map (change_times root) es)"

text \<open>The changes since the daemon last read a tick.\<close>

definition unread :: "path \<Rightarrow> (nat \<times> watch_input) list \<Rightarrow> nat list" where
  "unread root es = changes root (takeWhile (\<lambda>x. snd x \<noteq> Drained) (rev es))"

definition reads :: "(nat \<times> watch_input) list \<Rightarrow> nat" where
  "reads es = length (filter (\<lambda>x. snd x = Drained) es)"

text \<open>Bursts: changes less than the debounce window apart belong together.\<close>

fun bursts :: "nat list \<Rightarrow> nat" where
  "bursts [] = 0"
| "bursts [t] = 1"
| "bursts (s # t # ts) = of_bool (s + DEBOUNCE \<le> t) + bursts (t # ts)"

lemma bursts_snoc: "bursts (ts @ [t]) = (if ts = [] then 1 else bursts ts + of_bool (last ts + DEBOUNCE \<le> t))"
  by (induction ts rule: bursts.induct) simp_all

lemma run_snoc [simp]:
  "changes root (es @ [x]) = changes root es @ change_times root x"
  "unread root (es @ [x]) = (if snd x = Drained then [] else change_times root x @ unread root es)"
  "reads (es @ [x]) = reads es + of_bool (snd x = Drained)"
  by (simp_all add: changes_def unread_def reads_def)

lemma change_times_simps [simp]:
  "change_times root (t, Raw (Inr ev)) = (if event_is_relevant ev root then [t] else [])" "change_times root (t, Raw (Inl e)) = []"
  "change_times root (t, RawClosed) = []" "change_times root (t, TimerFired) = []" "change_times root (t, Drained) = []"
  by (simp_all add: change_times_def)

text \<open>The pump's state is what the run calls for: the deadline belongs to the last change, and a window that
  has closed is behind every later event.\<close>

definition in_step :: "path \<Rightarrow> (nat \<times> watch_input) list \<Rightarrow> pump \<Rightarrow> bool" where
  "in_step root es st \<longleftrightarrow>
     (unread root es \<noteq> [] \<longrightarrow> pm_pending st \<or> pm_tick st) \<and>
     (pm_pending st \<longrightarrow> changes root es \<noteq> []) \<and>
     pm_deadline st = (if pm_pending st then Some (last (changes root es) + DEBOUNCE) else None) \<and>
     (changes root es \<noteq> [] \<and> \<not> pm_pending st \<longrightarrow> es \<noteq> [] \<and> last (changes root es) + DEBOUNCE \<le> fst (last es)) \<and>
     reads es + of_bool (pm_tick st) + of_bool (pm_pending st) \<le> bursts (changes root es)"

lemma watched_in_step:
  "watched root es st \<Longrightarrow> sorted (map fst es) \<Longrightarrow> in_step root es st"
proof (induction rule: watched.induct)
  case start
  show ?case by (simp add: in_step_def pump_start_def unread_def changes_def reads_def)
next
  case (step es st now i st')
  then have IH: "in_step root es st" by (simp add: sorted_append)
  have late: "es \<noteq> [] \<Longrightarrow> fst (last es) \<le> now" using step.prems by (auto simp: sorted_append)
  show ?case
  proof (cases i)
    case (Raw ev)
    with step.hyps have st': "st' = pump_event root now ev st" by simp
    show ?thesis
    proof (cases "\<exists>event. ev = Inr event \<and> event_is_relevant event root")
      case True
      with Raw st' IH late show ?thesis by (auto simp: in_step_def pump_event_def bursts_snoc)
    next
      case False
      then have "change_times root (now, i) = []" "st' = st" using Raw st' by (cases ev; simp add: pump_event_def)+
      with Raw IH late show ?thesis by (auto simp: in_step_def)
    qed
  next
    case TimerFired
    with step.hyps IH late show ?thesis by (auto simp: in_step_def pump_timer_def)
  qed (use step.hyps IH late in \<open>auto simp: in_step_def\<close>)
qed

lemma inside_git: "prefix (root @ [''.git'']) p \<Longrightarrow> path_is_inside_git_dir p root"
  by (auto simp: path_is_inside_git_dir_def GIT_INTERNAL_def prefix_def)

lemma git_events_irrelevant: "list_all (\<lambda>p. prefix (root @ [''.git'']) p) (ev_paths ev) \<Longrightarrow> \<not> event_is_relevant ev root"
  using inside_git by (auto simp: event_is_relevant_def list_all_iff list_ex_iff)

lemma no_changes:
  "\<forall>t ev. (t, Raw (Inr ev)) \<in> set es \<longrightarrow> list_all (\<lambda>p. prefix (root @ [''.git'']) p) (ev_paths ev) \<Longrightarrow> changes root es = []"
  using git_events_irrelevant by (auto simp: changes_def change_times_def split: watch_input.splits sum.splits)

text \<open>Changes that keep coming less than the window apart put the tick off for as long as they do.\<close>

lemma steady_changes_starve:
  "watched root es st \<Longrightarrow> sorted (map fst es) \<Longrightarrow> bursts (changes root es) = 1 \<Longrightarrow> pm_pending st \<Longrightarrow> reads es = 0 \<and> \<not> pm_tick st"
  using watched_in_step [of root es st] by (auto simp: in_step_def split: if_splits)

section \<open>Properties\<close>

text \<open>C27. The watcher loses no change and floods nobody.  In every run of the pump: if anything relevant
  changed since the daemon last read a tick, a tick is waiting or a change is pending; a pending change
  becomes a tick as soon as the store has been quiet for the debounce window (the timer is then
  enabled and puts a tick into the channel); and the daemon reads at most one tick for each burst of
  changes.  Events inside \<open>.git\<close> never count.
\<close>

theorem watcher_loses_nothing:
  assumes "watched root es st" "sorted (map fst es)"
  shows "(unread root es \<noteq> [] \<longrightarrow> pm_pending st \<or> pm_tick st) \<and>
    (pm_pending st \<and> \<not> pm_ended st \<and> last (changes root es) + DEBOUNCE \<le> now \<longrightarrow>
       (\<exists>st'. watch_step root st now TimerFired st' \<and> pm_tick st' \<and> \<not> pm_pending st')) \<and>
    reads es + of_bool (pm_tick st) \<le> bursts (changes root es) \<and>
    ((\<forall>t ev. (t, Raw (Inr ev)) \<in> set es \<longrightarrow> list_all (\<lambda>p. prefix (root @ [''.git'']) p) (ev_paths ev)) \<longrightarrow> reads es = 0 \<and> \<not> pm_tick st)"
proof -
  have inv: "in_step root es st" by (rule watched_in_step [OF assms])
  have "bursts (changes root es) = 0"
    if "\<forall>t ev. (t, Raw (Inr ev)) \<in> set es \<longrightarrow> list_all (\<lambda>p. prefix (root @ [''.git'']) p) (ev_paths ev)"
    using no_changes [OF that] by simp
  then show ?thesis using inv by (auto simp: in_step_def pump_timer_def)
qed

definition demo_change :: notify_event where
  "demo_change = \<lparr>ev_kind = KindModify, ev_paths = [[''store'', ''mail.gpg'']]\<rparr>"

definition demo_index :: notify_event where
  "demo_index = \<lparr>ev_kind = KindModify, ev_paths = [[''store'', ''.git'', ''index'']]\<rparr>"

definition demo_watch :: "(nat \<times> watch_input) list" where
  "demo_watch = [(0, Raw (Inr demo_change)), (100, Raw (Inr demo_index)), (200, Raw (Inr demo_change)), (710, TimerFired), (900, Raw (Inr demo_change))]"

lemma demo_relevant: "event_is_relevant demo_change [''store'']" "\<not> event_is_relevant demo_index [''store'']"
  by code_simp+

lemma demo_watched: "watched [''store''] demo_watch \<lparr>pm_pending = True, pm_deadline = Some 1400, pm_tick = True, pm_ended = False\<rparr>"
proof -
  note run = watched.step [where root = "[''store'']"]
  have "watched [''store''] (((((([] @ [(0, Raw (Inr demo_change))]) @ [(100, Raw (Inr demo_index))]) @ [(200, Raw (Inr demo_change))]) @ [(710, TimerFired)]) @
      [(900, Raw (Inr demo_change))])) \<lparr>pm_pending = True, pm_deadline = Some 1400, pm_tick = True, pm_ended = False\<rparr>"
    by (rule run | rule watched.start | simp add: pump_start_def pump_event_def pump_timer_def demo_relevant DEBOUNCE_def)+
  then show ?thesis by (simp add: demo_watch_def)
qed

theorem watcher_loses_nothing_witness:
  "\<exists>st. watched [''store''] demo_watch st \<and> unread [''store''] demo_watch = [900, 200, 0] \<and> pm_tick st \<and>
     (\<exists>st'. watch_step [''store''] st 1400 TimerFired st' \<and> pm_tick st') \<and> bursts (changes [''store''] demo_watch) = 2"
proof -
  have "changes [''store''] demo_watch = [0, 200, 900]" "unread [''store''] demo_watch = [900, 200, 0]" "sorted (map fst demo_watch)"
    by (simp_all add: demo_watch_def changes_def unread_def demo_relevant)
  with watcher_loses_nothing [OF demo_watched, of 1400] demo_watched show ?thesis by (auto simp: DEBOUNCE_def)
qed

end
