(* ===== verification/Swarm.thy ===== *)
theory Swarm
  imports Rust_Text "HOL-Library.AList"
begin

text \<open>
  The task that owns the libp2p swarm (\<open>bypass-cli/src/sync/libp2p_transport.rs\<close>, \<open>run_swarm\<close> and
  \<open>handle_swarm_event\<close>): commands of the program and events of the network, one at a time, over two tables
  of pending requests.  A one-shot channel is a name (\<open>'r\<close> for the sender a caller waits on, \<open>'c\<close> for the
  stream of an inbound request); what the task sends is a list of outputs.  The network library gives
  each outbound request its id \<open>'q\<close>, so the id is part of the command here.
\<close>

section \<open>Commands, events, state\<close>

datatype 'p transport_error = Libp2p str | OutboundFailure 'p str | SwarmGone

datatype ('p, 'q, 'r, 'c) swarm_input =
    CmdRequest 'p bytes 'r 'q
  | CmdSendResponse nat bytes
  | CmdDial 'p str 'r "str + unit"       \<comment> \<open>with what \<open>swarm.dial\<close> answers\<close>
  | CmdShutdown
  | NewListenAddr str
  | RrRequest 'p bytes 'c
  | RrResponse 'q bytes
  | RrOutboundFailure 'q 'p str
  | RrInboundFailure
  | RrResponseSent
  | MdnsDiscovered "('p \<times> str) list"
  | MdnsExpired "('p \<times> str) list"
  | ReceiverDropped
  | OtherEvent

datatype ('p, 'q, 'r, 'c) swarm_output =
    SendRequest 'p bytes 'q
  | SendResponse 'c bytes
  | AddPeerAddress 'p str
  | Answer 'r "'p transport_error + bytes"
  | DialAnswer 'r "'p transport_error + unit"
  | Inbound 'p bytes nat
  | Discovered 'p str
  | Expired 'p str

record ('q, 'r, 'c) swarm =
  pending_outbound :: "('q \<times> 'r) list"
  pending_inbound :: "(nat \<times> 'c) list"
  next_inbound_id :: nat
  listen_addrs :: "str list"
  inbound_open :: bool    \<comment> \<open>the receiver of inbound requests is alive\<close>

definition swarm_start :: "('q, 'r, 'c) swarm" where
  "swarm_start = \<lparr>pending_outbound = [], pending_inbound = [], next_inbound_id = 0, listen_addrs = [], inbound_open = True\<rparr>"

lemma swarm_start_simps [simp]:
  "pending_outbound swarm_start = []" "pending_inbound swarm_start = []" "next_inbound_id swarm_start = 0"
  by (simp_all add: swarm_start_def)

section \<open>The loop\<close>

text \<open>\<open>pending_outbound.remove(&request_id)\<close> and the answer to the caller found there.\<close>

definition answer_pending ::
  "'q \<Rightarrow> 'p transport_error + bytes \<Rightarrow> ('q, 'r, 'c) swarm \<Rightarrow> ('q, 'r, 'c) swarm \<times> ('p, 'q, 'r, 'c) swarm_output list" where
  "answer_pending q result s =
     (case map_of (pending_outbound s) q of
        None \<Rightarrow> (s, [])
      | Some reply \<Rightarrow> (s\<lparr>pending_outbound := AList.delete q (pending_outbound s)\<rparr>, [Answer reply result]))"

text \<open>The id counter is a \<open>u64\<close>.\<close>

definition swarm_step ::
  "('p, 'q, 'r, 'c) swarm_input \<Rightarrow> ('q, 'r, 'c) swarm \<Rightarrow> ('q, 'r, 'c) swarm \<times> ('p, 'q, 'r, 'c) swarm_output list" where
  "swarm_step i s =
     (case i of
        CmdRequest peer b reply q \<Rightarrow>
          (s\<lparr>pending_outbound := AList.update q reply (pending_outbound s)\<rparr>, [SendRequest peer b q])
      | CmdSendResponse n b \<Rightarrow>
          (case map_of (pending_inbound s) n of
             None \<Rightarrow> (s, [])
           | Some c \<Rightarrow> (s\<lparr>pending_inbound := AList.delete n (pending_inbound s)\<rparr>, [SendResponse c b]))
      | CmdDial peer addr reply outcome \<Rightarrow>
          (s, [AddPeerAddress peer addr, DialAnswer reply (map_err (\<lambda>e. Libp2p (''dial '' @ addr @ '': '' @ e)) outcome)])
      | CmdShutdown \<Rightarrow> (s, [])
      | NewListenAddr addr \<Rightarrow> (s\<lparr>listen_addrs := listen_addrs s @ [addr]\<rparr>, [])
      | RrRequest peer b c \<Rightarrow>
          (let n = next_inbound_id s; s = s\<lparr>next_inbound_id := Suc n mod 2 ^ 64\<rparr> in
           if inbound_open s then (s\<lparr>pending_inbound := AList.update n c (pending_inbound s)\<rparr>, [Inbound peer b n])
           else (s\<lparr>pending_inbound := AList.delete n (pending_inbound s)\<rparr>, []))
      | RrResponse q b \<Rightarrow> answer_pending q (Inr b) s
      | RrOutboundFailure q peer reason \<Rightarrow> answer_pending q (Inl (OutboundFailure peer reason)) s
      | RrInboundFailure \<Rightarrow> (s, [])
      | RrResponseSent \<Rightarrow> (s, [])
      | MdnsDiscovered l \<Rightarrow> (s, map (\<lambda>(p, a). Discovered p a) l)
      | MdnsExpired l \<Rightarrow> (s, map (\<lambda>(p, a). Expired p a) l)
      | ReceiverDropped \<Rightarrow> (s\<lparr>inbound_open := False\<rparr>, [])
      | OtherEvent \<Rightarrow> (s, []))"

text \<open>After the loop the callers that still wait are told; the order of \<open>drain\<close> is not fixed by Rust, here
  it is the order of the table.\<close>

definition drain_outbound :: "('q, 'r, 'c) swarm \<Rightarrow> ('p, 'q, 'r, 'c) swarm_output list" where
  "drain_outbound s = map (\<lambda>(q, reply). Answer reply (Inl SwarmGone)) (pending_outbound s)"

fun run_swarm ::
  "('p, 'q, 'r, 'c) swarm_input list \<Rightarrow> ('q, 'r, 'c) swarm \<Rightarrow> ('p, 'q, 'r, 'c) swarm_output list" where
  "run_swarm [] s = drain_outbound s"
| "run_swarm (i # is) s =
     (if i = CmdShutdown then drain_outbound s
      else (let (s, out) = swarm_step i s in out @ run_swarm is s))"

section \<open>What callers see\<close>

text \<open>The requests made and received before the loop ends.\<close>

fun requested :: "('p, 'q, 'r, 'c) swarm_input list \<Rightarrow> ('q \<times> 'r) list" where
  "requested [] = []"
| "requested (i # is) =
     (case i of CmdShutdown \<Rightarrow> [] | CmdRequest _ _ r q \<Rightarrow> (q, r) # requested is | _ \<Rightarrow> requested is)"

text \<open>The inbound requests with the numbers they get, from \<open>k\<close> on.\<close>

fun numbered :: "nat \<Rightarrow> ('p, 'q, 'r, 'c) swarm_input list \<Rightarrow> (nat \<times> 'p \<times> bytes \<times> 'c) list" where
  "numbered k [] = []"
| "numbered k (i # is) =
     (case i of CmdShutdown \<Rightarrow> [] | RrRequest p b c \<Rightarrow> (k, p, b, c) # numbered (Suc k) is | _ \<Rightarrow> numbered k is)"

definition answers_to :: "'r \<Rightarrow> ('p, 'q, 'r, 'c) swarm_output list \<Rightarrow> ('p transport_error + bytes) list" where
  "answers_to r outs = concat (map (\<lambda>out. case out of Answer r' a \<Rightarrow> (if r' = r then [a] else []) | _ \<Rightarrow> []) outs)"

lemma answers_to_simps [simp]:
  "answers_to r [] = []" "answers_to r (out # outs) = (case out of Answer r' a \<Rightarrow> (if r' = r then [a] else []) | _ \<Rightarrow> []) @ answers_to r outs"
  "answers_to r (xs @ ys) = answers_to r xs @ answers_to r ys"
  by (simp_all add: answers_to_def)

lemma answers_to_set: "a \<in> set (answers_to r outs) \<longleftrightarrow> Answer r a \<in> set outs"
  by (induction outs) (auto split: swarm_output.splits)

lemma distinct_count_list: "distinct xs \<Longrightarrow> count_list xs x = of_bool (x \<in> set xs)"
  by (induction xs) auto

lemma answers_to_mdns [simp]: "answers_to r (map (\<lambda>(p, a). Discovered p a) l) = []" "answers_to r (map (\<lambda>(p, a). Expired p a) l) = []"
  by (induction l) auto

lemma answers_to_drain: "length (answers_to r (drain_outbound s)) = count_list (map snd (pending_outbound s)) r"
proof -
  have "length (answers_to r (map (\<lambda>(q, reply). Answer reply (Inl SwarmGone)) l)) = count_list (map snd l) r" for l
    by (induction l) auto
  then show ?thesis by (simp add: drain_outbound_def)
qed

lemma update_new: "k \<notin> fst ` set al \<Longrightarrow> AList.update k v al = al @ [(k, v)]"
  by (induction al) auto

lemma delete_absent: "k \<notin> fst ` set al \<Longrightarrow> AList.delete k al = al"
  by (induction al) auto

lemma count_delete:
  "distinct (map fst al) \<Longrightarrow> map_of al k = Some v \<Longrightarrow>
     count_list (map snd al) x = count_list (map snd (AList.delete k al)) x + (if v = x then 1 else 0)"
proof (induction al)
  case (Cons a al)
  show ?case
  proof (cases "fst a = k")
    case True
    then have "k \<notin> fst ` set al" using Cons.prems(1) by auto
    then have "AList.delete k al = al" by (rule delete_absent)
    with True Cons.prems show ?thesis by auto
  qed (use Cons in auto)
qed simp

lemma set_delete_fst: "fst ` set (AList.delete k al) = fst ` set al - {k}"
  by (induction al) auto

lemma answer_pending_count:
  assumes "answer_pending q result s = (s', out)" "distinct (map fst (pending_outbound s))"
  shows "length (answers_to r out) + count_list (map snd (pending_outbound s')) r = count_list (map snd (pending_outbound s)) r \<and>
    distinct (map fst (pending_outbound s')) \<and> fst ` set (pending_outbound s') \<subseteq> fst ` set (pending_outbound s)"
proof (cases "map_of (pending_outbound s) q")
  case (Some reply)
  then have "s' = s\<lparr>pending_outbound := AList.delete q (pending_outbound s)\<rparr>" "out = [Answer reply result]"
    using assms(1) by (simp_all add: answer_pending_def)
  then show ?thesis
    using count_delete [OF assms(2) Some, of r] assms(2) set_delete_fst [of q "pending_outbound s"] by (simp add: distinct_delete Diff_subset)
qed (use assms in \<open>auto simp: answer_pending_def\<close>)

lemma set_delete_subset: "set (AList.delete k al) \<subseteq> set al"
  by (induction al) auto

lemma set_update_subset: "set (AList.update k v al) \<subseteq> insert (k, v) (set al)"
  by (induction al) auto

text \<open>All other inputs leave the callers alone.\<close>

lemma other_step:
  assumes "swarm_step i s = (s', out)"
  shows "(\<exists>p b r q. i = CmdRequest p b r q) \<or> (\<exists>q b. i = RrResponse q b) \<or> (\<exists>q p b. i = RrOutboundFailure q p b) \<or>
    pending_outbound s' = pending_outbound s \<and> answers_to r out = []"
  using assms by (cases i) (auto simp: swarm_step_def Let_def split: option.splits if_splits)

lemma run_swarm_count:
  "distinct (map fst (pending_outbound s) @ map fst (requested is)) \<Longrightarrow>
     length (answers_to r (run_swarm is s)) = count_list (map snd (pending_outbound s) @ map snd (requested is)) r"
proof (induction "is" arbitrary: s)
  case (Cons i "is")
  show ?case
  proof (cases "i = CmdShutdown")
    case False
    obtain s' out where st: "swarm_step i s = (s', out)" by (cases "swarm_step i s")
    have "length (answers_to r out) + count_list (map snd (pending_outbound s') @ map snd (requested is)) r =
        count_list (map snd (pending_outbound s) @ map snd (requested (i # is))) r \<and>
      distinct (map fst (pending_outbound s') @ map fst (requested is))"
    proof (cases i)
      case (CmdRequest p b r' q)
      then have "pending_outbound s' = pending_outbound s @ [(q, r')]" "out = [SendRequest p b q]"
        using st Cons.prems by (auto simp: swarm_step_def update_new)
      with CmdRequest Cons.prems show ?thesis by auto
    next
      case (RrResponse q b)
      then have "answer_pending q (Inr b) s = (s', out)" using st by (simp add: swarm_step_def)
      from answer_pending_count [OF this, of r] Cons.prems RrResponse show ?thesis by auto
    next
      case (RrOutboundFailure q p b)
      then have "answer_pending q (Inl (OutboundFailure p b)) s = (s', out)" using st by (simp add: swarm_step_def)
      from answer_pending_count [OF this, of r] Cons.prems RrOutboundFailure show ?thesis by auto
    qed (use other_step [OF st, of r] Cons.prems False in simp_all)
    with Cons.IH [of s'] st False show ?thesis by simp
  qed (simp add: answers_to_drain)
qed (simp add: answers_to_drain)

lemma run_swarm_content:
  "Answer r (Inr b) \<in> set (run_swarm is s) \<Longrightarrow> \<exists>q. (q, r) \<in> set (pending_outbound s) \<union> set (requested is) \<and> RrResponse q b \<in> set is"
proof (induction "is" arbitrary: s)
  case (Cons i "is")
  obtain s' out where st: "swarm_step i s = (s', out)" by (cases "swarm_step i s")
  have sub: "set (pending_outbound s') \<subseteq> set (pending_outbound s) \<union> set (requested [i])" if "i \<noteq> CmdShutdown"
    using st that set_delete_subset set_update_subset
    by (cases i) (fastforce simp: swarm_step_def answer_pending_def Let_def split: option.splits if_splits)+
  have now: "\<exists>q. (q, r) \<in> set (pending_outbound s) \<and> i = RrResponse q b" if "Answer r (Inr b) \<in> set out"
    using st that by (cases i) (auto simp: swarm_step_def answer_pending_def Let_def dest: map_of_SomeD split: option.splits if_splits)
  have req: "set (requested (i # is)) = set (requested [i]) \<union> set (requested is)" if "i \<noteq> CmdShutdown"
    using that by (cases i) auto
  show ?case
  proof (cases "i = CmdShutdown")
    case False
    with Cons.prems st have "Answer r (Inr b) \<in> set out \<or> Answer r (Inr b) \<in> set (run_swarm is s')" by auto
    then show ?thesis using now Cons.IH [of s'] sub [OF False] req [OF False] by fastforce
  qed (use Cons.prems in \<open>auto simp: drain_outbound_def\<close>)
qed (auto simp: drain_outbound_def)


section \<open>What peers see\<close>

definition sent_on :: "'c \<Rightarrow> ('p, 'q, 'r, 'c) swarm_output list \<Rightarrow> bytes list" where
  "sent_on c outs = concat (map (\<lambda>out. case out of SendResponse c' b \<Rightarrow> (if c' = c then [b] else []) | _ \<Rightarrow> []) outs)"

lemma sent_on_simps [simp]:
  "sent_on c [] = []" "sent_on c (out # outs) = (case out of SendResponse c' b \<Rightarrow> (if c' = c then [b] else []) | _ \<Rightarrow> []) @ sent_on c outs"
  "sent_on c (xs @ ys) = sent_on c xs @ sent_on c ys"
  by (simp_all add: sent_on_def)

lemma sent_on_set: "b \<in> set (sent_on c outs) \<longleftrightarrow> SendResponse c b \<in> set outs"
  by (induction outs) (auto split: swarm_output.splits)

lemma sent_on_drain [simp]: "sent_on c (drain_outbound s) = []"
proof -
  have "sent_on c (map (\<lambda>(q, reply). Answer reply (Inl SwarmGone)) l) = []" for l by (induction l) auto
  then show ?thesis by (simp add: drain_outbound_def)
qed

lemma inbound_drain [simp]: "Inbound p m n \<notin> set (drain_outbound s)"
  by (auto simp: drain_outbound_def)

lemma sent_on_mdns [simp]: "sent_on c (map (\<lambda>(p, a). Discovered p a) l) = []" "sent_on c (map (\<lambda>(p, a). Expired p a) l) = []"
  by (induction l) auto

definition inbound_ok :: "('q, 'r, 'c) swarm \<Rightarrow> bool" where
  "inbound_ok s \<longleftrightarrow> distinct (map fst (pending_inbound s)) \<and> (\<forall>n\<in>fst ` set (pending_inbound s). n < next_inbound_id s)"

text \<open>The inbound requests an input adds to those waiting: at most one, under the next number.\<close>

definition fresh :: "('p, 'q, 'r, 'c) swarm_input \<Rightarrow> nat \<Rightarrow> (nat \<times> 'p \<times> bytes \<times> 'c) list" where
  "fresh i k = (case i of RrRequest p b c \<Rightarrow> [(k, p, b, c)] | _ \<Rightarrow> [])"

definition channels :: "(nat \<times> 'p \<times> bytes \<times> 'c) list \<Rightarrow> 'c list" where
  "channels l = map (\<lambda>(_, _, _, c). c) l"

lemma channels_simps [simp]: "channels [] = []" "channels ((n, p, m, c) # l) = c # channels l" "channels (l @ l') = channels l @ channels l'"
  by (simp_all add: channels_def)

lemma numbered_step:
  "swarm_step i s = (s', out) \<Longrightarrow> i \<noteq> CmdShutdown \<Longrightarrow> Suc (next_inbound_id s) < 2 ^ 64 \<Longrightarrow>
     numbered (next_inbound_id s) (i # is) = fresh i (next_inbound_id s) @ numbered (next_inbound_id s') is \<and>
     next_inbound_id s \<le> next_inbound_id s' \<and> next_inbound_id s' \<le> Suc (next_inbound_id s)"
  by (cases i) (auto simp: swarm_step_def answer_pending_def fresh_def Let_def split: option.splits if_splits)

text \<open>All other inputs leave the waiting inbound requests alone.\<close>

lemma other_inbound:
  assumes "swarm_step i s = (s', out)"
  shows "(\<exists>n b. i = CmdSendResponse n b) \<or> (\<exists>p b c. i = RrRequest p b c) \<or>
    pending_inbound s' = pending_inbound s \<and> next_inbound_id s' = next_inbound_id s \<and>
    (\<forall>c. sent_on c out = []) \<and> (\<forall>p m n. Inbound p m n \<notin> set out)"
  using assms by (cases i) (auto simp: swarm_step_def answer_pending_def split: option.splits)

lemma inbound_step:
  assumes st: "swarm_step i s = (s', out)" and "i \<noteq> CmdShutdown" and room: "Suc (next_inbound_id s) < 2 ^ 64" and ok: "inbound_ok s"
  shows "inbound_ok s' \<and>
    length (sent_on c out) + count_list (map snd (pending_inbound s')) c
      \<le> count_list (map snd (pending_inbound s) @ channels (fresh i (next_inbound_id s))) c \<and>
    set (pending_inbound s') \<subseteq> set (pending_inbound s) \<union> (\<lambda>(n, _, _, c). (n, c)) ` set (fresh i (next_inbound_id s)) \<and>
    (\<forall>b. b \<in> set (sent_on c out) \<longrightarrow> (\<exists>n. i = CmdSendResponse n b \<and> (n, c) \<in> set (pending_inbound s))) \<and>
    (\<forall>p m n. Inbound p m n \<in> set out \<longrightarrow> (\<exists>c. (n, p, m, c) \<in> set (fresh i (next_inbound_id s))))"
proof -
  have d: "distinct (map fst (pending_inbound s))" and lt: "\<forall>n\<in>fst ` set (pending_inbound s). n < next_inbound_id s"
    using ok by (auto simp: inbound_ok_def)
  consider (send) n b where "i = CmdSendResponse n b" | (req) p b c where "i = RrRequest p b c"
    | (other) "\<nexists>n b. i = CmdSendResponse n b" "\<nexists>p b c. i = RrRequest p b c" by blast
  then show ?thesis
  proof cases
    case send
    show ?thesis
    proof (cases "map_of (pending_inbound s) n")
      case None
      with send st have "s' = s" "out = []" by (auto simp: swarm_step_def)
      with ok show ?thesis by simp
    next
      case (Some c')
      with send st have "s' = s\<lparr>pending_inbound := AList.delete n (pending_inbound s)\<rparr>" "out = [SendResponse c' b]"
        by (auto simp: swarm_step_def)
      moreover have "inbound_ok (s\<lparr>pending_inbound := AList.delete n (pending_inbound s)\<rparr>)"
        using d lt by (auto simp: inbound_ok_def distinct_delete set_delete_fst)
      ultimately show ?thesis
        using send count_delete [OF d Some, of c] set_delete_subset [of n "pending_inbound s"] map_of_SomeD [OF Some] by (auto simp: fresh_def)
    qed
  next
    case req
    have new: "next_inbound_id s \<notin> fst ` set (pending_inbound s)" using lt by blast
    have m: "Suc (next_inbound_id s) mod 18446744073709551616 = Suc (next_inbound_id s)" using room by simp
    show ?thesis
    proof (cases "inbound_open s")
      case True
      with req st m have "s' = s\<lparr>next_inbound_id := Suc (next_inbound_id s), pending_inbound := pending_inbound s @ [(next_inbound_id s, c)]\<rparr>"
        "out = [Inbound p b (next_inbound_id s)]"
        by (auto simp: swarm_step_def Let_def update_new [OF new])
      with req d lt new show ?thesis by (auto simp: inbound_ok_def fresh_def less_Suc_eq)
    next
      case False
      with req st m have "s' = s\<lparr>next_inbound_id := Suc (next_inbound_id s)\<rparr>" "out = []"
        by (auto simp: swarm_step_def Let_def delete_absent [OF new])
      with req d lt show ?thesis by (auto simp: inbound_ok_def fresh_def less_Suc_eq)
    qed
  next
    case other
    then show ?thesis using other_inbound [OF st] ok by (auto simp: inbound_ok_def)
  qed
qed

lemma run_swarm_inbound:
  "inbound_ok s \<Longrightarrow> next_inbound_id s + length is < 2 ^ 64 \<Longrightarrow>
     length (sent_on c (run_swarm is s)) \<le> count_list (map snd (pending_inbound s) @ channels (numbered (next_inbound_id s) is)) c \<and>
     (\<forall>b. b \<in> set (sent_on c (run_swarm is s)) \<longrightarrow>
        (\<exists>n. CmdSendResponse n b \<in> set is \<and>
             ((n, c) \<in> set (pending_inbound s) \<or> (\<exists>p m. (n, p, m, c) \<in> set (numbered (next_inbound_id s) is))))) \<and>
     (\<forall>p m n. Inbound p m n \<in> set (run_swarm is s) \<longrightarrow> (\<exists>c. (n, p, m, c) \<in> set (numbered (next_inbound_id s) is)))"
proof (induction "is" arbitrary: s)
  case (Cons i "is")
  show ?case
  proof (cases "i = CmdShutdown")
    case False
    obtain s' out where st: "swarm_step i s = (s', out)" by (cases "swarm_step i s")
    have room: "Suc (next_inbound_id s) < 2 ^ 64" using Cons.prems by simp
    note n = numbered_step [OF st False room, of "is"]
    note step = inbound_step [OF st False room Cons.prems(1), of c]
    have IH: "inbound_ok s'" "next_inbound_id s' + length is < 2 ^ 64" using step n Cons.prems by auto
    note IH = Cons.IH [OF IH]
    have run: "run_swarm (i # is) s = out @ run_swarm is s'" using st False by simp
    show ?thesis
      unfolding run
    proof (intro conjI allI impI, goal_cases)
      case 1
      show ?case using n step IH by simp
    next
      case (2 b)
      then consider "b \<in> set (sent_on c out)" | "b \<in> set (sent_on c (run_swarm is s'))" by auto
      then show ?case
      proof cases
        case 1
        then show ?thesis using step by auto
      next
        case 2
        then obtain k where "CmdSendResponse k b \<in> set is"
          "(k, c) \<in> set (pending_inbound s') \<or> (\<exists>p m. (k, p, m, c) \<in> set (numbered (next_inbound_id s') is))"
          using IH by blast
        then show ?thesis using step n by fastforce
      qed
    next
      case (3 p m k)
      then show ?case using n step IH by fastforce
    qed
  qed simp
qed simp

text \<open>The inbound requests handed to the program, in order.\<close>

definition passed_on :: "('p, 'q, 'r, 'c) swarm_output list \<Rightarrow> (nat \<times> 'p \<times> bytes) list" where
  "passed_on outs = concat (map (\<lambda>out. case out of Inbound p m n \<Rightarrow> [(n, p, m)] | _ \<Rightarrow> []) outs)"

lemma passed_on_simps [simp]:
  "passed_on [] = []" "passed_on (out # outs) = (case out of Inbound p m n \<Rightarrow> [(n, p, m)] | _ \<Rightarrow> []) @ passed_on outs"
  "passed_on (xs @ ys) = passed_on xs @ passed_on ys"
  by (simp_all add: passed_on_def)

lemma passed_on_none: "(\<And>p m n. Inbound p m n \<notin> set outs) \<Longrightarrow> passed_on outs = []"
  by (induction outs) (fastforce split: swarm_output.splits)+

text \<open>What one input hands over, and when the program stops listening.\<close>

lemma passed_step:
  assumes "swarm_step i s = (s', out)"
  shows "passed_on out = (if inbound_open s then map (\<lambda>(n, p, m, _). (n, p, m)) (fresh i (next_inbound_id s)) else []) \<and>
    (inbound_open s' \<longleftrightarrow> inbound_open s \<and> i \<noteq> ReceiverDropped)"
proof (cases "\<exists>p b c. i = RrRequest p b c")
  case False
  then have "fresh i k = []" for k by (auto simp: fresh_def split: swarm_input.splits)
  moreover have "Inbound p m n \<notin> set out" for p m n
    using assms False by (cases i) (auto simp: swarm_step_def answer_pending_def split: option.splits)
  ultimately show ?thesis
    using assms False passed_on_none [of out] by (cases i) (auto simp: swarm_step_def answer_pending_def split: option.splits)
qed (use assms in \<open>auto simp: swarm_step_def Let_def fresh_def split: if_splits\<close>)

lemma run_swarm_passes:
  "next_inbound_id s + length is < 2 ^ 64 \<Longrightarrow>
     passed_on (run_swarm is s) =
       (if inbound_open s
        then map (\<lambda>(n, p, m, _). (n, p, m)) (numbered (next_inbound_id s) (takeWhile (\<lambda>i. i \<noteq> ReceiverDropped) is)) else [])"
proof (induction "is" arbitrary: s)
  case Nil
  show ?case by (simp add: passed_on_none)
next
  case (Cons i "is")
  show ?case
  proof (cases "i = CmdShutdown")
    case True
    then show ?thesis by (simp add: passed_on_none)
  next
    case False
    obtain s' out where st: "swarm_step i s = (s', out)" by (cases "swarm_step i s")
    have room: "Suc (next_inbound_id s) < 2 ^ 64" using Cons.prems by simp
    note n = numbered_step [OF st False room]
    note p = passed_step [OF st]
    have "next_inbound_id s' + length is < 2 ^ 64" using numbered_step [OF st False room, of "is"] Cons.prems by auto
    note IH = Cons.IH [OF this]
    have run: "run_swarm (i # is) s = out @ run_swarm is s'" using st False by simp
    show ?thesis
    proof (cases "i = ReceiverDropped")
      case True
      then show ?thesis unfolding run using p IH by (simp add: fresh_def)
    next
      case False
      then have "takeWhile (\<lambda>i. i \<noteq> ReceiverDropped) (i # is) = i # takeWhile (\<lambda>i. i \<noteq> ReceiverDropped) is" by simp
      then show ?thesis unfolding run using p IH n False by simp
    qed
  qed
qed

text \<open>A run in two parts, and a response to a request that waits.\<close>

lemma length_numbered: "length (numbered k is) = length (numbered 0 is)"
proof (induction "is" arbitrary: k)
  case (Cons i "is")
  then show ?case by (cases i) (simp_all add: Cons [of "Suc _"] Cons [of 1])
qed simp

lemma run_swarm_append:
  "inbound_ok s \<Longrightarrow> next_inbound_id s + length is < 2 ^ 64 \<Longrightarrow> CmdShutdown \<notin> set is \<Longrightarrow>
     \<exists>s' outs. run_swarm (is @ js) s = outs @ run_swarm js s' \<and> inbound_ok s' \<and>
       next_inbound_id s' = next_inbound_id s + length (numbered 0 is) \<and>
       (inbound_open s' \<longleftrightarrow> inbound_open s \<and> ReceiverDropped \<notin> set is)"
proof (induction "is" arbitrary: s)
  case Nil
  then show ?case by (intro exI [of _ s] exI [of _ "[]"]) simp
next
  case (Cons i "is")
  obtain s1 out where st: "swarm_step i s = (s1, out)" by (cases "swarm_step i s")
  have i: "i \<noteq> CmdShutdown" and room: "Suc (next_inbound_id s) < 2 ^ 64" using Cons.prems by auto
  note n = numbered_step [OF st i room, of "is"]
  have nx: "next_inbound_id s1 = next_inbound_id s + length (fresh i (next_inbound_id s))"
    using st room by (cases i) (auto simp: swarm_step_def answer_pending_def fresh_def Let_def split: option.splits if_splits)
  have ok: "inbound_ok s1" "next_inbound_id s1 + length is < 2 ^ 64" "CmdShutdown \<notin> set is"
    using inbound_step [OF st i room Cons.prems(1)] n Cons.prems by auto
  from Cons.IH [OF this] obtain s' outs where r: "run_swarm (is @ js) s1 = outs @ run_swarm js s'" "inbound_ok s'"
      "next_inbound_id s' = next_inbound_id s1 + length (numbered 0 is)" "inbound_open s' \<longleftrightarrow> inbound_open s1 \<and> ReceiverDropped \<notin> set is"
    by blast
  have "run_swarm ((i # is) @ js) s = (out @ outs) @ run_swarm js s'" using st i r(1) by simp
  moreover have "next_inbound_id s' = next_inbound_id s + length (numbered 0 (i # is))"
  proof -
    have "length (numbered 0 (i # is)) = length (numbered (next_inbound_id s) (i # is))" by (metis length_numbered)
    also have "\<dots> = length (fresh i (next_inbound_id s)) + length (numbered 0 is)"
      using n length_numbered [of "next_inbound_id s1" "is"] by simp
    finally show ?thesis using r(3) nx by simp
  qed
  moreover have "inbound_open s' \<longleftrightarrow> inbound_open s \<and> ReceiverDropped \<notin> set (i # is)" using r(4) passed_step [OF st] by auto
  ultimately show ?case using r(2) by blast
qed

lemma response_sent:
  "inbound_ok s \<Longrightarrow> next_inbound_id s + length is < 2 ^ 64 \<Longrightarrow> CmdShutdown \<notin> set is \<Longrightarrow> \<forall>b. CmdSendResponse n b \<notin> set is \<Longrightarrow>
     map_of (pending_inbound s) n = Some c \<Longrightarrow> SendResponse c b \<in> set (run_swarm (is @ CmdSendResponse n b # js) s)"
proof (induction "is" arbitrary: s)
  case Nil
  then show ?case by (simp add: swarm_step_def)
next
  case (Cons i "is")
  obtain s1 out where st: "swarm_step i s = (s1, out)" by (cases "swarm_step i s")
  have i: "i \<noteq> CmdShutdown" and room: "Suc (next_inbound_id s) < 2 ^ 64" using Cons.prems by auto
  have ok: "inbound_ok s1" "next_inbound_id s1 + length is < 2 ^ 64"
    using inbound_step [OF st i room Cons.prems(1)] numbered_step [OF st i room, of "is"] Cons.prems(2) by auto
  have "n \<in> fst ` set (pending_inbound s)" using map_of_SomeD [OF Cons.prems(5)] by force
  then have "n \<noteq> next_inbound_id s" using Cons.prems(1) by (auto simp: inbound_ok_def)
  then have "map_of (pending_inbound s1) n = Some c"
    using st Cons.prems(4,5)
    by (cases i) (auto simp: swarm_step_def answer_pending_def Let_def update_conv' delete_conv' split: option.splits if_splits)
  from Cons.IH [OF ok _ _ this] Cons.prems(3,4) st i show ?case by simp
qed

lemma passed_then_sent:
  assumes "length (is @ RrRequest p m c # mid) < 2 ^ 64" "CmdShutdown \<notin> set (is @ mid)" "ReceiverDropped \<notin> set is"
    and "\<forall>b. CmdSendResponse (length (numbered 0 is)) b \<notin> set mid"
  shows "SendResponse c b \<in> set (run_swarm (is @ RrRequest p m c # mid @ CmdSendResponse (length (numbered 0 is)) b # js) swarm_start)"
proof -
  let ?n = "length (numbered 0 is)"
  obtain s outs where r: "run_swarm (is @ (RrRequest p m c # mid @ CmdSendResponse ?n b # js)) swarm_start =
        outs @ run_swarm (RrRequest p m c # mid @ CmdSendResponse ?n b # js) s"
      "inbound_ok s" "next_inbound_id s = ?n" "inbound_open s"
    using run_swarm_append [of swarm_start "is"] assms(1-3) by (fastforce simp: inbound_ok_def swarm_start_def)
  obtain s1 out where st: "swarm_step (RrRequest p m c) s = (s1, out)" by (cases "swarm_step (RrRequest p m c) s")
  have "?n \<le> length is"
  proof -
    have "length (numbered k is) \<le> length is" for k
    proof (induction "is" arbitrary: k)
      case (Cons i "is")
      then show ?case by (cases i) (auto intro: le_SucI)
    qed simp
    then show ?thesis .
  qed
  then have room: "Suc (next_inbound_id s) < 2 ^ 64" "Suc ?n + length mid < 2 ^ 64" using r(3) assms(1) by auto
  have s1: "map_of (pending_inbound s1) ?n = Some c" "next_inbound_id s1 = Suc ?n"
    using st r(3,4) room(1) by (auto simp: swarm_step_def Let_def update_conv')
  have "inbound_ok s1" using inbound_step [OF st _ room(1) r(2)] by simp
  from response_sent [OF this _ _ assms(4) s1(1), of b js] s1(2) room(2) assms(2)
  have "SendResponse c b \<in> set (run_swarm (mid @ CmdSendResponse ?n b # js) s1)" by simp
  then show ?thesis using r(1) st by simp
qed

section \<open>Each request gets one answer\<close>

text \<open>\<open>rx.await.map_err(|_| SwarmGone)?\<close>: a caller whose sender was dropped unanswered sees \<open>SwarmGone\<close>.\<close>

definition request_result :: "'r \<Rightarrow> ('p, 'q, 'r, 'c) swarm_output list \<Rightarrow> 'p transport_error + bytes" where
  "request_result r outs = (case answers_to r outs of [] \<Rightarrow> Inl SwarmGone | a # _ \<Rightarrow> a)"

text \<open>C26. Every call of \<open>Transport::request\<close> whose command the swarm task took is answered exactly once, with
  the bytes of a response to its own request id or with an error, also when the task shuts down with the
  request open; nobody else is answered.  Until the program drops the receiver of inbound requests or shuts the task down,
  every inbound request is passed on, in order, under the number it was given, and after that none is.  The stream of a request
  gets at most one response, and that response is one the program gave for this number; the first response
  the program gives for the number of a request that was passed on is sent, unless the task was shut down before.
  (The network library gives ids that differ, and a run has fewer than \<open>2 ^ 64\<close> inputs.)
\<close>

theorem swarm_routes:
  fixes ins :: "('p, 'q, 'r, 'c) swarm_input list"
  assumes ids: "distinct (map fst (requested ins))" and callers: "distinct (map snd (requested ins))"
    and streams: "distinct (channels (numbered 0 ins))" and short: "length ins < 2 ^ 64"
  shows "length (answers_to r (run_swarm ins swarm_start)) = of_bool (r \<in> snd ` set (requested ins)) \<and>
    (\<forall>b. request_result r (run_swarm ins swarm_start) = Inr b \<longrightarrow> (\<exists>q. (q, r) \<in> set (requested ins) \<and> RrResponse q b \<in> set ins)) \<and>
    (\<forall>p m n. Inbound p m n \<in> set (run_swarm ins swarm_start) \<longrightarrow> (\<exists>c. (n, p, m, c) \<in> set (numbered 0 ins))) \<and>
    passed_on (run_swarm ins swarm_start) =
      map (\<lambda>(n, p, m, _). (n, p, m)) (numbered 0 (takeWhile (\<lambda>i. i \<noteq> ReceiverDropped) ins)) \<and>
    length (sent_on c (run_swarm ins swarm_start)) \<le> 1 \<and>
    (\<forall>b. b \<in> set (sent_on c (run_swarm ins swarm_start)) \<longrightarrow>
       (\<exists>n p m. (n, p, m, c) \<in> set (numbered 0 ins) \<and> CmdSendResponse n b \<in> set ins)) \<and>
    (\<forall>before p m mid b after. ins = before @ RrRequest p m c # mid @ CmdSendResponse (length (numbered 0 before)) b # after \<longrightarrow>
       CmdShutdown \<notin> set (before @ mid) \<longrightarrow> ReceiverDropped \<notin> set before \<longrightarrow>
       (\<forall>b'. CmdSendResponse (length (numbered 0 before)) b' \<notin> set mid) \<longrightarrow>
       SendResponse c b \<in> set (run_swarm ins swarm_start))"
proof -
  have one: "count_list (channels (numbered 0 ins)) c \<le> 1" using streams by (simp add: distinct_count_list)
  have start: "inbound_ok (swarm_start :: ('q, 'r, 'c) swarm)" by (simp add: inbound_ok_def swarm_start_def)
  have "length (answers_to r (run_swarm ins swarm_start)) = of_bool (r \<in> snd ` set (requested ins))"
    using run_swarm_count [of swarm_start ins r] ids callers by (simp add: distinct_count_list)
  moreover have "\<exists>q. (q, r) \<in> set (requested ins) \<and> RrResponse q b \<in> set ins" if "request_result r (run_swarm ins swarm_start) = Inr b" for b
  proof -
    from that have "Answer r (Inr b) \<in> set (run_swarm ins swarm_start)"
      by (auto simp: request_result_def simp flip: answers_to_set split: list.splits)
    from run_swarm_content [OF this] show ?thesis by simp
  qed
  moreover have "length (sent_on c (run_swarm ins swarm_start)) \<le> 1"
    "\<forall>b. b \<in> set (sent_on c (run_swarm ins swarm_start)) \<longrightarrow> (\<exists>n p m. (n, p, m, c) \<in> set (numbered 0 ins) \<and> CmdSendResponse n b \<in> set ins)"
    "\<forall>p m n. Inbound p m n \<in> set (run_swarm ins swarm_start) \<longrightarrow> (\<exists>c. (n, p, m, c) \<in> set (numbered 0 ins))"
    using run_swarm_inbound [OF start, of ins c] short one by (simp, simp, blast, simp)
  moreover have "passed_on (run_swarm ins swarm_start) =
      map (\<lambda>(n, p, m, _). (n, p, m)) (numbered 0 (takeWhile (\<lambda>i. i \<noteq> ReceiverDropped) ins))"
    using run_swarm_passes [of swarm_start ins] short by (simp add: swarm_start_def)
  moreover have "SendResponse c b \<in> set (run_swarm ins swarm_start)"
    if "ins = before @ RrRequest p m c # mid @ CmdSendResponse (length (numbered 0 before)) b # after"
      "CmdShutdown \<notin> set (before @ mid)" "ReceiverDropped \<notin> set before"
      "\<forall>b'. CmdSendResponse (length (numbered 0 before)) b' \<notin> set mid" for before p m mid b after
    unfolding that(1) by (rule passed_then_sent) (use that short in auto)
  ultimately show ?thesis by (intro conjI) (assumption | blast)+
qed

definition demo_inputs :: "(str, nat, nat, nat) swarm_input list" where
  "demo_inputs =
     [CmdRequest ''bob'' ''ping'' 0 70, RrRequest ''bob'' ''pull'' 5, CmdRequest ''carol'' ''ping'' 1 71, CmdSendResponse 0 ''pack'',
      CmdSendResponse 0 ''again'', RrResponse 70 ''pong'', CmdShutdown, RrResponse 71 ''late'']"

theorem swarm_routes_witness:
  "passed_on (run_swarm demo_inputs swarm_start) = [(0, ''bob'', ''pull'')] \<and>
   request_result 0 (run_swarm demo_inputs swarm_start) = Inr ''pong'' \<and>
   request_result 1 (run_swarm demo_inputs swarm_start) = Inl SwarmGone \<and>
   length (answers_to 1 (run_swarm demo_inputs swarm_start)) = 1 \<and>
   sent_on 5 (run_swarm demo_inputs swarm_start) = [''pack'']"
proof -
  have "distinct (map fst (requested demo_inputs))" "distinct (map snd (requested demo_inputs))"
    "distinct (channels (numbered 0 demo_inputs))" "length demo_inputs < 2 ^ 64" "1 \<in> snd ` set (requested demo_inputs)"
    by (simp_all add: demo_inputs_def)
  with swarm_routes [of demo_inputs 1 5] have "length (answers_to 1 (run_swarm demo_inputs swarm_start)) = 1"
    "passed_on (run_swarm demo_inputs swarm_start) =
      map (\<lambda>(n, p, m, _). (n, p, m)) (numbered 0 (takeWhile (\<lambda>i. i \<noteq> ReceiverDropped) demo_inputs))" by simp_all
  then show ?thesis by (simp add: demo_inputs_def swarm_start_def swarm_step_def answer_pending_def drain_outbound_def request_result_def Let_def)
qed

end
