(* ===== verification/Bundle.thy ===== *)
theory Bundle
  imports Rel_Path
begin

text \<open>
  The backup bundle (\<open>bypass-core/src/bundle.rs\<close>): a manifest followed by one archive member per
  entry.  The \<open>tar\<close> crate is a parameter on both sides: a sink that takes members in order, and the
  stream of members (or errors) an archive is read as; TOML is a pair of functions.
\<close>

section \<open>Data\<close>

definition FORMAT_VERSION :: nat where "FORMAT_VERSION = 1"
definition MANIFEST_NAME :: str where "MANIFEST_NAME = ''manifest.toml''"
definition ENTRIES_PREFIX :: str where "ENTRIES_PREFIX = ''entries/''"

record manifest =
  format_version :: nat
  created_at_unix :: int
  original_recipients :: "str list"
  n_entries :: nat

datatype 'x bundle_error =
    BundleIo str
  | EncodeManifest str
  | DecodeManifest str
  | NonUtf8Manifest
  | IncompatibleFormat nat nat
  | MissingManifest
  | InvalidEntryPath path_error
  | NonUtf8MemberName
  | UnexpectedMember str
  | BundleSource 'x

record bundle_entry =
  be_path :: relpath
  be_plaintext :: bytes

section \<open>Writing\<close>

record 'w tar_sink =
  ts_append :: "str \<Rightarrow> bytes \<Rightarrow> ('w, str, unit) eff"
  ts_finish :: "('w, str, unit) eff"  \<comment> \<open>\<open>finish\<close>, \<open>into_inner\<close>, \<open>flush\<close>\<close>

definition append_member :: "'w tar_sink \<Rightarrow> str \<Rightarrow> bytes \<Rightarrow> ('w, 'x bundle_error, unit) eff" where
  "append_member T name data w = map_err_st BundleIo (ts_append T name data w)"

fun write_entries :: "'w tar_sink \<Rightarrow> ('x bundle_error + bundle_entry) list \<Rightarrow> ('w, 'x bundle_error, unit) eff" where
  "write_entries T [] w = (Inr (), w)"
| "write_entries T (item # items) w =
     then_eff (item, w) (\<lambda>e w.
     then_eff (append_member T (ENTRIES_PREFIX @ as_str (be_path e)) (be_plaintext e) w) (\<lambda>_ w.
       write_entries T items w))"

definition write_bundle ::
  "'w tar_sink \<Rightarrow> (manifest \<Rightarrow> str + str) \<Rightarrow> manifest \<Rightarrow> ('x bundle_error + bundle_entry) list \<Rightarrow> ('w, 'x bundle_error, unit) eff" where
  "write_bundle T to_toml m entries w =
     then_eff (map_err EncodeManifest (to_toml m), w) (\<lambda>manifest_bytes w.
     then_eff (append_member T MANIFEST_NAME manifest_bytes w) (\<lambda>_ w.
     then_eff (write_entries T entries w) (\<lambda>_ w.
       map_err_st BundleIo (ts_finish T w))))"

section \<open>Reading\<close>

record tar_member =
  tm_path :: "str + bytes"
  tm_data :: "str + bytes"

definition member_name :: "tar_member \<Rightarrow> 'x bundle_error + str" where
  "member_name m =
     and_then (map_err BundleIo (tm_path m)) (\<lambda>p. if valid_utf8 p then Inr p else Inl NonUtf8MemberName)"

fun visit_members ::
  "(bundle_entry \<Rightarrow> ('v, 'x bundle_error, unit) eff) \<Rightarrow> (str + tar_member) list \<Rightarrow> ('v, 'x bundle_error, unit) eff" where
  "visit_members visit [] v = (Inr (), v)"
| "visit_members visit (m # ms) v =
     then_eff (map_err BundleIo m, v) (\<lambda>m v.
     then_eff (member_name m, v) (\<lambda>name v.
     case strip_prefix ENTRIES_PREFIX name of None \<Rightarrow> (Inl (UnexpectedMember name), v)
     | Some rel \<Rightarrow>
         then_eff (map_err InvalidEntryPath (relpath_new rel), v) (\<lambda>path v.
         then_eff (map_err BundleIo (tm_data m), v) (\<lambda>buf v.
         then_eff (visit \<lparr>be_path = path, be_plaintext = buf\<rparr> v) (\<lambda>_ v.
           visit_members visit ms v)))))"

definition read_bundle ::
  "(str \<Rightarrow> str + manifest) \<Rightarrow> (manifest \<Rightarrow> ('v, 'x bundle_error, unit) eff) \<Rightarrow> (bundle_entry \<Rightarrow> ('v, 'x bundle_error, unit) eff) \<Rightarrow>
    str + (str + tar_member) list \<Rightarrow> ('v, 'x bundle_error, manifest) eff" where
  "read_bundle of_toml pre_check visit archive v =
     then_eff (map_err BundleIo archive, v) (\<lambda>members v.
     case members of [] \<Rightarrow> (Inl MissingManifest, v)
     | first # rest \<Rightarrow>
         then_eff (map_err BundleIo first, v) (\<lambda>first v.
         then_eff (member_name first, v) (\<lambda>name v.
         if name \<noteq> MANIFEST_NAME then (Inl MissingManifest, v)
         else
           then_eff (map_err BundleIo (tm_data first), v) (\<lambda>buf v.
           case from_utf8 buf of None \<Rightarrow> (Inl NonUtf8Manifest, v)
           | Some text \<Rightarrow>
               then_eff (map_err DecodeManifest (of_toml text), v) (\<lambda>m v.
               if format_version m \<noteq> FORMAT_VERSION then (Inl (IncompatibleFormat (format_version m) FORMAT_VERSION), v)
               else
                 then_eff (pre_check m v) (\<lambda>_ v.
                 then_eff (visit_members visit rest v) (\<lambda>_ v.
                   (Inr m, v))))))))"

definition no_pre_check :: "manifest \<Rightarrow> ('v, 'x bundle_error, unit) eff" where
  "no_pre_check m v = (Inr (), v)"

section \<open>Lemmas\<close>

text \<open>A sink as the tar crate documents it: what is appended is what the archive holds, in order.\<close>

definition sink_faithful :: "'w tar_sink \<Rightarrow> ('w \<Rightarrow> (str \<times> bytes) list) \<Rightarrow> bool" where
  "sink_faithful T members \<longleftrightarrow>
     (\<forall>n d w w'. ts_append T n d w = (Inr (), w') \<longrightarrow> members w' = members w @ [(n, d)]) \<and>
     (\<forall>w w'. ts_finish T w = (Inr (), w') \<longrightarrow> members w' = members w)"

definition toml_faithful :: "(manifest \<Rightarrow> str + str) \<Rightarrow> (str \<Rightarrow> str + manifest) \<Rightarrow> bool" where
  "toml_faithful to_toml of_toml \<longleftrightarrow> (\<forall>m s. to_toml m = Inr s \<longrightarrow> of_toml s = Inr m \<and> valid_utf8 s)"

definition as_stored :: "str \<times> bytes \<Rightarrow> str + tar_member" where
  "as_stored nd = Inr \<lparr>tm_path = Inr (fst nd), tm_data = Inr (snd nd)\<rparr>"

definition entry_member :: "bundle_entry \<Rightarrow> str \<times> bytes" where
  "entry_member e = (ENTRIES_PREFIX @ as_str (be_path e), be_plaintext e)"

definition collect :: "bundle_entry \<Rightarrow> (bundle_entry list, 'x bundle_error, unit) eff" where
  "collect e v = (Inr (), v @ [e])"

lemma append_member_Inr: "append_member T n d w = (Inr u, w') \<longleftrightarrow> ts_append T n d w = (Inr u, w')"
  by (simp add: append_member_def)

lemma write_entries_members:
  assumes "sink_faithful T members" "write_entries T (items :: ('x bundle_error + bundle_entry) list) w = (Inr (), w')"
  shows "\<exists>es. items = map Inr es \<and> members w' = members w @ map entry_member es"
  using assms(2)
proof (induction items arbitrary: w)
  case (Cons item items)
  from Cons.prems obtain e w1 where e: "item = Inr e" "ts_append T (ENTRIES_PREFIX @ as_str (be_path e)) (be_plaintext e) w = (Inr (), w1)"
      "write_entries T items w1 = (Inr (), w')"
    by (auto simp: then_eff_Inr_iff append_member_Inr)
  then have "members w1 = members w @ [entry_member e]"
    using assms(1) by (auto simp: sink_faithful_def entry_member_def)
  with Cons.IH [OF e(3)] e(1) show ?case by (metis append.assoc append_Cons append_Nil list.simps(9))
qed simp

lemma visit_collect:
  assumes "\<forall>e \<in> set es. relpath_ok (be_path e) \<and> valid_utf8 (as_str (be_path e))"
  shows "visit_members collect (map (as_stored \<circ> entry_member) es) v = ((Inr () :: 'x bundle_error + unit), v @ es)"
  using assms
proof (induction es arbitrary: v)
  case (Cons e es)
  let ?n = "ENTRIES_PREFIX @ as_str (be_path e)"
  have "valid_utf8 ENTRIES_PREFIX" by code_simp
  with Cons.prems have v: "valid_utf8 ?n" by (simp add: valid_append del: valid_utf8.simps)
  have n: "strip_prefix ENTRIES_PREFIX ?n = Some (as_str (be_path e))" by simp
  have p: "relpath_new (as_str (be_path e)) = Inr (be_path e)"
    using Cons.prems relpath_new_ok [of "as_str (be_path e)"] by simp
  obtain q b where e: "e = \<lparr>be_path = q, be_plaintext = b\<rparr>" by (cases e)
  have "(visit_members collect (map (as_stored \<circ> entry_member) (e # es)) v :: ('x bundle_error + unit) \<times> bundle_entry list) =
      visit_members collect (map (as_stored \<circ> entry_member) es) (v @ [e])"
    using v n p e by (simp add: as_stored_def entry_member_def member_name_def collect_def)
  also have "\<dots> = (Inr (), (v @ [e]) @ es)" by (rule Cons.IH) (use Cons.prems in simp)
  finally show ?case by (simp only: append.assoc append_Cons append_Nil)
qed simp

lemma member_name_stored: "valid_utf8 n \<Longrightarrow> member_name \<lparr>tm_path = Inr n, tm_data = Inr d\<rparr> = Inr n"
  by (simp add: member_name_def)

lemma manifest_name_valid: "valid_utf8 MANIFEST_NAME"
  by code_simp

lemma read_bundle_stored:
  assumes "of_toml s = Inr m" "valid_utf8 s"
  shows "read_bundle of_toml no_pre_check visit (Inr (as_stored (MANIFEST_NAME, s) # rest)) v =
    (if format_version m \<noteq> FORMAT_VERSION then (Inl (IncompatibleFormat (format_version m) FORMAT_VERSION), v)
     else then_eff (visit_members visit rest v) (\<lambda>_ v. (Inr m, v)))"
  using assms by (simp add: read_bundle_def as_stored_def member_name_stored manifest_name_valid no_pre_check_def from_utf8_def)

section \<open>Property\<close>

text \<open>A backup restores: when writing a bundle to a sink that keeps what is appended reports success,
  every item handed to it was an entry, and reading the archive back returns the same manifest and
  visits exactly these entries, in order, with the same paths and plaintexts; an archive whose manifest
  has another format version is refused before any entry is visited.\<close>

lemma bundle_roundtrip:
  assumes "sink_faithful T members" "members w = []" "toml_faithful to_toml of_toml"
    and "write_bundle T to_toml m (items :: ('x bundle_error + bundle_entry) list) w = (Inr (), w')"
    and "\<forall>e. Inr e \<in> set items \<longrightarrow> relpath_ok (be_path e) \<and> valid_utf8 (as_str (be_path e))"
    and "format_version m = FORMAT_VERSION" "to_toml bad = Inr s" "format_version bad \<noteq> FORMAT_VERSION"
  shows "(\<exists>es. items = map Inr es \<and> read_bundle of_toml no_pre_check collect (Inr (map as_stored (members w'))) [] =
      ((Inr m :: 'x bundle_error + manifest), es)) \<and>
    read_bundle of_toml no_pre_check visit (Inr (as_stored (MANIFEST_NAME, s) # rest)) v =
      (Inl (IncompatibleFormat (format_version bad) FORMAT_VERSION :: 'x bundle_error), v)"
proof
  show "read_bundle of_toml no_pre_check visit (Inr (as_stored (MANIFEST_NAME, s) # rest)) v =
      (Inl (IncompatibleFormat (format_version bad) FORMAT_VERSION), v)"
    using assms(3,7,8) by (simp add: read_bundle_stored toml_faithful_def)
  from assms(4) obtain t w1 w2 where t: "to_toml m = Inr t" "ts_append T MANIFEST_NAME t w = (Inr (), w1)"
      "write_entries T items w1 = (Inr (), w2)" "ts_finish T w2 = (Inr (), w')"
    by (auto simp: write_bundle_def then_eff_Inr_iff append_member_Inr)
  obtain es where es: "items = map Inr es" "members w2 = members w1 @ map entry_member es"
    using write_entries_members [OF assms(1) t(3)] by blast
  then have m: "members w' = (MANIFEST_NAME, t) # map entry_member es"
    using assms(1,2) t by (auto simp: sink_faithful_def)
  have "\<forall>e \<in> set es. relpath_ok (be_path e) \<and> valid_utf8 (as_str (be_path e))"
    using assms(5) es(1) by auto
  from visit_collect [OF this, of "[]"] have "visit_members collect (map (as_stored \<circ> entry_member) es) [] = ((Inr () :: 'x bundle_error + unit), es)"
    by simp
  then have "read_bundle of_toml no_pre_check collect (Inr (map as_stored (members w'))) [] =
      ((Inr m :: 'x bundle_error + manifest), es)"
    using assms(3,6) t(1) by (simp add: m read_bundle_stored comp_def toml_faithful_def)
  with es(1) show "\<exists>es. items = map Inr es \<and> read_bundle of_toml no_pre_check collect (Inr (map as_stored (members w'))) [] =
      ((Inr m :: 'x bundle_error + manifest), es)" by blast
qed

definition list_sink :: "(str \<times> bytes) list tar_sink" where
  "list_sink = \<lparr>ts_append = (\<lambda>n d w. (Inr (), w @ [(n, d)])), ts_finish = (\<lambda>w. (Inr (), w))\<rparr>"

definition demo_manifest :: "nat \<Rightarrow> manifest" where
  "demo_manifest v = \<lparr>format_version = v, created_at_unix = 0, original_recipients = [], n_entries = 1\<rparr>"

definition demo_to_toml :: "manifest \<Rightarrow> str + str" where
  "demo_to_toml m = (if m = demo_manifest 1 then Inr ''one'' else if m = demo_manifest 2 then Inr ''two'' else Inl '''')"

definition demo_of_toml :: "str \<Rightarrow> str + manifest" where
  "demo_of_toml s = (if s = ''one'' then Inr (demo_manifest 1) else if s = ''two'' then Inr (demo_manifest 2) else Inl '''')"

end
