(* ===== verification/Backup_Restore.thy ===== *)
theory Backup_Restore
  imports Bulk_Writes Bundle
begin

text \<open>
  \<open>bypass backup\<close> and \<open>bypass restore\<close> (\<open>bypass-cli/src/backup.rs\<close>, \<open>restore.rs\<close>): the drivers that
  stream a bundle of a whole store through \<open>gpg\<close>.  The two \<open>gpg\<close> processes are records: the tar sink in
  front of \<open>gpg --encrypt\<close> with what comes out behind it, and the archive \<open>gpg --decrypt\<close> yields for the
  bytes of a file.  Messages on the terminal are left out.
\<close>

section \<open>The processes\<close>

record 't gpg_encrypt =
  gx_spawn :: "str \<Rightarrow> str + unit"
  gx_sink :: "'t tar_sink"
  gx_start :: 't
  gx_output :: "str \<Rightarrow> 't \<Rightarrow> bytes"   \<comment> \<open>what is relayed to standard output\<close>
  gx_drain :: "'t \<Rightarrow> str + unit"
  gx_finish :: "'t \<Rightarrow> str + unit"

record gpg_decrypt =
  gd_spawn :: "str + unit"
  gd_archive :: "bytes \<Rightarrow> str + (str + tar_member) list"
  gd_pump :: "bytes \<Rightarrow> str + unit"
  gd_finish :: "bytes \<Rightarrow> str + unit"

type_synonym ('ce, 'se, 've) entry_failure = "relpath \<times> ('ce, 'se, 've) store_error"

datatype ('ce, 'se, 've) bulk_error =
    BadSubtree path_error
  | BulkStore "('ce, 'se, 've) store_error"
  | NothingToBackUp "str option"
  | ReadGpgId "'se gpg_id_error"
  | SpawnGpg str
  | WriteBundle "('ce, 'se, 've) entry_failure bundle_error"
  | RelayOutput str
  | GpgExit str
  | NoGpgId
  | OpenBundle str
  | StoreNotEmpty nat
  | DirtyGitState
  | ReadBundle "('ce, 'se, 've) entry_failure bundle_error"
  | PipeBundle str

definition root_dummy :: relpath where
  "root_dummy = expect (relpath_new ''_'')"

section \<open>Backup\<close>

definition backup_item ::
  "('w, 'ce, 'se, 've) store \<Rightarrow> 'w \<Rightarrow> relpath \<Rightarrow> ('ce, 'se, 've) entry_failure bundle_error + bundle_entry" where
  "backup_item st w e =
     (case store_show st e w of
        Inl err \<Rightarrow> Inl (BundleSource (e, err))
      | Inr plaintext \<Rightarrow> Inr \<lparr>be_path = e, be_plaintext = plaintext\<rparr>)"

definition parse_subtree :: "str option \<Rightarrow> ('ce, 'se, 've) bulk_error + relpath option" where
  "parse_subtree subtree =
     (case subtree of None \<Rightarrow> Inr None
      | Some s \<Rightarrow> (case relpath_new s of Inl e \<Rightarrow> Inl (BadSubtree e) | Inr p \<Rightarrow> Inr (Some p)))"

text \<open>The result and the bytes written to standard output.\<close>

definition backup_run ::
  "('w, 'ce, 'se, 've) store \<Rightarrow> 't gpg_encrypt \<Rightarrow> (manifest \<Rightarrow> str + str) \<Rightarrow> int \<Rightarrow> str \<Rightarrow> str option \<Rightarrow> 'w \<Rightarrow>
    (('ce, 'se, 've) bulk_error + nat) \<times> bytes" where
  "backup_run st X to_toml now_unix recipient subtree w =
     (case parse_subtree subtree of
        Inl e \<Rightarrow> (Inl e, [])
      | Inr subtree_path \<Rightarrow>
     (case store_list st subtree_path w of
        Inl e \<Rightarrow> (Inl (BulkStore e), [])
      | Inr entries \<Rightarrow>
          if entries = [] then (Inl (NothingToBackUp subtree), [])
          else
     (case resolve_recipients (st_read (storage st) w) root_dummy of
        Inl e \<Rightarrow> (Inl (ReadGpgId e), [])
      | Inr keys \<Rightarrow>
          (let manifest = \<lparr>format_version = FORMAT_VERSION, created_at_unix = now_unix,
                 original_recipients = map keyid_str keys, n_entries = length entries mod 2 ^ 32\<rparr> in
           case gx_spawn X recipient of
             Inl e \<Rightarrow> (Inl (SpawnGpg e), [])
           | Inr _ \<Rightarrow>
               (let (bundle_result, t) = write_bundle (gx_sink X) to_toml manifest (map (backup_item st w) entries) (gx_start X) in
                (and_then (map_err WriteBundle bundle_result) (\<lambda>_.
                 and_then (map_err RelayOutput (gx_drain X t)) (\<lambda>_.
                 and_then (map_err GpgExit (gx_finish X t)) (\<lambda>_.
                   Inr (n_entries manifest)))),
                 gx_output X recipient t))))))"

section \<open>Restore\<close>

definition store_has_dirty_git_state :: "'z fs_world_scheme \<Rightarrow> bool" where
  "store_has_dirty_git_state w =
     (if \<not> (path_exists w [''.git''] \<and> is_dir w [''.git'']) then False
      else list_ex (\<lambda>m. path_exists w [''.git'', m])
        [''MERGE_HEAD'', ''CHERRY_PICK_HEAD'', ''REVERT_HEAD'', ''rebase-merge'', ''rebase-apply''])"

definition current_recipient :: "('w, 'ce, 'se, 've) store \<Rightarrow> 'w \<Rightarrow> ('ce, 'se, 've) bulk_error + str" where
  "current_recipient st w =
     and_then (map_err ReadGpgId (resolve_recipients (st_read (storage st) w) root_dummy)) (\<lambda>recipients.
       Inr (case recipients of [] \<Rightarrow> ''new key'' | k # _ \<Rightarrow> keyid_str k))"

text \<open>The closure handed to \<open>read_bundle\<close>; its state is the world and the list of touched blobs.\<close>

definition restore_entry ::
  "('w, 'ce, 'se, 've) store \<Rightarrow> bundle_entry \<Rightarrow> ('w \<times> relpath list, ('ce, 'se, 've) entry_failure bundle_error, unit) eff" where
  "restore_entry st entry s =
     (case s of (w, touched_blobs) \<Rightarrow>
       (case insert_no_commit st (be_path entry) (be_plaintext entry) w of
          (Inl e, w) \<Rightarrow> (Inl (BundleSource (be_path entry, e)), (w, touched_blobs))
        | (Inr blob, w) \<Rightarrow> (Inr (), (w, touched_blobs @ [blob]))))"

definition restore_message :: "bool \<Rightarrow> str \<Rightarrow> nat \<Rightarrow> str" where
  "restore_message in_place dest_recipient n =
     (if in_place then ''bypass: Re-encrypt store for '' @ dest_recipient
      else ''bypass: Restore '' @ show_nat n @ '' entries from backup'')"

definition restore_run ::
  "('z fs_world_scheme, 'ce, 'se, 've) store \<Rightarrow> gpg_decrypt \<Rightarrow> (str \<Rightarrow> str + manifest) \<Rightarrow> str + bytes \<Rightarrow> bool \<Rightarrow>
    ('z fs_world_scheme, ('ce, 'se, 've) bulk_error, nat) eff" where
  "restore_run st X of_toml bundle_file in_place w =
     (if \<not> path_exists w [''.gpg-id''] then (Inl NoGpgId, w)
      else
        then_eff (map_err OpenBundle bundle_file, w) (\<lambda>bundle w.
        then_eff
          (if \<not> in_place then
             then_eff (map_err BulkStore (store_list st None w), w) (\<lambda>existing w.
               if existing \<noteq> [] then (Inl (StoreNotEmpty (length existing)), w) else (Inr (), w))
           else if store_has_dirty_git_state w then (Inl DirtyGitState, w)
           else (Inr (), w)) (\<lambda>_ w.
        then_eff (map_err SpawnGpg (gd_spawn X), w) (\<lambda>_ w.
        (let (read_result, (w, touched_blobs)) = read_bundle of_toml no_pre_check (restore_entry st) (gd_archive X bundle) (w, []) in
         then_eff (map_err ReadBundle read_result, w) (\<lambda>manifest w.
         then_eff (map_err PipeBundle (gd_pump X bundle), w) (\<lambda>_ w.
         then_eff (map_err GpgExit (gd_finish X bundle), w) (\<lambda>_ w.
         then_eff
           (if touched_blobs \<noteq> [] then
              then_eff (current_recipient st w, w) (\<lambda>dest_recipient w.
                map_err_st BulkStore (commit_changes st touched_blobs (restore_message in_place dest_recipient (length touched_blobs)) w))
            else (Inr (), w)) (\<lambda>_ w.
           (Inr (n_entries manifest), w)))))))))) "

section \<open>Lemmas\<close>

definition pair_of :: "bundle_entry \<Rightarrow> relpath \<times> bytes" where
  "pair_of e = (be_path e, be_plaintext e)"

lemma pair_of_simps [simp]: "fst (pair_of e) = be_path e" "snd (pair_of e) = be_plaintext e" "pair_of e = pair_of f \<longleftrightarrow> e = f"
  by (auto simp: pair_of_def)

definition entry_wf :: "bundle_entry \<Rightarrow> bool" where
  "entry_wf e \<longleftrightarrow> entry_ok (be_path e) \<and> valid_utf8 (as_str (be_path e))"

lemma visit_stored_Cons:
  assumes "entry_wf e"
  shows "visit_members visit (map (as_stored \<circ> entry_member) (e # es)) v =
    then_eff (visit e v) (\<lambda>_ v. visit_members visit (map (as_stored \<circ> entry_member) es) v)"
proof -
  let ?n = "ENTRIES_PREFIX @ as_str (be_path e)"
  have "valid_utf8 ENTRIES_PREFIX" by code_simp
  then have v: "valid_utf8 ?n" using assms by (simp add: entry_wf_def valid_append del: valid_utf8.simps)
  have p: "relpath_new (as_str (be_path e)) = Inr (be_path e)"
    using assms relpath_new_ok [of "as_str (be_path e)"] by (simp add: entry_wf_def entry_ok_def)
  have n: "strip_prefix ENTRIES_PREFIX ?n = Some (as_str (be_path e))" by simp
  show ?thesis using v n p by (cases e) (simp add: as_stored_def entry_member_def member_name_def)
qed

text \<open>Restoring a list of entries writes them in turn.\<close>

lemma restore_members:
  assumes "\<forall>e \<in> set es. entry_wf e"
    and "visit_members (restore_entry st) (map (as_stored \<circ> entry_member) es) (w, ts) = (Inr (), (w', ts'))"
  shows "written_in_turn st (map pair_of es) w w'"
  using assms
proof (induction es arbitrary: w ts)
  case (Cons e es)
  have wf: "entry_wf e" using Cons.prems(1) by simp
  then obtain b w1 where step: "insert_no_commit st (be_path e) (be_plaintext e) w = (Inr b, w1)"
      "visit_members (restore_entry st) (map (as_stored \<circ> entry_member) es) (w1, ts @ [b]) = (Inr (), (w', ts'))"
    using Cons.prems(2) unfolding visit_stored_Cons [OF wf]
    by (auto simp: restore_entry_def then_eff_Inr_iff split: prod.splits sum.splits)
  then show ?case using step Cons.IH [OF _ step(2)] Cons.prems(1) by simp
qed simp

lemma parse_subtree_Inr: "parse_subtree subtree = Inr pre \<Longrightarrow> pre = map_option RelPath subtree"
  by (auto simp: parse_subtree_def relpath_new_def and_then_Inr_iff split: option.splits sum.splits)

lemma backup_item_Inr: "backup_item st w e = Inr be \<longleftrightarrow> be_path be = e \<and> store_show st e w = Inr (be_plaintext be)"
  by (cases be) (auto simp: backup_item_def split: sum.split)

lemma backup_writes:
  fixes st :: "('w, 'ce, 'se, 've) store"
  assumes "backup_run st X to_toml now recipient subtree w = (Inr n, out)"
  shows "\<exists>es m t. store_list st (map_option RelPath subtree) w = Inr es \<and> n = n_entries m \<and> format_version m = FORMAT_VERSION \<and>
    write_bundle (gx_sink X) to_toml m (map (backup_item st w) es) (gx_start X) = (Inr (), t) \<and> out = gx_output X recipient t"
proof (cases "parse_subtree subtree :: ('ce, 'se, 've) bulk_error + relpath option")
  case (Inl e)
  then show ?thesis using assms by (simp add: backup_run_def)
next
  case pre: (Inr pre)
  show ?thesis
  proof (cases "store_list st pre w")
    case (Inl e)
    then show ?thesis using assms pre by (simp add: backup_run_def)
  next
    case es: (Inr es)
    obtain keys where keys: "resolve_recipients (st_read (storage st) w) root_dummy = Inr keys" "es \<noteq> []"
      using assms pre es by (auto simp: backup_run_def split: sum.splits if_splits)
    define m where "m = \<lparr>format_version = FORMAT_VERSION, created_at_unix = now,
      original_recipients = map keyid_str keys, n_entries = length es mod 2 ^ 32\<rparr>"
    obtain r t where wb: "write_bundle (gx_sink X) to_toml m (map (backup_item st w) es) (gx_start X) = (r, t)"
      by (cases "write_bundle (gx_sink X) to_toml m (map (backup_item st w) es) (gx_start X)")
    have "r = Inr () \<and> n = n_entries m \<and> out = gx_output X recipient t"
      using assms pre es keys wb [unfolded m_def] by (auto simp: backup_run_def m_def Let_def and_then_Inr_iff split: sum.splits)
    moreover have "pre = map_option RelPath subtree" by (rule parse_subtree_Inr [OF pre])
    moreover have "format_version m = FORMAT_VERSION" by (simp add: m_def)
    ultimately show ?thesis using es wb by blast
  qed
qed

lemma restore_reads:
  assumes "restore_run st X of_toml (Inr bundle) in_place w = (Inr n, w')"
  shows "\<exists>m w1 touched. read_bundle of_toml no_pre_check (restore_entry st) (gd_archive X bundle) (w, []) = (Inr m, (w1, touched)) \<and>
    n = n_entries m \<and> (w' = w1 \<or> (\<exists>msg. commit_changes st touched msg w1 = (Inr (), w')))"
proof -
  obtain r w1 touched where rb: "read_bundle of_toml no_pre_check (restore_entry st) (gd_archive X bundle) (w, []) = (r, (w1, touched))"
    by (cases "read_bundle of_toml no_pre_check (restore_entry st) (gd_archive X bundle) (w, [])") auto
  show ?thesis using assms rb
    by (auto simp: restore_run_def then_eff_Inr_iff Let_def split: if_splits)
qed

text \<open>The gpg processes of the two commands undo each other, and the tar crate keeps what it is given.\<close>

definition pipeline_faithful :: "'t gpg_encrypt \<Rightarrow> gpg_decrypt \<Rightarrow> str \<Rightarrow> ('t \<Rightarrow> (str \<times> bytes) list) \<Rightarrow> bool" where
  "pipeline_faithful X Y recipient members \<longleftrightarrow> sink_faithful (gx_sink X) members \<and> members (gx_start X) = [] \<and>
     (\<forall>t. gd_archive Y (gx_output X recipient t) = Inr (map as_stored (members t)))"

lemma listed_wf:
  assumes "lawful storage_fs blobs fs_ok st" "fs_ok w" "pre_addr pre" "store_list st pre w = Inr es" "e \<in> set es"
  shows "entry_ok e \<and> valid_utf8 (as_str e)"
proof -
  have e: "relpath_ok e" "blobs w (entry_to_blob e) \<noteq> None" using fs.list_set [OF assms(1-4)] assms(5) by auto
  then have a: "addr (entry_to_blob e)" using blobs_file by blast
  then have "valid_utf8 (as_str e @ CHR ''.'' # ''gpg'')" using e(1) by (simp add: addr_def relpath_wf_def entry_to_blob_eq del: valid_utf8.simps)
  from valid_split [OF _ this] have "valid_utf8 (as_str e)" by (simp add: byte_def)
  with e a show ?thesis by (simp add: entry_ok_def)
qed

lemma backup_archive:
  assumes "backup_run st X to_toml now recipient subtree w = (Inr n, out)"
    and "pipeline_faithful X Y recipient members" "toml_faithful to_toml of_toml"
    and "lawful storage_fs blobs fs_ok st" "fs_ok w" "pre_addr (map_option RelPath subtree)"
  shows "\<exists>es bes m s. store_list st (map_option RelPath subtree) w = Inr es \<and> n = n_entries m \<and> format_version m = FORMAT_VERSION \<and>
    of_toml s = Inr m \<and> valid_utf8 s \<and>
    gd_archive Y out = Inr (as_stored (MANIFEST_NAME, s) # map (as_stored \<circ> entry_member) bes) \<and>
    (\<forall>be. be \<in> set bes \<longleftrightarrow> (\<exists>e \<in> set es. be_path be = e \<and> store_show st e w = Inr (be_plaintext be))) \<and>
    (\<forall>e \<in> set es. entry_ok e \<and> valid_utf8 (as_str e) \<and> (\<exists>be \<in> set bes. be_path be = e))"
proof -
  obtain es m t where b: "store_list st (map_option RelPath subtree) w = Inr es" "n = n_entries m" "format_version m = FORMAT_VERSION"
      "write_bundle (gx_sink X) to_toml m (map (backup_item st w) es) (gx_start X) = (Inr (), t)" "out = gx_output X recipient t"
    using backup_writes [OF assms(1)] by blast
  obtain s v1 v2 where s: "to_toml m = Inr s" "ts_append (gx_sink X) MANIFEST_NAME s (gx_start X) = (Inr (), v1)"
      "write_entries (gx_sink X) (map (backup_item st w) es) v1 = (Inr (), v2)" "ts_finish (gx_sink X) v2 = (Inr (), t)"
    using b(4) by (auto simp: write_bundle_def then_eff_Inr_iff append_member_Inr)
  have sink: "sink_faithful (gx_sink X) members" "members (gx_start X) = []"
    using assms(2) by (simp_all add: pipeline_faithful_def)
  obtain bes where bes: "map (backup_item st w) es = map Inr bes" "members v2 = members v1 @ map entry_member bes"
    using write_entries_members [OF sink(1) s(3)] by blast
  have "members t = (MANIFEST_NAME, s) # map entry_member bes"
    using sink s bes(2) by (auto simp: sink_faithful_def)
  then have arch: "gd_archive Y out = Inr (as_stored (MANIFEST_NAME, s) # map (as_stored \<circ> entry_member) bes)"
    using assms(2) b(5) by (simp add: pipeline_faithful_def)
  have item: "be \<in> set bes \<longleftrightarrow> (\<exists>e \<in> set es. be_path be = e \<and> store_show st e w = Inr (be_plaintext be))" for be
  proof -
    have "Inr be \<in> set (map (backup_item st w) es) \<longleftrightarrow> (\<exists>e \<in> set es. be_path be = e \<and> store_show st e w = Inr (be_plaintext be))"
      by (auto simp: image_iff eq_commute [of "Inr be"] backup_item_Inr)
    then show ?thesis unfolding bes(1) by auto
  qed
  have shown: "\<exists>be \<in> set bes. be_path be = e" if "e \<in> set es" for e
  proof -
    have "backup_item st w e \<in> set (map Inr bes)" using that bes(1) by (metis image_eqI list.set_map)
    then obtain be where "be \<in> set bes" "backup_item st w e = Inr be" by auto
    then show ?thesis by (auto simp: backup_item_Inr)
  qed
  have ts: "of_toml s = Inr m" "valid_utf8 s" using assms(3) s(1) by (auto simp: toml_faithful_def)
  show ?thesis
    using b(1-3) ts arch item shown listed_wf [OF assms(4-6) b(1)] by blast
qed

section \<open>Property\<close>


section \<open>Example\<close>

text \<open>A store of one entry is backed up and restored into an initialised empty one.\<close>

fun put_members :: "(str \<times> bytes) list \<Rightarrow> bytes" where
  "put_members [] = []"
| "put_members ((n, d) # t) = CHR ''m'' # put_str n @ put_str d @ put_members t"

fun get_members :: "nat \<Rightarrow> bytes \<Rightarrow> (str \<times> bytes) list" where
  "get_members 0 b = []"
| "get_members (Suc k) b =
     (if b = [] then [] else (case get_str (tl b) of (n, r) \<Rightarrow> (case get_str r of (d, r) \<Rightarrow> (n, d) # get_members k r)))"

lemma get_put_members: "length t \<le> k \<Longrightarrow> get_members k (put_members t) = t"
proof (induction t arbitrary: k rule: put_members.induct)
  case (2 n d t)
  then show ?case by (cases k) (simp_all add: get_put)
qed (case_tac k; simp)

lemma put_members_length: "length t \<le> length (put_members t)"
  by (induction t rule: put_members.induct) auto

definition demo_gpg_encrypt :: "(str \<times> bytes) list gpg_encrypt" where
  "demo_gpg_encrypt = \<lparr>gx_spawn = (\<lambda>_. Inr ()), gx_sink = list_sink, gx_start = [], gx_output = (\<lambda>_ t. put_members t),
     gx_drain = (\<lambda>_. Inr ()), gx_finish = (\<lambda>_. Inr ())\<rparr>"

definition demo_gpg_decrypt :: gpg_decrypt where
  "demo_gpg_decrypt = \<lparr>gd_spawn = Inr (), gd_archive = (\<lambda>b. Inr (map as_stored (get_members (length b) b))),
     gd_pump = (\<lambda>_. Inr ()), gd_finish = (\<lambda>_. Inr ())\<rparr>"

lemma demo_pipeline: "pipeline_faithful demo_gpg_encrypt demo_gpg_decrypt ''K1'' (\<lambda>t. t)"
  by (auto simp: pipeline_faithful_def sink_faithful_def demo_gpg_encrypt_def demo_gpg_decrypt_def list_sink_def
      get_put_members put_members_length)

definition saved_manifest :: manifest where
  "saved_manifest = \<lparr>format_version = 1, created_at_unix = 0, original_recipients = [''K1''], n_entries = 1\<rparr>"

definition saved_to_toml :: "manifest \<Rightarrow> str + str" where
  "saved_to_toml m = (if m = saved_manifest then Inr ''m'' else Inl [])"

definition saved_of_toml :: "str \<Rightarrow> str + manifest" where
  "saved_of_toml s = (if s = ''m'' then Inr saved_manifest else Inl [])"

definition source :: fs_world where
  "source = demo_world [([], Dir), ([''.gpg-id''], File (''K1'' @ [NL])), ([''a.gpg''], File ''!s1'')]"

lemma demo_encrypt_simps:
  "gx_spawn demo_gpg_encrypt = (\<lambda>_. Inr ())" "gx_sink demo_gpg_encrypt = list_sink" "gx_drain demo_gpg_encrypt = (\<lambda>_. Inr ())"
  "gx_finish demo_gpg_encrypt = (\<lambda>_. Inr ())" "gx_start demo_gpg_encrypt = []" "gx_output demo_gpg_encrypt = (\<lambda>_ t. put_members t)"
  by (simp_all add: demo_gpg_encrypt_def)

lemma demo_backup:
  "backup_run demo_store demo_gpg_encrypt saved_to_toml 0 ''K1'' None source =
     (Inr 1, put_members [(''manifest.toml'', ''m''), (''entries/a'', ''s1'')])"
proof -
  have p: "store_list demo_store None source = Inr [RelPath ''a'']"
    "resolve_recipients (st_read (storage demo_store) source) root_dummy = Inr [KeyId ''K1'']"
    "store_show demo_store (RelPath ''a'') source = Inr ''s1''"
    by code_simp+
  show ?thesis
    by (simp add: backup_run_def parse_subtree_def p [unfolded demo_simps] demo_simps demo_encrypt_simps list_sink_def write_bundle_def saved_to_toml_def saved_manifest_def
        FORMAT_VERSION_def append_member_def backup_item_def MANIFEST_NAME_def ENTRIES_PREFIX_def)
qed

definition saved_bytes :: bytes where
  "saved_bytes = put_members [(''manifest.toml'', ''m''), (''entries/a'', ''s1'')]"

lemma demo_recipient: "(rd :: relpath \<Rightarrow> fs_error + bytes option) (RelPath ''.gpg-id'') = Inr (Some (''K2'' @ [NL])) \<Longrightarrow> resolve_recipients rd root_dummy = Inr [KeyId ''K2'']"
proof -
  assume rd: "rd (RelPath ''.gpg-id'') = Inr (Some (''K2'' @ [NL]))"
  have "parent root_dummy = None" "gpg_id_path_in None = RelPath ''.gpg-id''" by code_simp+
  moreover have "parse_gpg_id (''K2'' @ [NL]) = (Inr [KeyId ''K2''] :: fs_error gpg_id_error + keyid list)" by code_simp
  ultimately show ?thesis by (simp add: resolve_recipients_def resolve_loop.simps [of rd None] rd)
qed

lemma demo_restore:
  "restore_run demo_store demo_gpg_decrypt saved_of_toml (Inr saved_bytes) False target = (Inr 1, stored ''s1'')"
proof -
  let ?e = "\<lparr>be_path = RelPath ''a'', be_plaintext = ''s1''\<rparr>"
  have wf: "entry_wf ?e" unfolding entry_wf_def by code_simp
  have p: "path_exists target [''.gpg-id'']" "store_list demo_store None target = Inr []" by code_simp+
  have u: "valid_utf8 ''m''" by code_simp
  have m: "saved_of_toml ''m'' = Inr saved_manifest" "format_version saved_manifest = FORMAT_VERSION" "n_entries saved_manifest = 1"
    by (simp_all add: saved_of_toml_def saved_manifest_def FORMAT_VERSION_def)
  have arch: "gd_archive demo_gpg_decrypt saved_bytes = Inr (as_stored (MANIFEST_NAME, ''m'') # map (as_stored \<circ> entry_member) [?e])"
    unfolding demo_gpg_decrypt_def saved_bytes_def
    by (simp del: put_members.simps add: get_put_members [OF put_members_length] MANIFEST_NAME_def entry_member_def ENTRIES_PREFIX_def)
  have rd: "read_bundle saved_of_toml no_pre_check (restore_entry demo_store) (gd_archive demo_gpg_decrypt saved_bytes) (target, []) =
      (Inr saved_manifest, (stored ''s1'', [RelPath ''a.gpg'']))"
    unfolding arch read_bundle_stored [of saved_of_toml, OF m(1) u] visit_stored_Cons [OF wf]
    using m(2) by (simp add: restore_entry_def demo_insert(1) [of "''s1''"])
  have cur: "current_recipient demo_store (stored ''s1'') = Inr ''K2''"
    using demo_recipient [of "st_read storage_fs (stored ''s1'')", OF demo_insert(3) [of "''s1''"]] by (simp add: current_recipient_def demo_simps)
  have "gd_spawn demo_gpg_decrypt = Inr ()" "gd_pump demo_gpg_decrypt saved_bytes = Inr ()" "gd_finish demo_gpg_decrypt saved_bytes = Inr ()"
    by (simp_all add: demo_gpg_decrypt_def)
  then show ?thesis
    using p rd m(3) cur by (simp add: restore_run_def commit_changes_def demo_simps no_vcs_def)
qed


end
