(* ===== verification/App_Store.thy ===== *)
theory App_Store
  imports Store_Properties Entry_Format Generate
begin

text \<open>
  The Android side (\<open>crates/bypass-ffi\<close>): the sandbox storage \<open>AppStorage\<close> (\<open>storage.rs\<close>), the bridge
  to the app's OpenPGP client (\<open>crypto.rs\<close>), the flattened error (\<open>error.rs\<close>) and the exported object
  \<open>BypassStore\<close> (\<open>lib.rs\<close>).  The sandbox holds neither symbolic links nor a git directory and is never
  refused a \<open>stat\<close>: that is \<open>app_ok\<close>, which every operation keeps.  \<open>AppStorage\<close> obeys \<open>storage_laws\<close>
  (the interpretation \<open>app\<close>), so everything proved of the store holds on the device as well.
\<close>

section \<open>The storage\<close>

datatype app_error = AppIo path io_kind | AppOutsideRoot path

definition app_absolute :: "relpath \<Rightarrow> app_error + path" where
  "app_absolute rel =
     (let abs = segments rel in if prefix ''/'' (as_str rel) then Inl (AppOutsideRoot abs) else Inr abs)"

definition app_read :: "'z fs_world_scheme \<Rightarrow> relpath \<Rightarrow> app_error + bytes option" where
  "app_read w path =
     and_then (app_absolute path) (\<lambda>abs.
       case fs_read w abs of
         Inr b \<Rightarrow> Inr (Some b)
       | Inl NotFound \<Rightarrow> Inr None
       | Inl e \<Rightarrow> Inl (AppIo abs e))"

definition app_tmp_name :: "str \<Rightarrow> nat \<Rightarrow> nat \<Rightarrow> str" where
  "app_tmp_name leaf process ns = ''.bypass.tmp.'' @ show_nat process @ ''.'' @ show_nat ns @ ''.'' @ from_utf8_lossy leaf"

definition app_tmp_path :: "path \<Rightarrow> str \<Rightarrow> 'z fs_world_scheme \<Rightarrow> path" where
  "app_tmp_path dir leaf w = dir @ [app_tmp_name leaf (pid w) (nanos w (tick w))]"

definition app_write :: "relpath \<Rightarrow> bytes \<Rightarrow> ('z fs_world_scheme, app_error, unit) eff" where
  "app_write path data w =
     then_eff (app_absolute path, w) (\<lambda>abs w.
     (let parent = butlast abs in
      then_eff (map_err_st (AppIo parent) (create_dir_all parent w)) (\<lambda>_ w.
      (let tmp = app_tmp_path parent (last abs) w in
       then_eff (map_err_st (AppIo tmp) (create_new tmp w)) (\<lambda>_ w.
       then_eff (catch_eff (then_eff (write_at tmp 0 data w) (\<lambda>_. sync_all))
                   (\<lambda>e w. (Inl (AppIo tmp e), snd (unlink tmp w)))) (\<lambda>_ w.
       then_eff (catch_eff (fs_rename tmp abs w)
                   (\<lambda>e w. (Inl (AppIo abs e), snd (unlink tmp w)))) (\<lambda>_ w.
         (Inr (), w))))))))"

definition app_remove :: "relpath \<Rightarrow> ('z fs_world_scheme, app_error, unit) eff" where
  "app_remove path w =
     then_eff (app_absolute path, w) (\<lambda>abs w.
       case unlink abs w of
         (Inr _, w) \<Rightarrow> (Inr (), w)
       | (Inl NotFound, w) \<Rightarrow> (Inr (), w)
       | (Inl e, w) \<Rightarrow> (Inl (AppIo abs e), w))"

definition app_exists :: "'z fs_world_scheme \<Rightarrow> relpath \<Rightarrow> app_error + bool" where
  "app_exists w path = and_then (app_absolute path) (\<lambda>abs. Inr (path_exists w abs))"

definition app_rel_of :: "path \<Rightarrow> relpath option" where
  "app_rel_of q =
     (let s = join_with ''/'' q in
      if \<not> valid_utf8 s then None
      else (case relpath_new s of Inr rp \<Rightarrow> Some rp | Inl _ \<Rightarrow> None))"

function app_walk :: "'z fs_world_scheme \<Rightarrow> path \<Rightarrow> relpath list \<Rightarrow> app_error + relpath list" where
  "app_walk w dir out =
     and_then (map_err (AppIo dir) (fs_read_dir w dir)) (\<lambda>entries.
       try_each (\<lambda>path out.
         case node_at w path of
           Some Dir \<Rightarrow> app_walk w path out
         | Some (File _) \<Rightarrow> (case app_rel_of path of Some rp \<Rightarrow> Inr (out @ [rp]) | None \<Rightarrow> Inr out)
         | _ \<Rightarrow> Inr out) entries out)"
  by pat_completeness auto
termination
proof (relation "measure (\<lambda>(w, dir, _). Suc (max_depth w) - length dir)", goal_cases)
  case (2 w dir out entries path out')
  then have "path \<noteq> []" "butlast path = dir" "node_at w path \<noteq> None"
    using fs_read_dir_Inr [of w dir entries] children_iff [of path w dir] by simp_all
  moreover from this have "length path = Suc (length dir)" by auto
  ultimately show ?case using length_le_max_depth [of w path] by simp
qed simp

declare app_walk.simps [simp del]

definition app_list :: "'z fs_world_scheme \<Rightarrow> relpath option \<Rightarrow> app_error + relpath list" where
  "app_list w pre =
     and_then (case pre of Some p \<Rightarrow> app_absolute p | None \<Rightarrow> Inr []) (\<lambda>start.
       if \<not> path_exists w start then Inr [] else app_walk w start [])"

definition app_storage :: "('z fs_world_scheme, app_error) storage_impl" where
  "app_storage = \<lparr>st_read = app_read, st_write = app_write, st_remove = app_remove,
                 st_exists = app_exists, st_list = app_list\<rparr>"

section \<open>The exported object\<close>

datatype bypass_error =
    FfiNotFound str
  | FfiAlreadyExists str
  | FfiInvalidPath str
  | FfiNotInitialized
  | FfiGpgIdMalformed str
  | FfiCrypto str
  | FfiStorage str
  | FfiInternal str

text \<open>\<open>to_string\<close> of the error.\<close>

fun show_bypass_error :: "bypass_error \<Rightarrow> str" where
  "show_bypass_error (FfiNotFound path) = ''entry not found: '' @ path"
| "show_bypass_error (FfiAlreadyExists path) = ''entry already exists: '' @ path"
| "show_bypass_error (FfiInvalidPath reason) = ''invalid entry path: '' @ reason"
| "show_bypass_error FfiNotInitialized = ''store not initialised; call `init` first''"
| "show_bypass_error (FfiGpgIdMalformed reason) = ''malformed .gpg-id: '' @ reason"
| "show_bypass_error (FfiCrypto reason) = ''crypto error: '' @ reason"
| "show_bypass_error (FfiStorage reason) = ''storage error: '' @ reason"
| "show_bypass_error (FfiInternal reason) = ''internal error: '' @ reason"

definition from_store_error ::
  "('ce \<Rightarrow> str) \<Rightarrow> ('se \<Rightarrow> str) \<Rightarrow> ('ve \<Rightarrow> str) \<Rightarrow> ('ce, 'se, 've) store_error \<Rightarrow> bypass_error" where
  "from_store_error show_ce show_se show_ve e =
     (case e of
        StoreNotFound path \<Rightarrow> FfiNotFound path
      | StoreAlreadyExists path \<Rightarrow> FfiAlreadyExists path
      | NotInitialized \<Rightarrow> FfiNotInitialized
      | GpgIdMalformed m \<Rightarrow> FfiGpgIdMalformed m
      | CryptoErr source \<Rightarrow> FfiCrypto (show_ce source)
      | StorageErr source \<Rightarrow> FfiStorage (show_se source)
      | VcsErr source \<Rightarrow> FfiInternal (''vcs: '' @ show_ve source))"

text \<open>The callback interface Kotlin implements, and the adapter that makes it a \<open>Crypto\<close>.\<close>

record 'w crypto_callback =
  cb_encrypt :: "bytes \<Rightarrow> str list \<Rightarrow> ('w, bypass_error, bytes) eff"
  cb_decrypt :: "'w \<Rightarrow> bytes \<Rightarrow> bypass_error + bytes"

definition callback_encrypt :: "'w crypto_callback \<Rightarrow> bytes \<Rightarrow> keyid list \<Rightarrow> ('w, bypass_error, bytes) eff" where
  "callback_encrypt cb plaintext recipients = cb_encrypt cb plaintext (map keyid_str recipients)"

definition callback_decrypt :: "'w crypto_callback \<Rightarrow> 'w \<Rightarrow> bytes \<Rightarrow> bypass_error + bytes" where
  "callback_decrypt cb w ciphertext = and_then (cb_decrypt cb w ciphertext) Inr"

text \<open>An open store: the callback, the texts of the error types from elsewhere, and whether the mutex is
  poisoned by an earlier panic.\<close>

record 'w bypass_store =
  bs_crypto :: "'w crypto_callback"
  bs_poisoned :: bool
  bs_show_storage :: "app_error \<Rightarrow> str"
  bs_show_path :: "path_error \<Rightarrow> str"

type_synonym 'z app_store = "('z fs_world_scheme, bypass_error, app_error, unit) store"

definition ffi_open :: "'z fs_world_scheme bypass_store \<Rightarrow> 'z app_store" where
  "ffi_open B = \<lparr>crypto = \<lparr>cr_encrypt = callback_encrypt (bs_crypto B), cr_decrypt = callback_decrypt (bs_crypto B)\<rparr>,
     storage = app_storage, vcs = no_vcs\<rparr>"

definition ffi_lock :: "'w bypass_store \<Rightarrow> bypass_error + unit" where
  "ffi_lock B = (if bs_poisoned B then Inl (FfiInternal ''store mutex poisoned by a prior panic'') else Inr ())"

definition ffi_parse_path :: "'w bypass_store \<Rightarrow> str \<Rightarrow> bypass_error + relpath" where
  "ffi_parse_path B s = map_err (\<lambda>e. FfiInvalidPath (bs_show_path B e)) (relpath_new s)"

definition ffi_error :: "'w bypass_store \<Rightarrow> (bypass_error, app_error, unit) store_error \<Rightarrow> bypass_error" where
  "ffi_error B = from_store_error show_bypass_error (bs_show_storage B) (\<lambda>_. [])"

type_synonym ('z, 'a) ffi_op = "('z fs_world_scheme, bypass_error, 'a) eff"

definition ffi_init :: "'z fs_world_scheme bypass_store \<Rightarrow> str list \<Rightarrow> ('z, unit) ffi_op" where
  "ffi_init B recipients w =
     (let keys = map KeyId recipients in
      then_eff (ffi_lock B, w) (\<lambda>_ w. map_err_st (ffi_error B) (store_init (ffi_open B) keys w)))"

definition ffi_insert :: "'z fs_world_scheme bypass_store \<Rightarrow> str \<Rightarrow> bytes \<Rightarrow> bool \<Rightarrow> ('z, unit) ffi_op" where
  "ffi_insert B path plaintext overwrite w =
     then_eff (ffi_parse_path B path, w) (\<lambda>e w.
     then_eff (ffi_lock B, w) (\<lambda>_ w.
       map_err_st (ffi_error B) (store_insert (ffi_open B) e plaintext overwrite w)))"

definition ffi_show :: "'z fs_world_scheme bypass_store \<Rightarrow> str \<Rightarrow> 'z fs_world_scheme \<Rightarrow> bypass_error + bytes" where
  "ffi_show B path w =
     and_then (ffi_parse_path B path) (\<lambda>e.
     and_then (ffi_lock B) (\<lambda>_. map_err (ffi_error B) (store_show (ffi_open B) e w)))"

fun show_entry_error :: "entry_error \<Rightarrow> str" where
  "show_entry_error EntryNotUtf8 = ''entry contents are not valid UTF-8''"

definition ffi_show_field ::
  "(str \<Rightarrow> str) \<Rightarrow> 'z fs_world_scheme bypass_store \<Rightarrow> str \<Rightarrow> str \<Rightarrow> 'z fs_world_scheme \<Rightarrow> bypass_error + str" where
  "ffi_show_field uni B path fld w =
     and_then (ffi_parse_path B path) (\<lambda>e.
     and_then (ffi_lock B) (\<lambda>_.
     and_then (map_err (ffi_error B) (store_show (ffi_open B) e w)) (\<lambda>plaintext.
     and_then (map_err (\<lambda>e. FfiInternal (''parse entry body: '' @ show_entry_error e)) (parse_entry_bytes uni plaintext)) (\<lambda>parsed.
       case field uni parsed fld of Some v \<Rightarrow> Inr v | None \<Rightarrow> Inl (FfiNotFound (path @ ''#'' @ fld))))))"

definition ffi_ls :: "'z fs_world_scheme bypass_store \<Rightarrow> str option \<Rightarrow> 'z fs_world_scheme \<Rightarrow> bypass_error + str list" where
  "ffi_ls B subpath w =
     and_then (case subpath of None \<Rightarrow> Inr None | Some s \<Rightarrow> map_sum id Some (ffi_parse_path B s)) (\<lambda>sub.
     and_then (ffi_lock B) (\<lambda>_.
     and_then (map_err (ffi_error B) (store_list (ffi_open B) sub w)) (\<lambda>entries. Inr (map as_str entries))))"

definition ffi_find :: "'z fs_world_scheme bypass_store \<Rightarrow> str \<Rightarrow> 'z fs_world_scheme \<Rightarrow> bypass_error + str list" where
  "ffi_find B pattern w =
     and_then (ffi_lock B) (\<lambda>_.
     and_then (map_err (ffi_error B) (store_find (ffi_open B) pattern w)) (\<lambda>entries. Inr (map as_str entries)))"

definition ffi_generate ::
  "'z fs_world_scheme bypass_store \<Rightarrow> (nat \<Rightarrow> nat \<Rightarrow> nat) \<Rightarrow> str \<Rightarrow> nat option \<Rightarrow> bool option \<Rightarrow> bool \<Rightarrow> bool \<Rightarrow> ('z, str) ffi_op" where
  "ffi_generate B rng path len symbols in_place force w =
     then_eff (ffi_parse_path B path, w) (\<lambda>e w.
     (let password = generate rng (unwrap_or DEFAULT_LENGTH len) (unwrap_or True symbols) in
      then_eff (ffi_lock B, w) (\<lambda>_ w.
      then_eff
        (if in_place then
           then_eff (map_err (ffi_error B) (store_show (ffi_open B) e w), w) (\<lambda>existing w.
           (let tail = dropWhile (\<lambda>b. b \<noteq> NL) existing; new_body = password @ tail in
            map_err_st (ffi_error B) (store_insert (ffi_open B) e new_body True w)))
         else map_err_st (ffi_error B) (store_insert (ffi_open B) e password force w))
        (\<lambda>_ w. (Inr password, w)))))"

fun show_otp_error :: "otp_error \<Rightarrow> str" where
  "show_otp_error NoOtpauthUri = ''entry does not contain an `otpauth://` URI''"
| "show_otp_error (ParseUri e) = ''failed to parse otpauth URI: '' @ e"
| "show_otp_error (GenerateCode e) = ''failed to compute TOTP code: '' @ e"

definition ffi_otp :: "(str \<Rightarrow> otp_error + str) \<Rightarrow> 'z fs_world_scheme bypass_store \<Rightarrow> str \<Rightarrow> 'z fs_world_scheme \<Rightarrow> bypass_error + str" where
  "ffi_otp totp B path w =
     and_then (ffi_parse_path B path) (\<lambda>e.
     and_then (ffi_lock B) (\<lambda>_.
     and_then (map_err (ffi_error B) (store_show (ffi_open B) e w)) (\<lambda>plaintext.
       case from_utf8 plaintext of None \<Rightarrow> Inl (FfiInternal ''entry is not valid UTF-8'')
       | Some text \<Rightarrow> map_err (\<lambda>e. FfiInternal (''compute TOTP code: '' @ show_otp_error e)) (totp text))))"

definition ffi_rm :: "'z fs_world_scheme bypass_store \<Rightarrow> str \<Rightarrow> bool \<Rightarrow> ('z, unit) ffi_op" where
  "ffi_rm B path recursive w =
     then_eff (ffi_parse_path B path, w) (\<lambda>e w.
     then_eff (ffi_lock B, w) (\<lambda>_ w.
       map_err_st (ffi_error B)
         (if recursive then then_eff (remove_recursive (ffi_open B) e w) (\<lambda>_ w. (Inr (), w)) else store_remove (ffi_open B) e w)))"

section \<open>The sandbox\<close>

definition app_ok :: "'z fs_world_scheme \<Rightarrow> bool" where
  "app_ok w \<longleftrightarrow> fs_ok w \<and> no_stat w = (\<lambda>_. False) \<and>
     (\<forall>p n. node_at w p = Some n \<longrightarrow> list_all seg_addr p \<and> (\<forall>t. n \<noteq> Link t))"

definition app_tmp :: "relpath \<Rightarrow> bool" where
  "app_tmp p \<longleftrightarrow> (\<exists>dir leaf a b. segments p = dir @ [app_tmp_name leaf a b])"

lemma app_ok_fs: "app_ok w \<Longrightarrow> fs_ok w"
  by (simp add: app_ok_def)

lemma app_absolute_addr:
  assumes "addr p" shows "app_absolute p = Inr (segments p)"
proof -
  have "[] \<notin> set (segments p)" using assms by (auto simp: addr_iff list_all_iff seg_addr_def seg_ok_def)
  then show ?thesis using leading_slash [of "as_str p"] by (auto simp: app_absolute_def Let_def segments_def)
qed

lemma no_stat_off: "off_tree no_stat"
  by (simp add: off_tree_def)

lemmas no_stat_keeps [simp] = keep_put [OF no_stat_off] keep_del [OF no_stat_off] keep_tick [OF no_stat_off]
  keep_calls [OF no_stat_off] keep_create_dir_all [OF no_stat_off]

lemmas no_stat_intros = keep_then [where g = no_stat] keep_catch [where g = no_stat]

lemma no_stat_app_write: "no_stat (snd (app_write p d w)) = no_stat w"
  unfolding app_write_def Let_def by (intro no_stat_intros) simp_all

lemma no_stat_app_remove: "no_stat (snd (app_remove p w)) = no_stat w"
proof (cases "app_absolute p")
  case (Inr q)
  then show ?thesis using keep_calls(5) [OF no_stat_off, of q w]
    by (cases "unlink q w") (auto simp: app_remove_def split: sum.split io_kind.split)
qed (simp add: app_remove_def)

subsection \<open>Writing and removing\<close>

lemma app_tmp_name_addr:
  assumes "seg_addr x" shows "seg_addr (app_tmp_name x a b) \<and> app_tmp_name x a b \<noteq> x"
proof -
  have nm: "app_tmp_name x a b = (''.bypass.tmp.'' @ show_nat a @ ''.'' @ show_nat b @ ''.'') @ x @ []"
    using assms by (simp add: app_tmp_name_def seg_addr_def)
  have "plain (''.bypass.tmp.'' @ show_nat a @ ''.'' @ show_nat b @ ''.'')"
    using plain_nat [of a] plain_nat [of b] by (auto simp: plain_def byte_def)
  from affix_addr [OF assms this, of "[]"] show ?thesis unfolding nm by (simp add: plain_def)
qed

lemma app_ok_grown: "app_ok w \<Longrightarrow> grown w v \<Longrightarrow> node_at v p = Some n \<Longrightarrow> list_all seg_addr p \<and> (\<forall>t. n \<noteq> Link t)"
  unfolding app_ok_def grown_def by (metis node.distinct(5) option.distinct(1) option.inject)

lemma app_write_post:
  fixes w :: "'z fs_world_scheme"
  assumes "app_ok w" "addr p"
  shows "eff_post (app_write p d w) (\<lambda>_ w'. app_ok w' \<and> blobs w' = (blobs w)(p \<mapsto> d))
    (\<lambda>_ w'. app_ok w' \<and> (\<forall>q. \<not> app_tmp q \<longrightarrow> blobs w' q = blobs w q))"
proof -
  let ?p = "segments p"
  have segs: "list_all seg_addr ?p" using assms(2) by (simp add: addr_iff)
  have name: "\<exists>x. app_tmp_path (butlast ?p) (last ?p) v = butlast ?p @ [x] \<and> seg_addr x \<and> x \<noteq> last ?p" for v :: "'z fs_world_scheme"
    using app_tmp_name_addr list_all_last [OF segs] by (auto simp: app_tmp_path_def)
  have st: "no_stat x = (\<lambda>_. False)" if "x = snd (app_write p d w)" for x
    using that no_stat_app_write [of p d w] assms(1) by (simp add: app_ok_def)
  have "eff_post (app_write p d w)
     (\<lambda>_ w'. fs_ok w' \<and> (\<exists>v. grown w v \<and> node_at w' = (node_at v)(?p \<mapsto> File d)))
     (\<lambda>_ w'. fs_ok w' \<and> (\<exists>v. grown w v \<and> (\<forall>q. node_at w' q = node_at v q \<or>
        (\<exists>u :: 'z fs_world_scheme. q = app_tmp_path (butlast ?p) (last ?p) u) \<and> file_or_none (node_at w' q))))"
    unfolding app_write_def app_absolute_addr [OF assms(2)] then_eff_simps Let_def
    by (rule atomic_write_post [OF app_ok_fs [OF assms(1)] segs segments_not_Nil name])
  note post = eff_postD [OF this] eff_postD_err [OF this]
  show ?thesis
  proof (rule eff_postI)
    fix a w' assume run: "app_write p d w = (Inr a, w')"
    from post(1) [OF this] obtain v where v: "fs_ok w'" "grown w v" "node_at w' = (node_at v)(?p \<mapsto> File d)" by blast
    have "list_all seg_addr q \<and> (\<forall>t. n \<noteq> Link t)" if "node_at w' q = Some n" for q n
      using that app_ok_grown [OF assms(1) v(2), of q n] segs v(3) by (cases "q = ?p") auto
    then show "app_ok w' \<and> blobs w' = (blobs w)(p \<mapsto> d)"
      using v(1) st [of w'] run blobs_put [OF assms(2) v(3)] v(2) by (simp add: app_ok_def grown_blobs)
  next
    fix e w' assume run: "app_write p d w = (Inl e, w')"
    from post(2) [OF this] obtain v where v: "fs_ok w'" "grown w v"
        "\<And>q. node_at w' q = node_at v q \<or> (\<exists>u :: 'z fs_world_scheme. q = app_tmp_path (butlast ?p) (last ?p) u) \<and> file_or_none (node_at w' q)"
      by blast
    have "list_all seg_addr q \<and> (\<forall>t. n \<noteq> Link t)" if n: "node_at w' q = Some n" for q n
      using v(3) [of q]
    proof
      assume "node_at w' q = node_at v q"
      then show ?thesis using n app_ok_grown [OF assms(1) v(2), of q n] by simp
    next
      assume t: "(\<exists>u :: 'z fs_world_scheme. q = app_tmp_path (butlast ?p) (last ?p) u) \<and> file_or_none (node_at w' q)"
      then obtain x where "q = butlast ?p @ [x]" "seg_addr x" using name by blast
      then have "list_all seg_addr q" using list_all_last [OF segs] by simp
      then show ?thesis using t n by (auto simp: file_or_none_def)
    qed
    moreover have "blobs w' q = blobs w q" if q: "\<not> app_tmp q" for q
    proof -
      have "node_at w' (segments q) = node_at v (segments q)"
        using v(3) [of "segments q"] q by (auto simp: app_tmp_def app_tmp_path_def)
      then have "blobs w' q = blobs v q" by (simp add: blobs_def)
      then show ?thesis using v(2) by (simp add: grown_blobs)
    qed
    ultimately show "app_ok w' \<and> (\<forall>q. \<not> app_tmp q \<longrightarrow> blobs w' q = blobs w q)"
      using v(1) st [of w'] run by (simp add: app_ok_def)
  qed
qed

lemma app_remove_post:
  assumes "app_ok w" "addr p"
  shows "eff_post (app_remove p w) (\<lambda>_ w'. app_ok w' \<and> blobs w' = (blobs w)(p := None))
    (\<lambda>_ w'. app_ok w' \<and> (\<forall>q. q \<noteq> p \<longrightarrow> blobs w' q = blobs w q))"
proof -
  have st: "no_stat x = (\<lambda>_. False)" if "x = snd (app_remove p w)" for x
    using that no_stat_app_remove [of p w] assms(1) by (simp add: app_ok_def)
  have keep: "app_ok w'" if "fs_ok w'" "node_at w' = node_at w \<or> node_at w' = (node_at w)(q := None)" "no_stat w' = (\<lambda>_. False)" for w' q
    unfolding app_ok_def
  proof (intro conjI allI impI)
    fix x n t assume "node_at w' x = Some n"
    then have "node_at w x = Some n" using that(2) by (auto split: if_split_asm)
    then show "list_all seg_addr x" "n \<noteq> Link t" using assms(1) unfolding app_ok_def by blast+
  qed (use that in simp_all)
  obtain r v where u: "unlink (segments p) w = (r, v)" by (cases "unlink (segments p) w")
  have sv: "no_stat v = (\<lambda>_. False)" using keep_calls(5) [OF no_stat_off, of "segments p" w] u assms(1) by (simp add: app_ok_def)
  show ?thesis
  proof (cases r)
    case (Inr x)
    then have v: "fs_ok v" "node_at v = (node_at w)(segments p := None)"
      using eff_postD [OF unlink_post [OF app_ok_fs [OF assms(1)]]] u by blast+
    show ?thesis
      unfolding app_remove_def app_absolute_addr [OF assms(2)] then_eff_simps u Inr
      using keep [OF v(1) disjI2 [OF v(2)] sv] blobs_del [OF v(2)] by (simp add: eff_post_simps)
  next
    case (Inl e)
    then have v: "fs_ok v" "node_at v = node_at w"
      using eff_postD_err [OF unlink_post [OF app_ok_fs [OF assms(1)]]] u by blast+
    have "blobs w p = None" if "e = NotFound"
    proof -
      have "node_at w (segments p) = None"
        using u Inl that by (auto simp: unlink_def attempt_def split: if_splits option.splits node.splits)
      then show ?thesis by (simp add: blobs_def)
    qed
    then have "blobs v = (blobs w)(p := None)" if "e = NotFound" using that blobs_cong [OF v(2)] by auto
    then show ?thesis
      unfolding app_remove_def app_absolute_addr [OF assms(2)] then_eff_simps u Inl
      using keep [OF v(1) disjI1 [OF v(2)] sv] blobs_cong [OF v(2)] by (cases e) (simp_all add: eff_post_simps)
  qed
qed

subsection \<open>Reading and listing\<close>

lemma app_read_law: "addr p \<Longrightarrow> app_read w p = Inr r \<Longrightarrow> r = blobs w p"
  using fs_read_Inr [of w "segments p"] fs_read_NotFound [of w "segments p"]
  by (auto simp: app_read_def app_absolute_addr blobs_def split: sum.splits io_kind.splits)

lemma app_path_exists: "app_ok w \<Longrightarrow> path_exists w p \<longleftrightarrow> node_at w p \<noteq> None"
  by (auto simp: path_exists_def lstat_def app_ok_def split: option.split)

lemma app_exists_law:
  assumes "app_ok w" "addr p" "app_exists w p = Inr found" "blobs w p \<noteq> None" shows found
  using assms by (auto simp: app_exists_def app_absolute_addr app_path_exists blobs_def)

text \<open>On a sandbox the walk meets what the CLI's walk meets.\<close>

definition app_of :: "fs_error \<Rightarrow> app_error" where
  "app_of e = (case e of IoAt p k \<Rightarrow> AppIo p k | OutsideRoot p \<Rightarrow> AppOutsideRoot p | SymlinkInStore p \<Rightarrow> AppIo p OtherIo | NoStoreRoot \<Rightarrow> AppIo [] OtherIo)"

lemma try_each_map_err:
  "(\<And>x s. x \<in> set xs \<Longrightarrow> f x s = map_err c (g x s)) \<Longrightarrow> try_each f xs s = map_err c (try_each g xs s)"
proof (induction xs arbitrary: s)
  case (Cons x xs)
  then show ?case by (cases "g x s") simp_all
qed simp

lemma app_walk_eq: "app_ok w \<Longrightarrow> app_walk w dir out = map_err app_of (walk w dir out)"
proof (induction w dir out rule: app_walk.induct)
  case (1 w dir out)
  show ?case
  proof (cases "fs_read_dir w dir")
    case (Inl e)
    then show ?thesis by (simp add: app_walk.simps [of w dir] walk.simps [of w dir] app_of_def)
  next
    case (Inr es)
    then have es: "es = children w dir" using fs_read_dir_Inr by blast
    show ?thesis
      unfolding app_walk.simps [of w dir] walk.simps [of w dir] Inr map_err_simps and_then_simps
    proof (rule try_each_map_err)
      fix q s assume q: "q \<in> set es"
      then have q': "q \<noteq> []" "node_at w q \<noteq> None" using es by (simp_all add: children_iff)
      then have segs: "list_all seg_addr q" using "1.prems" by (auto simp: app_ok_def)
      then have ng: "last q \<noteq> ''.git''" using list_all_last [OF segs] q'(1) by (simp add: seg_addr_def)
      have r: "rel_of q = Some (RelPath (join_with ''/'' q)) \<and> segments (RelPath (join_with ''/'' q)) = q"
        by (rule rel_of_addr [OF segs q'(1)])
      then have "addr (RelPath (join_with ''/'' q))" using segs by (simp add: addr_iff)
      then have "app_rel_of q = rel_of q" using r by (simp add: app_rel_of_def addr_def relpath_wf_def relpath_new_ok)
      moreover have "app_walk w q s = map_err app_of (walk w q s)" if "node_at w q = Some Dir"
        by (rule "1.IH" [OF _ q that refl "1.prems"]) (simp add: Inr)
      ultimately show "(case node_at w q of None \<Rightarrow> Inr s | Some (File x) \<Rightarrow> (case app_rel_of q of None \<Rightarrow> Inr s | Some rp \<Rightarrow> Inr (s @ [rp]))
            | Some (Link y) \<Rightarrow> Inr s | Some Dir \<Rightarrow> app_walk w q s) =
          map_err app_of (if last q = ''.git'' then Inr s else (case node_at w q of None \<Rightarrow> Inr s
            | Some (File x) \<Rightarrow> (case rel_of q of None \<Rightarrow> Inr s | Some rp \<Rightarrow> Inr (s @ [rp])) | Some (Link y) \<Rightarrow> Inr s | Some Dir \<Rightarrow> walk w q s))"
        using ng by (auto split: option.split node.split)
    qed
  qed
qed

lemma app_list_law:
  assumes "app_ok w" "pre_addr pre" "app_list w pre = Inr ps"
  shows "set ps = {p. blobs w p \<noteq> None \<and> under pre p}"
proof -
  let ?d = "case pre of None \<Rightarrow> [] | Some d \<Rightarrow> segments d"
  have fs: "fs_ok w" by (rule app_ok_fs [OF assms(1)])
  have d: "(case pre of Some p \<Rightarrow> app_absolute p | None \<Rightarrow> Inr []) = Inr ?d"
    using assms(2) by (auto simp: pre_addr_def app_absolute_addr split: option.splits)
  have u: "under pre p \<longleftrightarrow> strict_prefix ?d (segments p)" for p
    using segments_not_Nil [of p] by (auto simp: under_def strict_prefix_def eq_commute [of "[]"] split: option.split)
  have ng: "''.git'' \<notin> set ?d" using assms(2) by (auto simp: pre_addr_def addr_def split: option.splits)
  have run: "(if \<not> path_exists w ?d then Inr [] else app_walk w ?d []) = Inr ps"
    using assms(3) unfolding app_list_def d by simp
  show ?thesis
  proof (cases "path_exists w ?d")
    case True
    then obtain "walk w ?d [] = Inr ps" using run app_walk_eq [OF assms(1), of ?d "[]"] by (cases "walk w ?d []") simp_all
    from walk_set [OF fs ng this] show ?thesis by (simp add: u)
  next
    case False
    then have none: "node_at w ?d = None" using app_path_exists [OF assms(1), of ?d] by simp
    have "\<not> strict_prefix ?d (segments p)" if b: "blobs w p \<noteq> None" for p
    proof
      assume "strict_prefix ?d (segments p)"
      moreover obtain b where "node_at w (segments p) = Some (File b)" using b blobs_file by blast
      ultimately show False
        using prefix_node [OF fs, of "segments p" ?d] none by (auto simp: is_dir_def strict_prefix_def)
    qed
    with False run show ?thesis by (auto simp: u)
  qed
qed

interpretation app: storage_laws app_storage blobs app_ok app_tmp
proof
  fix w :: "'a fs_world_scheme" and p b r d u w' e found pre ps
  show "blobs w p = Some b \<Longrightarrow> addr p" by (simp add: blobs_def split: if_splits)
  show "app_ok w \<Longrightarrow> addr p \<Longrightarrow> st_read app_storage w p = Inr r \<Longrightarrow> r = blobs w p"
    by (simp add: app_storage_def app_read_law)
  show "app_ok w \<Longrightarrow> addr p \<Longrightarrow> st_write app_storage p d w = (Inr u, w') \<Longrightarrow> app_ok w' \<and> blobs w' = (blobs w)(p \<mapsto> d)"
    using eff_postD [OF app_write_post] by (simp add: app_storage_def)
  show "app_ok w \<Longrightarrow> addr p \<Longrightarrow> st_write app_storage p d w = (Inl e, w') \<Longrightarrow>
      app_ok w' \<and> (\<forall>q. \<not> app_tmp q \<longrightarrow> blobs w' q = blobs w q)"
    using eff_postD_err [OF app_write_post] by (simp add: app_storage_def)
  show "app_ok w \<Longrightarrow> addr p \<Longrightarrow> st_remove app_storage p w = (Inr u, w') \<Longrightarrow> app_ok w' \<and> blobs w' = (blobs w)(p := None)"
    using eff_postD [OF app_remove_post] by (simp add: app_storage_def)
  show "app_ok w \<Longrightarrow> addr p \<Longrightarrow> st_remove app_storage p w = (Inl e, w') \<Longrightarrow>
      app_ok w' \<and> (\<forall>q. q \<noteq> p \<longrightarrow> blobs w' q = blobs w q)"
    using eff_postD_err [OF app_remove_post] by (simp add: app_storage_def)
  show "app_ok w \<Longrightarrow> addr p \<Longrightarrow> st_exists app_storage w p = Inr found \<Longrightarrow> blobs w p \<noteq> None \<Longrightarrow> found"
    using app_exists_law [of w p found] by (simp add: app_storage_def)
  show "app_ok w \<Longrightarrow> pre_addr pre \<Longrightarrow> st_list app_storage w pre = Inr ps \<Longrightarrow>
      set ps = {p. blobs w p \<noteq> None \<and> under pre p}"
    by (simp add: app_storage_def app_list_law)
qed

section \<open>Properties\<close>

lemma ffi_store [simp]: "storage (ffi_open B) = app_storage" "vcs (ffi_open B) = no_vcs"
  by (simp_all add: ffi_open_def)

lemma ffi_lawful: "crypto_quiet blobs app_ok (crypto (ffi_open B)) \<Longrightarrow> lawful app_storage blobs app_ok (ffi_open B)"
  by (simp add: lawful_def vcs_quiet_def quiet_def no_vcs_def)

lemma ffi_path: "ffi_parse_path B path = Inr e \<Longrightarrow> e = RelPath path"
  by (auto simp: ffi_parse_path_def relpath_new_def and_then_Inr_iff)

text \<open>What an insert leaves is what \<open>show\<close> finds.\<close>

lemma app_insert_show:
  assumes "lawful app_storage blobs app_ok st" "crypto_sound (crypto st) can_read" "app_ok w" "entry_ok e"
    and "\<And>rs. resolve_for st e w = Inr rs \<Longrightarrow> can_read w' rs"
    and "store_insert st e pt overwrite w = (Inr (), w')" "st_read app_storage w' (entry_to_blob e) = Inr r"
  shows "store_show st e w' = Inr pt"
proof -
  from eff_postD [OF app.insert_post [OF assms(1,3,4)] assms(6)]
  obtain rs ct w1 where i: "app_ok w'" "resolve_for st e w = Inr rs" "cr_encrypt (crypto st) pt rs w = (Inr ct, w1)"
      "blobs w' = (blobs w)(entry_to_blob e \<mapsto> ct)" by auto
  have sto: "storage st = app_storage" using assms(1) by (simp add: lawful_def)
  have "st_read (storage st) w' (entry_to_blob e) = Inr (Some ct)"
    using app.read_step [OF assms(1) i(1) entry_ok_blob [OF assms(4)]] assms(7) i(4) sto by auto
  moreover have "cr_decrypt (crypto st) w' ct = Inr pt"
    using assms(2,5) i(2,3) unfolding crypto_sound_def by blast
  ultimately show ?thesis by (simp add: store_show_def)
qed

lemma ffi_show_step:
  assumes "ffi_parse_path B path = Inr e" "ffi_lock B = Inr ()"
  shows "ffi_show B path w = map_err (ffi_error B) (store_show (ffi_open B) (RelPath path) w)"
  using assms ffi_path [OF assms(1)] by (simp add: ffi_show_def)

text \<open>C28. The Android facade: with an OpenPGP client whose ciphertexts decrypt for those who can read for the
  resolved recipients and that leaves the files alone, an \<open>insert\<close> that returns makes \<open>show\<close> return exactly
  the given bytes; a \<open>generate\<close> that returns a password has stored exactly that password, and with
  \<open>in_place\<close> that password followed by everything the old body had from its first line end on.\<close>

theorem ffi_stores_what_it_says:
  assumes "crypto_sound (crypto (ffi_open B)) can_read" "crypto_quiet blobs app_ok (crypto (ffi_open B))"
    and "app_ok w" "entry_ok (RelPath path)"
    and "\<And>rs. resolve_for (ffi_open B) (RelPath path) w = Inr rs \<Longrightarrow> can_read w' rs"
    and "st_read app_storage w' (entry_to_blob (RelPath path)) = Inr r"
  shows "(ffi_insert B path pt overwrite w = (Inr (), w') \<longrightarrow> ffi_show B path w' = Inr pt) \<and>
    (ffi_generate B rng path len symbols in_place force w = (Inr pw, w') \<longrightarrow>
       (\<exists>tl. ffi_show B path w' = Inr (pw @ tl) \<and>
         (if in_place then \<exists>old. ffi_show B path w = Inr old \<and> tl = dropWhile (\<lambda>b. b \<noteq> NL) old else tl = []) \<and>
         pw = generate rng (unwrap_or DEFAULT_LENGTH len) (unwrap_or True symbols)))"
proof -
  have put: "store_show (ffi_open B) (RelPath path) w' = Inr x" if "store_insert (ffi_open B) (RelPath path) x ow w = (Inr (), w')" for x ow
    by (rule app_insert_show [OF ffi_lawful [OF assms(2)] assms(1,3,4) _ that assms(6)]) (rule assms(5))
  show ?thesis
  proof (intro conjI impI)
    assume "ffi_insert B path pt overwrite w = (Inr (), w')"
    then obtain e where e: "ffi_parse_path B path = Inr e" "ffi_lock B = Inr ()"
        "store_insert (ffi_open B) (RelPath path) pt overwrite w = (Inr (), w')"
      using ffi_path by (fastforce simp: ffi_insert_def then_eff_Inr_iff)
    from ffi_show_step [OF e(1,2)] put [OF e(3)] show "ffi_show B path w' = Inr pt" by simp
  next
    let ?pw = "generate rng (unwrap_or DEFAULT_LENGTH len) (unwrap_or True symbols)"
    assume gen: "ffi_generate B rng path len symbols in_place force w = (Inr pw, w')"
    then obtain e where e: "ffi_parse_path B path = Inr e" "ffi_lock B = Inr ()" "pw = ?pw"
      by (auto simp: ffi_generate_def then_eff_Inr_iff Let_def)
    have sh: "ffi_show B path v = map_err (ffi_error B) (store_show (ffi_open B) (RelPath path) v)" for v
      by (rule ffi_show_step [OF e(1,2)])
    have pe: "e = RelPath path" by (rule ffi_path [OF e(1)])
    show "\<exists>tl. ffi_show B path w' = Inr (pw @ tl) \<and>
         (if in_place then \<exists>old. ffi_show B path w = Inr old \<and> tl = dropWhile (\<lambda>b. b \<noteq> NL) old else tl = []) \<and> pw = ?pw"
    proof (cases in_place)
      case True
      with gen e pe obtain old where old: "store_show (ffi_open B) (RelPath path) w = Inr old"
          "store_insert (ffi_open B) (RelPath path) (?pw @ dropWhile (\<lambda>b. b \<noteq> NL) old) True w = (Inr (), w')"
        by (auto simp: ffi_generate_def then_eff_Inr_iff Let_def)
      from put [OF old(2)] True e(3) old(1) show ?thesis by (simp add: sh)
    next
      case False
      with gen e pe have ins: "store_insert (ffi_open B) (RelPath path) ?pw force w = (Inr (), w')"
        by (auto simp: ffi_generate_def then_eff_Inr_iff Let_def)
      from put [OF ins] False e(3) show ?thesis by (simp add: sh)
    qed
  qed
qed

section \<open>Examples\<close>

lemma app_ok_tree:
  "fs_ok w \<Longrightarrow> no_stat w = (\<lambda>_. False) \<Longrightarrow> list_all (\<lambda>(p, n). list_all seg_addr p \<and> (case n of Link _ \<Rightarrow> False | _ \<Rightarrow> True)) (tree w) \<Longrightarrow> app_ok w"
  by (fastforce simp: app_ok_def node_at_def list_all_iff dest: map_of_SomeD)

lemma demo_app_ok: "app_ok demo"
proof (rule app_ok_tree [OF demo_ok])
  show "list_all (\<lambda>(p, n). list_all seg_addr p \<and> (case n of Link _ \<Rightarrow> False | _ \<Rightarrow> True)) (tree demo)" by code_simp
qed (simp add: demo_simps)

definition demo_phone :: "fs_world bypass_store" where
  "demo_phone = \<lparr>bs_crypto = \<lparr>cb_encrypt = (\<lambda>pt rs w. (Inr (CHR ''!'' # pt), w)),
       cb_decrypt = (\<lambda>w ct. case ct of [] \<Rightarrow> Inl (FfiCrypto ''empty'') | c # pt \<Rightarrow> Inr pt)\<rparr>,
     bs_poisoned = False, bs_show_storage = (\<lambda>_. ''io''), bs_show_path = (\<lambda>_. ''path'')\<rparr>"

lemma demo_phone_crypto:
  "crypto_sound (crypto (ffi_open demo_phone)) (\<lambda>_ _. True)" "crypto_quiet blobs app_ok (crypto (ffi_open demo_phone))"
  by (auto simp: crypto_sound_def crypto_quiet_def quiet_def ffi_open_def demo_phone_def callback_encrypt_def callback_decrypt_def)

lemma demo_phone_parts:
  "ffi_parse_path demo_phone ''web/new'' = Inr (RelPath ''web/new'')" "ffi_lock demo_phone = Inr ()"
  "resolve_for (ffi_open demo_phone) (RelPath ''web/new'') demo = Inr [KeyId ''K1'']"
  "app_absolute (RelPath ''web/new.gpg'') = Inr [''web'', ''new.gpg'']" "app_tmp_name ''new.gpg'' 7 0 = ''.bypass.tmp.7.0.new.gpg''"
  by code_simp+

lemma demo_phone_encrypt: "cr_encrypt (crypto (ffi_open demo_phone)) pt rs w = (Inr (CHR ''!'' # pt), w)"
  by (simp add: ffi_open_def callback_encrypt_def demo_phone_def)

lemma demo_phone_run:
  "fst (ffi_insert demo_phone ''web/new'' ''pw'' False demo) = Inr ()"
  "st_read app_storage (snd (ffi_insert demo_phone ''web/new'' ''pw'' False demo)) (RelPath ''web/new.gpg'') = Inr (Some ''!pw'')"
  by (simp_all add: ffi_insert_def demo_phone_parts store_insert_def exists_unless_def demo_new app_storage_def app_exists_def app_write_def
      app_read_def app_tmp_path_def demo_phone_encrypt fs_run cong: run_weak)

theorem ffi_stores_what_it_says_witness:
  "ffi_show demo_phone ''web/new'' (snd (ffi_insert demo_phone ''web/new'' ''pw'' False demo)) = Inr ''pw''"
proof -
  have "entry_ok (RelPath ''web/new'')" by code_simp
  moreover have "st_read app_storage (snd (ffi_insert demo_phone ''web/new'' ''pw'' False demo)) (entry_to_blob (RelPath ''web/new'')) = Inr (Some ''!pw'')"
    by (simp add: demo_new(1) demo_phone_run(2))
  moreover have "ffi_insert demo_phone ''web/new'' ''pw'' False demo = (Inr (), snd (ffi_insert demo_phone ''web/new'' ''pw'' False demo))"
    by (rule run_eq) (rule demo_phone_run(1))
  ultimately show ?thesis
    using ffi_stores_what_it_says [OF demo_phone_crypto demo_app_ok, of "''web/new''"
        "snd (ffi_insert demo_phone ''web/new'' ''pw'' False demo)" "Some ''!pw''" "''pw''" False] by blast
qed

text \<open>A write that is interrupted before the rename leaves its temporary file, and \<open>ls\<close> shows it as an entry.\<close>

lemma leftover_listed_as_entry:
  "ffi_ls demo_phone None (put_node [''.bypass.tmp.7.0.new.gpg''] (File '''') (demo_world [([], Dir)])) = Inr [''.bypass.tmp.7.0.new'']"
  by code_simp

end
