(* ===== verification/Spec2Isabelle.thy ===== *)
theory Spec2Isabelle
  imports Dispatch Daemon_Start In_Process Pair_Command Host_Install Doctor Clipboard Gpg_Cli Import_Command Extensions Bulk_Writes Status_Socket Cli_Sync Edit Watcher Swarm Identity Cli_Commands Backup_Restore Git2_Vcs App_Store Daemon Import_Formats Pairing Syncing
begin

text \<open>
  A verification library for \<open>bypass\<close>, a password store in the \<open>pass\<close> format written in Rust (\<open>src/crates\<close>).

  The program.  \<open>bypass-core\<close> keeps one encrypted file per entry below a store root: \<open>Store<C, S, V>\<close> composes
  a crypto, a storage and a version-control backend, given as traits.  \<open>bypass-cli\<close> is the terminal program: it
  instantiates the store with \<open>gpg\<close> as a process, the file system and \<open>libgit2\<close>, and adds editing, import,
  backup, a native-messaging host for browsers, a clipboard helper, \<open>doctor\<close>, and synchronisation of the git
  history between paired devices, by hand or through a daemon.  \<open>bypass-ffi\<close> gives the core to the Android
  application over a sandbox storage and a crypto callback.

  How the code is represented.  A function that can fail is a function into \<open>'e + 'a\<close> (\<open>Inl\<close> an error); one with
  effects is an \<open>eff\<close>, from a world to such a result and the world it leaves, and \<open>then_eff\<close> is the \<open>?\<close>
  operator, so every early return is a branch (\<open>Rust_Prelude\<close>).  A \<open>str\<close> is its list of bytes with the UTF-8
  tables of the standard library (\<open>Rust_Text\<close>).  \<open>std::fs\<close> is a directory tree with a fault plan (\<open>Fs_World\<close>):
  each call that changes the tree may fail, a write after any number of bytes, so a theorem over all worlds is
  one over every pattern of I/O errors; what does not concern the tree lives in extensions of that record
  (permission bits, listening sockets, key rings, repositories).  Concurrent parts are step relations or runs
  over sequences of events.  Packages are parameters: records of functions whose documented behaviour is a
  named hypothesis (\<open>crypto_sound\<close>, \<open>gpg_documented\<close>, \<open>git_quiet\<close>, \<open>sink_faithful\<close>, \<open>config_sound\<close>, \<open>codec_sound\<close>).

  The core.  \<open>Rel_Path\<close> (\<open>path.rs\<close>), \<open>Entry_Format\<close> (\<open>entry.rs\<close>, \<open>otp.rs\<close>), \<open>Gpg_Ids\<close> (\<open>gpg_id.rs\<close>), \<open>Generate\<close>
  (\<open>generate.rs\<close>), \<open>Store_Traits\<close> (\<open>crypto.rs\<close>, \<open>storage.rs\<close>, \<open>vcs.rs\<close>) with the locale \<open>storage_laws\<close>, the contract
  of a storage backend.  \<open>Pass_Store\<close> is \<open>store.rs\<close>, operation by operation; \<open>Pass_Store_Facts\<close> proves inside the
  locale what each operation does to the blobs on success and leaves alone on failure.  \<open>Storage_Fs\<close> is
  \<open>storage_fs.rs\<close>, \<open>Storage_Fs_Laws\<close> its well-formed trees and the interpretation \<open>fs\<close> of the contract; \<open>App_Store\<close>
  is \<open>bypass-ffi\<close> with the interpretation \<open>app\<close>.  \<open>Store_Properties\<close> states what the store promises on the file
  system: insert and show are inverse, a failed insert harms nothing, a write is all or nothing, rename, removal
  and listing are exact, symbolic links are refused.  \<open>Importing\<close>, \<open>Import_Formats\<close> (\<open>import.rs\<close>, \<open>import/\<close>) and
  \<open>Bundle\<close> (\<open>bundle.rs\<close>) convert foreign vaults and whole stores; \<open>Bulk_Writes\<close> is what they share.

  The command line.  \<open>Gpg_Cli\<close> (\<open>crypto_gpg.rs\<close>) with the argument vectors as \<open>gpg\<close> reads them, \<open>Git2_Vcs\<close>
  (\<open>vcs_git2.rs\<close>), \<open>Tree_Render\<close> (\<open>tree.rs\<close>), \<open>Cli_Commands\<close> and \<open>Dispatch\<close> (\<open>main.rs\<close>, \<open>cli.rs\<close>), \<open>Edit\<close> (\<open>edit.rs\<close>),
  \<open>Import_Command\<close> (\<open>import.rs\<close>), \<open>Backup_Restore\<close> (\<open>backup.rs\<close>, \<open>restore.rs\<close>), \<open>Messaging_Host\<close>
  (\<open>messaging_host.rs\<close>), \<open>Clipboard\<close>, \<open>Doctor\<close>, \<open>Extensions\<close> (\<open>extensions.rs\<close> and the default places), \<open>Host_Install\<close>
  (\<open>native_host_install.rs\<close>, \<open>sync/service.rs\<close>) and \<open>Leak_Audit\<close> (\<open>audit.rs\<close>).  Their lemmas say where a secret may
  go and that it goes nowhere else, that the commands compose the store's operations without loss (what was
  piped in is shown, what was imported or restored is there), and what is left after a failure.

  Synchronisation (\<open>bypass-cli/src/sync\<close>, \<open>main.rs\<close>).  \<open>Calendar\<close> and \<open>Pairing\<close> (\<open>pairing.rs\<close>), \<open>Peers\<close>
  (\<open>peers.rs\<close>) and \<open>Identity\<close> (\<open>identity.rs\<close>) meet in \<open>Pair_Command\<close>; \<open>Sync_Wire\<close> and \<open>Syncing\<close> (\<open>wire.rs\<close>,
  \<open>syncing.rs\<close>) exchange packs, over the transport whose task is \<open>Swarm\<close> (\<open>libp2p_transport.rs\<close>) and whose fake is
  \<open>In_Process\<close> (\<open>transport.rs\<close>); \<open>Daemon\<close> (\<open>daemon.rs\<close>) is the loop, with \<open>Rate_Limit\<close> (\<open>ratelimit.rs\<close>), \<open>Watcher\<close>
  (\<open>watcher.rs\<close>) and \<open>Status_Socket\<close> (\<open>socket.rs\<close>), started by \<open>Daemon_Start\<close>; \<open>Cli_Sync\<close> is \<open>sync\<close> by hand, \<open>init\<close>
  and the merge driver (\<open>merge_driver.rs\<close>).  The lemmas are invariants of the step relations (only pinned peers
  are served or dialled, one dial in flight to a peer that stays pinned, the budget of attempts, every request
  answered once or waiting at its owner), the agreement of the two sides of pairing, and that nothing enters or leaves the
  history unaudited.

  Bounds.  No definition has fuel: loops are structural recursions or \<open>function\<close>s with a measure (the depth
  of the path for \<open>.gpg-id\<close>, the tree below a directory for the walks, the bytes left for shredding and for the
  messaging host), so the models are total, and \<open>host_ends\<close> says which inputs end the host and how.  Lengths
  are natural numbers where the code's \<open>usize\<close> cannot overflow in memory; the width is written out where it
  decides: the 32-bit little-endian prefix of a frame and its cap of 512 KiB, the cap of 50 MiB on packs, the
  mode of an extension as a 32-bit word, bytes as 8-bit words in the comparison of tags, exit codes as a byte.

  Not modelled.  \<open>Libp2pTransport::new\<close> only builds a swarm from packages; the attributes of \<open>clap\<close> and its
  generators of completions and the manual page; the \<open>Display\<close> texts of errors (an error is the constructor with
  its arguments) and most progress messages; the binding generator; zeroing of memory on drop, which no value
  of the model can observe; the pipes of one \<open>gpg\<close> exchange, taken as one step; Kotlin and TypeScript front
  ends, whose side of an interface is a parameter.
\<close>

end
